(* ===== verification/Prelude.thy ===== *)
theory Prelude
  imports Main "HOL-Library.Word"
begin

text \<open>
  Shared vocabulary of the development: the Go types the components use (byte slices, machine
  integers, error values), the state-and-error computations in which the stateful Go functions
  are written, and the generic lemmas about them.

  A Go byte slice or string is a list of bytes, a \<open>uint64\<close> is a \<open>64 word\<close> whose
  arithmetic wraps around, a \<open>*big.Int\<close> is an \<open>int\<close>. An \<open>error\<close> result is the
  left injection of a sum; a run-time panic is an error value of its own.
\<close>

unbundle bit_operations_syntax

section \<open>Types\<close>

type_synonym byte = "8 word"
type_synonym bytes = "byte list"
type_synonym u8 = "8 word"
type_synonym u16 = "16 word"
type_synonym u32 = "32 word"
type_synonym u64 = "64 word"

text \<open>\<open>common.Address\<close> and \<open>common.Hash\<close> of go-ethereum are byte arrays.\<close>

type_synonym caddr = bytes
type_synonym chash = bytes

text \<open>
  Error values. \<open>NotExist\<close> and \<open>OutOfSize\<close> are the sentinels of
  \<open>pkg/storage/store/types.go\<close>; every other error of the code carries the constant part of
  its message. \<open>Panic\<close> is a Go run-time panic (slice bounds, explicit \<open>panic\<close>).
\<close>

datatype err = NotExist | OutOfSize | Err string | Panic string

fun is_panic :: "err \<Rightarrow> bool" where
  "is_panic (Panic _) = True"
| "is_panic _ = False"

text \<open>A string literal of the source as bytes.\<close>

definition str :: "string \<Rightarrow> bytes" where
  "str s = map of_char s"

lemma length_str [simp]: "length (str s) = length s"
  by (simp add: str_def)

section \<open>Collections of simplification rules\<close>

named_theorems monad_simps \<open>evaluation of state-and-error computations\<close>
named_theorems monad_ok \<open>inversion of successful computations\<close>
named_theorems keeps_rules \<open>frame rules of computations\<close>

section \<open>State-and-error computations\<close>

text \<open>
  A Go function with an \<open>error\<close> result that mutates a state is a function from the state to
  its result and the state it leaves behind. The state is returned on the error path too: what
  was written before the failing call stays written.
\<close>

type_synonym ('st, 'a) M = "'st \<Rightarrow> (err + 'a) \<times> 'st"

definition retM :: "'a \<Rightarrow> ('st, 'a) M" where
  "retM a = (\<lambda>s. (Inr a, s))"

definition raiseM :: "err \<Rightarrow> ('st, 'a) M" where
  "raiseM e = (\<lambda>s. (Inl e, s))"

definition bindM :: "('st, 'a) M \<Rightarrow> ('a \<Rightarrow> ('st, 'b) M) \<Rightarrow> ('st, 'b) M" where
  "bindM m f = (\<lambda>s. case m s of (Inl e, s') \<Rightarrow> (Inl e, s') | (Inr a, s') \<Rightarrow> f a s')"

definition thenM :: "('st, 'a) M \<Rightarrow> ('st, 'b) M \<Rightarrow> ('st, 'b) M" where
  "thenM m k = bindM m (\<lambda>_. k)"

definition failIf :: "bool \<Rightarrow> err \<Rightarrow> ('st, unit) M" where
  "failIf b e = (if b then raiseM e else retM ())"

text \<open>A fallible read of the state, an update of it, and a fallible pure call.\<close>

definition readM :: "('st \<Rightarrow> err + 'a) \<Rightarrow> ('st, 'a) M" where
  "readM g = (\<lambda>s. (g s, s))"

definition modM :: "('st \<Rightarrow> 'st) \<Rightarrow> ('st, unit) M" where
  "modM g = (\<lambda>s. (Inr (), g s))"

definition liftE :: "err + 'a \<Rightarrow> ('st, 'a) M" where
  "liftE r = (\<lambda>s. (r, s))"

text \<open>Running a computation on a component of the state.\<close>

definition zoomM :: "('st \<Rightarrow> 'c) \<Rightarrow> ('c \<Rightarrow> 'st \<Rightarrow> 'st) \<Rightarrow> ('c, 'a) M \<Rightarrow> ('st, 'a) M" where
  "zoomM get put m = (\<lambda>s. case m (get s) of (r, c) \<Rightarrow> (r, put c s))"

text \<open>A call whose error result the source drops: the state it leaves is kept.\<close>

definition ignoreM :: "('st, 'a) M \<Rightarrow> ('st, unit) M" where
  "ignoreM m = (\<lambda>s. (Inr (), snd (m s)))"

text \<open>Sequencing of pure fallible calls.\<close>

definition bindE :: "err + 'a \<Rightarrow> ('a \<Rightarrow> err + 'b) \<Rightarrow> err + 'b" where
  "bindE r f = (case r of Inl e \<Rightarrow> Inl e | Inr a \<Rightarrow> f a)"

lemma retM_run [monad_simps]: "retM a s = (Inr a, s)"
  by (simp add: retM_def)

lemma raiseM_run [monad_simps]: "raiseM e s = (Inl e, s)"
  by (simp add: raiseM_def)

lemma bindM_run [monad_simps]:
  "bindM m f s = (case m s of (Inl e, s') \<Rightarrow> (Inl e, s') | (Inr a, s') \<Rightarrow> f a s')"
  by (simp add: bindM_def)

lemma thenM_run [monad_simps]:
  "thenM m k s = (case m s of (Inl e, s') \<Rightarrow> (Inl e, s') | (Inr a, s') \<Rightarrow> k s')"
  by (simp add: thenM_def bindM_def)

lemma failIf_run [monad_simps]: "failIf b e s = (if b then Inl e else Inr (), s)"
  by (simp add: failIf_def retM_def raiseM_def)

lemma readM_run [monad_simps]: "readM g s = (g s, s)"
  by (simp add: readM_def)

lemma modM_run [monad_simps]: "modM g s = (Inr (), g s)"
  by (simp add: modM_def)

lemma liftE_run [monad_simps]: "liftE r s = (r, s)"
  by (simp add: liftE_def)

lemma zoomM_run [monad_simps]:
  "zoomM get put m s = (case m (get s) of (r, c) \<Rightarrow> (r, put c s))"
  by (simp add: zoomM_def)

lemma ignoreM_run [monad_simps]: "ignoreM m s = (Inr (), snd (m s))"
  by (simp add: ignoreM_def)

lemma ignoreM_ok [monad_ok]: "ignoreM m s = (Inr u, t) \<longleftrightarrow> t = snd (m s)"
  by (auto simp: ignoreM_def)

lemma bindM_ok [monad_ok]:
  "bindM m f s = (Inr b, t) \<longleftrightarrow> (\<exists>a s'. m s = (Inr a, s') \<and> f a s' = (Inr b, t))"
  by (auto simp: bindM_def split: prod.splits sum.splits)

lemma thenM_ok [monad_ok]:
  "thenM m k s = (Inr b, t) \<longleftrightarrow> (\<exists>a s'. m s = (Inr a, s') \<and> k s' = (Inr b, t))"
  by (simp add: thenM_def bindM_ok)

lemma failIf_ok [monad_ok]: "failIf b e s = (Inr u, t) \<longleftrightarrow> \<not> b \<and> t = s"
  by (auto simp: failIf_run)

lemma readM_ok [monad_ok]: "readM g s = (Inr a, t) \<longleftrightarrow> g s = Inr a \<and> t = s"
  by (auto simp: readM_def)

lemma modM_ok [monad_ok]: "modM g s = (Inr u, t) \<longleftrightarrow> t = g s"
  by (auto simp: modM_def)

lemma liftE_ok [monad_ok]: "liftE r s = (Inr a, t) \<longleftrightarrow> r = Inr a \<and> t = s"
  by (auto simp: liftE_def)

lemma retM_ok [monad_ok]: "retM a s = (Inr b, t) \<longleftrightarrow> b = a \<and> t = s"
  by (auto simp: retM_def)

lemma raiseM_ok [monad_ok]: "raiseM e s = (Inr b, t) \<longleftrightarrow> False"
  by (simp add: raiseM_def)

lemma zoomM_ok [monad_ok]:
  "zoomM get put m s = (Inr a, t) \<longleftrightarrow> (\<exists>c. m (get s) = (Inr a, c) \<and> t = put c s)"
  by (auto simp: zoomM_def split: prod.splits)

lemma bindE_ok [monad_ok]: "bindE r f = Inr b \<longleftrightarrow> (\<exists>a. r = Inr a \<and> f a = Inr b)"
  by (auto simp: bindE_def split: sum.splits)

lemma bindE_run [monad_simps]:
  "bindE (Inl e) f = Inl e" "bindE (Inr a) f = f a"
  by (simp_all add: bindE_def)

section \<open>Frame conditions of computations\<close>

text \<open>
  \<open>keepsM f m\<close>: whatever \<open>m\<close> does, on success and on failure, the part \<open>f\<close> of the
  state is the same afterwards.
\<close>

definition keepsM :: "('st \<Rightarrow> 'x) \<Rightarrow> ('st, 'a) M \<Rightarrow> bool" where
  "keepsM f m \<longleftrightarrow> (\<forall>s. f (snd (m s)) = f s)"

lemma keepsM_run: "keepsM f m \<Longrightarrow> m s = (r, t) \<Longrightarrow> f t = f s"
  by (metis keepsM_def snd_conv)

lemma keepsM_I: "(\<And>s r t. m s = (r, t) \<Longrightarrow> f t = f s) \<Longrightarrow> keepsM f m"
  by (metis keepsM_def surjective_pairing)

lemma keepsM_ret [keeps_rules, intro]: "keepsM f (retM a)"
  by (simp add: keepsM_def retM_def)

lemma keepsM_raise [keeps_rules, intro]: "keepsM f (raiseM e)"
  by (simp add: keepsM_def raiseM_def)

lemma keepsM_fail [keeps_rules, intro]: "keepsM f (failIf b e)"
  by (simp add: keepsM_def failIf_run)

lemma keepsM_read [keeps_rules, intro]: "keepsM f (readM g)"
  by (simp add: keepsM_def readM_def)

lemma keepsM_lift [keeps_rules, intro]: "keepsM f (liftE r)"
  by (simp add: keepsM_def liftE_def)

lemma keepsM_mod [keeps_rules, intro]: "(\<And>s. f (g s) = f s) \<Longrightarrow> keepsM f (modM g)"
  by (simp add: keepsM_def modM_def)

lemma keepsM_bind [keeps_rules, intro]:
  "keepsM f m \<Longrightarrow> (\<And>a. keepsM f (k a)) \<Longrightarrow> keepsM f (bindM m k)"
  by (auto simp: keepsM_def bindM_def split: prod.splits sum.splits) (metis snd_conv)+

lemma keepsM_then [keeps_rules, intro]:
  "keepsM f m \<Longrightarrow> keepsM f k \<Longrightarrow> keepsM f (thenM m k)"
  unfolding thenM_def by (rule keepsM_bind)

lemma keepsM_ignore [keeps_rules, intro]: "keepsM f m \<Longrightarrow> keepsM f (ignoreM m)"
  by (simp add: keepsM_def ignoreM_def)

lemma keepsM_if [keeps_rules, intro]:
  "(b \<Longrightarrow> keepsM f m) \<Longrightarrow> (\<not> b \<Longrightarrow> keepsM f k) \<Longrightarrow> keepsM f (if b then m else k)"
  by simp

lemma keepsM_let [keeps_rules, intro]: "keepsM f (k v) \<Longrightarrow> keepsM f (let x = v in k x)"
  by simp

lemma keepsM_case_prod [keeps_rules, intro]:
  "(\<And>a b. keepsM f (k a b)) \<Longrightarrow> keepsM f (case p of (a, b) \<Rightarrow> k a b)"
  by (cases p) simp

lemma keepsM_case_option [keeps_rules, intro]:
  "keepsM f m \<Longrightarrow> (\<And>x. keepsM f (k x)) \<Longrightarrow> keepsM f (case p of None \<Rightarrow> m | Some x \<Rightarrow> k x)"
  by (cases p) auto

lemma keepsM_zoom_on:
  "keepsM g m \<Longrightarrow> (\<And>c s. f (put c s) = g c) \<Longrightarrow> (\<And>s. f s = g (get s)) \<Longrightarrow> keepsM f (zoomM get put m)"
  by (auto simp: keepsM_def zoomM_def split: prod.splits) (metis snd_conv)

lemma keepsM_ok_eq: "keepsM f m \<Longrightarrow> m s = (Inr a, t) \<Longrightarrow> f t = f s"
  by (rule keepsM_run)

lemma keepsM_zoom [keeps_rules]:
  "(\<And>c s. f (put c s) = f s) \<Longrightarrow> keepsM f (zoomM get put m)"
  by (simp add: keepsM_def zoomM_def split: prod.splits)

section \<open>Machine words\<close>

definition MAXUINT64 :: u64 where
  "MAXUINT64 = - 1"

lemma unat_lt_u64: "unat (x :: u64) < 18446744073709551616"
  using unsigned_less [of x, where 'a = nat] by simp

lemma unat_MAXUINT64: "unat MAXUINT64 = 18446744073709551615"
  by (simp add: MAXUINT64_def unsigned_minus_1_eq_mask mask_eq_exp_minus_1)

lemma unat_MAX_minus: "unat (MAXUINT64 - x) = 18446744073709551615 - unat x"
proof -
  have "x \<le> MAXUINT64"
    by (simp add: MAXUINT64_def)
  then show ?thesis
    using unat_sub [of x MAXUINT64] by (simp add: unat_MAXUINT64)
qed

text \<open>The guard \<open>MAXUINT64 - a < b\<close> of the source tests exactly for overflow.\<close>

lemma MAX_minus_less_iff:
  "MAXUINT64 - a < b \<longleftrightarrow> 18446744073709551616 \<le> unat a + unat b"
  using unat_lt_u64 [of a] by (auto simp: word_less_nat_alt unat_MAX_minus)

lemma unat_plus_u64:
  "unat (a :: u64) + unat b < 18446744073709551616 \<Longrightarrow> unat (a + b) = unat a + unat b"
  by (simp add: unat_word_ariths)

lemma unat_minus_u64: "b \<le> a \<Longrightarrow> unat ((a :: u64) - b) = unat a - unat b"
  by (simp add: unat_sub)

lemma word_of_int_uint_u64 [simp]: "word_of_int (uint (x :: u64)) = x"
  by simp

end
