(* ===== verification/Bigint.thy ===== *)
theory Bigint
  imports Prelude
begin

text \<open>
  What the sources use of \<open>math/big\<close> and \<open>encoding/hex\<close>: the big-endian bytes of a
  non-negative integer, digits in a base, and hexadecimal strings.
\<close>

section \<open>Digits\<close>

text \<open>Least significant digit first, without leading zeros.\<close>

fun digits_le :: "nat \<Rightarrow> nat \<Rightarrow> nat list" where
  "digits_le b n = (if n = 0 \<or> b < 2 then [] else n mod b # digits_le b (n div b))"

declare digits_le.simps [simp del]

fun undigits_le :: "nat \<Rightarrow> nat list \<Rightarrow> nat" where
  "undigits_le b [] = 0"
| "undigits_le b (d # ds) = d + b * undigits_le b ds"

lemma digits_le_0 [simp]: "digits_le b 0 = []"
  by (simp add: digits_le.simps)

lemma digits_le_step: "0 < n \<Longrightarrow> 2 \<le> b \<Longrightarrow> digits_le b n = n mod b # digits_le b (n div b)"
  by (subst digits_le.simps) simp

lemma undigits_digits: "2 \<le> b \<Longrightarrow> undigits_le b (digits_le b n) = n"
proof (induction n rule: less_induct)
  case (less n)
  show ?case
  proof (cases "n = 0")
    case False
    with less have "undigits_le b (digits_le b (n div b)) = n div b"
      by simp
    with False less.prems show ?thesis
      by (simp add: digits_le_step)
  qed simp
qed

lemma digits_lt: "2 \<le> b \<Longrightarrow> d \<in> set (digits_le b n) \<Longrightarrow> d < b"
proof (induction n rule: less_induct)
  case (less n)
  then show ?case
    using less.IH [of "n div b"] by (cases "n = 0") (auto simp: digits_le_step)
qed

lemma length_digits_le: "2 \<le> b \<Longrightarrow> n < b ^ k \<Longrightarrow> length (digits_le b n) \<le> k"
proof (induction k arbitrary: n)
  case 0
  then show ?case by simp
next
  case (Suc k)
  show ?case
  proof (cases "n = 0")
    case False
    have "n div b < b ^ k"
      using Suc.prems by (simp add: less_mult_imp_div_less mult.commute)
    with Suc False show ?thesis
      by (simp add: digits_le_step)
  qed simp
qed

lemma undigits_append_zeros: "undigits_le b (ds @ replicate k 0) = undigits_le b ds"
proof (induction ds)
  case Nil
  show ?case by (induction k) auto
qed simp

lemma undigits_replicate: "0 < b \<Longrightarrow> undigits_le b (replicate k (b - 1)) + 1 = b ^ k"
proof (induction k)
  case (Suc k)
  then have "b * (undigits_le b (replicate k (b - 1)) + 1) = b * b ^ k"
    by simp
  with Suc.prems show ?case
    by (simp add: algebra_simps)
qed simp

lemma undigits_lt:
  "(\<And>d. d \<in> set ds \<Longrightarrow> d < b) \<Longrightarrow> undigits_le b ds < b ^ length ds"
proof (induction ds)
  case (Cons d ds)
  then have "d < b" and ih: "undigits_le b ds < b ^ length ds"
    by auto
  then have "d + b * undigits_le b ds < b * Suc (undigits_le b ds)"
    by simp
  also have "\<dots> \<le> b * b ^ length ds"
    using ih by (simp del: mult_Suc_right)
  finally show ?case by simp
qed simp

lemma digits_undigits:
  assumes "2 \<le> b" and "\<And>d. d \<in> set ds \<Longrightarrow> d < b" and "ds = [] \<or> last ds \<noteq> 0"
  shows "digits_le b (undigits_le b ds) = ds"
  using assms(2,3)
proof (induction ds)
  case (Cons d ds)
  have d: "d < b" using Cons.prems by simp
  have ih: "digits_le b (undigits_le b ds) = ds"
    using Cons by (cases ds) auto
  have "0 < d + b * undigits_le b ds"
  proof (cases "ds = []")
    case False
    with ih have "undigits_le b ds \<noteq> 0" by (metis digits_le_0)
    with d show ?thesis by auto
  qed (use Cons.prems in auto)
  with d ih assms(1) show ?case
    by (simp add: digits_le_step)
qed simp

section \<open>Big-endian bytes\<close>

text \<open>\<open>big.Int.SetBytes\<close> and \<open>big.Int.Bytes\<close>.\<close>

definition be_val :: "bytes \<Rightarrow> nat" where
  "be_val bs = undigits_le 256 (rev (map unat bs))"

definition be_bytes :: "nat \<Rightarrow> bytes" where
  "be_bytes n = map word_of_nat (rev (digits_le 256 n))"

lemma unat_byte_lt: "unat (b :: byte) < 256"
  using unsigned_less [of b, where 'a = nat] by simp

lemma map_unat_of_nat: "(\<And>d. d \<in> set ds \<Longrightarrow> d < 256) \<Longrightarrow> map (\<lambda>d. unat (word_of_nat d :: byte)) ds = ds"
  by (induction ds) (auto simp: unsigned_of_nat take_bit_nat_eq_self_iff)

lemma be_val_be_bytes: "be_val (be_bytes n) = n"
proof -
  have "map (\<lambda>d. unat (word_of_nat d :: byte)) (digits_le 256 n) = digits_le 256 n"
    by (rule map_unat_of_nat) (use digits_lt [of 256] in auto)
  then show ?thesis
    by (simp add: be_val_def be_bytes_def rev_map o_def undigits_digits)
qed

lemma be_val_replicate: "be_val (replicate k 0 @ bs) = be_val bs"
  by (simp add: be_val_def rev_map map_replicate_const undigits_append_zeros)

lemma be_val_lt: "be_val bs < 256 ^ length bs"
proof -
  have "undigits_le 256 (rev (map unat bs)) < 256 ^ length (rev (map unat bs))"
    by (rule undigits_lt) (auto simp: unat_byte_lt)
  then show ?thesis by (simp add: be_val_def)
qed

lemma be_bytes_be_val_nz: "bs = [] \<or> hd bs \<noteq> 0 \<Longrightarrow> be_bytes (be_val bs) = bs"
proof -
  assume nz: "bs = [] \<or> hd bs \<noteq> 0"
  have "digits_le 256 (undigits_le 256 (rev (map unat bs))) = rev (map unat bs)"
  proof (rule digits_undigits)
    show "rev (map unat bs) = [] \<or> last (rev (map unat bs)) \<noteq> 0"
      using nz by (cases bs) (auto simp: unat_eq_zero)
  qed (auto simp: unat_byte_lt)
  then show ?thesis
    by (simp add: be_val_def be_bytes_def o_def)
qed

lemma takeWhile_zero_replicate:
  "takeWhile ((=) (0::byte)) bs = replicate (length (takeWhile ((=) 0) bs)) 0"
  by (induction bs) auto

lemma be_bytes_be_val: "be_bytes (be_val bs) = dropWhile ((=) 0) bs"
proof -
  have "be_val bs = be_val (takeWhile ((=) 0) bs @ dropWhile ((=) 0) bs)"
    by simp
  also have "\<dots> = be_val (dropWhile ((=) 0) bs)"
    by (subst takeWhile_zero_replicate) (rule be_val_replicate)
  also have "be_bytes \<dots> = dropWhile ((=) 0) bs"
    by (rule be_bytes_be_val_nz) (metis (full_types) hd_dropWhile)
  finally show ?thesis .
qed

text \<open>Padding the bytes of a value on the left to a given length restores the slice it was read from.\<close>

lemma be_pad_roundtrip:
  "replicate (length bs - length (be_bytes (be_val bs))) 0 @ be_bytes (be_val bs) = bs"
proof -
  have "length bs = length (takeWhile ((=) 0) bs) + length (dropWhile ((=) 0) bs)"
    by (metis length_append takeWhile_dropWhile_id)
  then show ?thesis
    by (metis add_diff_cancel_right' be_bytes_be_val takeWhile_dropWhile_id takeWhile_zero_replicate)
qed

lemma length_be_bytes_le: "n < 256 ^ k \<Longrightarrow> length (be_bytes n) \<le> k"
  by (simp add: be_bytes_def length_digits_le)

section \<open>Hexadecimal strings\<close>

definition hex_char :: "byte \<Rightarrow> byte" where
  "hex_char n = (if n < 10 then 48 + n else 87 + n)"

text \<open>\<open>hex.EncodeToString\<close>\<close>

fun hex_EncodeToString :: "bytes \<Rightarrow> bytes" where
  "hex_EncodeToString [] = []"
| "hex_EncodeToString (b # bs) = hex_char (b div 16) # hex_char (b mod 16) # hex_EncodeToString bs"

definition fromHexChar :: "byte \<Rightarrow> err + byte" where
  "fromHexChar c =
     (if 48 \<le> c \<and> c \<le> 57 then Inr (c - 48)
      else if 97 \<le> c \<and> c \<le> 102 then Inr (c - 97 + 10)
      else if 65 \<le> c \<and> c \<le> 70 then Inr (c - 65 + 10)
      else Inl (Err ''encoding/hex: invalid byte''))"

text \<open>\<open>hex.DecodeString\<close>\<close>

fun hex_DecodeString :: "bytes \<Rightarrow> err + bytes" where
  "hex_DecodeString [] = Inr []"
| "hex_DecodeString [c] =
     bindE (fromHexChar c) (\<lambda>_. Inl (Err ''encoding/hex: odd length hex string''))"
| "hex_DecodeString (c # d # cs) =
     bindE (fromHexChar c) (\<lambda>a. bindE (fromHexChar d) (\<lambda>b.
     bindE (hex_DecodeString cs) (\<lambda>bs. Inr ((16 * a + b) # bs))))"

lemma length_hex [simp]: "length (hex_EncodeToString bs) = 2 * length bs"
  by (induction bs) auto

lemma fromHexChar_hex_char: "n < 16 \<Longrightarrow> fromHexChar (hex_char n) = Inr n"
proof -
  assume "n < 16"
  then have "unat n < 16" by (simp add: word_less_nat_alt)
  then have "unat n \<in> set [0..<16]" by simp
  moreover have "\<forall>k\<in>set [0..<16]. fromHexChar (hex_char (word_of_nat k)) = Inr (word_of_nat k)"
    by code_simp
  ultimately have "fromHexChar (hex_char (word_of_nat (unat n))) = Inr (word_of_nat (unat n))"
    by blast
  then show ?thesis by simp
qed

lemma hex_roundtrip [simp]: "hex_DecodeString (hex_EncodeToString bs) = Inr bs"
proof (induction bs)
  case (Cons b bs)
  have "b div 16 < 16"
    using unat_byte_lt [of b] by (simp add: word_less_nat_alt unat_div)
  moreover have "b mod 16 < 16"
    by (simp add: word_less_nat_alt unat_mod)
  moreover have "16 * (b div 16) + b mod 16 = b"
    by (rule mult_div_mod_eq)
  ultimately show ?case
    using Cons by (simp add: fromHexChar_hex_char monad_simps)
qed simp

end
