(* ===== verification/Env.thy ===== *)
theory Env
  imports Bigint
begin

text \<open>
  The environment of the node: the functions of third-party packages and the hash functions the
  sources call, as one record that every definition that needs them takes as its argument.

  The theorems of the development hold for every environment, or state what they need of it:
  nothing is assumed about a hash function beyond the length of its result. The contract of the
  CBOR header codec is the locale \<open>cbor\<close>, with RFC 8949's encoding as an instance.
\<close>

text \<open>
  \<open>network\<close> is the variable \<open>address.CurrentNetWork\<close>. \<open>BytesToAddress\<close>, \<open>HexToAddress\<close> and
  \<open>BytesToHash\<close> are functions of go-ethereum's \<open>common\<close>; \<open>cbg_write\<close> is
  \<open>cbg.WriteMajorTypeHeader\<close>, \<open>cbg_read\<close> is \<open>cbg.CborReadHeader\<close> on the rest of the input.
\<close>

record env =
  network :: byte
  sha1 :: "bytes \<Rightarrow> bytes"
  sha256 :: "bytes \<Rightarrow> bytes"
  sha3_256 :: "bytes \<Rightarrow> bytes"
  BytesToAddress :: "bytes \<Rightarrow> caddr"
  HexToAddress :: "bytes \<Rightarrow> caddr"
  BytesToHash :: "bytes \<Rightarrow> chash"
  cbg_write :: "byte \<Rightarrow> u64 \<Rightarrow> bytes"
  cbg_read :: "(bytes, byte \<times> u64) M"

definition MajUnsignedInt :: byte where "MajUnsignedInt = 0"
definition MajByteString :: byte where "MajByteString = 2"
definition MajArray :: byte where "MajArray = 4"

definition ByteArrayMaxLen :: u64 where "ByteArrayMaxLen = 2097152"

section \<open>Reading from a byte buffer\<close>

text \<open>\<open>io.ReadFull\<close> into a buffer of \<open>n\<close> bytes.\<close>

definition ReadFull :: "nat \<Rightarrow> (bytes, bytes) M" where
  "ReadFull n = (\<lambda>s. if length s < n then (Inl (Err ''unexpected EOF''), []) else (Inr (take n s), drop n s))"

lemma ReadFull_run [monad_simps]: "length x = n \<Longrightarrow> ReadFull n (x @ r) = (Inr x, r)"
  by (simp add: ReadFull_def)

text \<open>
  \<open>bytes.Buffer.Read\<close> into a buffer of \<open>n\<close> bytes: a short read is no error, the rest of the
  buffer keeps its zeros; only an empty input is.
\<close>

definition Buffer_Read :: "nat \<Rightarrow> (bytes, bytes) M" where
  "Buffer_Read n = (\<lambda>s. if s = [] \<and> 0 < n then (Inl (Err ''EOF''), [])
     else (Inr (take n s @ replicate (n - length s) 0), drop n s))"

lemma Buffer_Read_run [monad_simps]: "length x = n \<Longrightarrow> Buffer_Read n (x @ r) = (Inr x, r)"
  by (auto simp: Buffer_Read_def)

text \<open>Running a reader \<open>n\<close> times.\<close>

fun readN :: "nat \<Rightarrow> ('s, 'a) M \<Rightarrow> ('s, 'a list) M" where
  "readN 0 m = retM []"
| "readN (Suc n) m = bindM m (\<lambda>x. bindM (readN n m) (\<lambda>xs. retM (x # xs)))"

lemma readN_concat:
  "(\<And>x r. x \<in> set xs \<Longrightarrow> m (f x @ r) = (Inr x, r)) \<Longrightarrow>
   readN (length xs) m (concat (map f xs) @ r) = (Inr xs, r)"
  by (induction xs) (auto simp: monad_simps)

section \<open>The contract of the CBOR header codec\<close>

locale cbor =
  fixes E :: "'z env_scheme"
  assumes read_write: "m < 8 \<Longrightarrow> cbg_read E (cbg_write E m n @ r) = (Inr (m, n), r)"
    and write_pair: "cbg_write E MajArray 2 = [130]"
begin

lemmas maj_defs = MajUnsignedInt_def MajByteString_def MajArray_def

lemma read_uint [monad_simps]: "cbg_read E (cbg_write E MajUnsignedInt n @ r) = (Inr (MajUnsignedInt, n), r)"
  by (rule read_write) (simp add: maj_defs)

lemma read_bytes [monad_simps]: "cbg_read E (cbg_write E MajByteString n @ r) = (Inr (MajByteString, n), r)"
  by (rule read_write) (simp add: maj_defs)

lemma read_pair [monad_simps]: "cbg_read E (130 # r) = (Inr (MajArray, 2), r)"
proof -
  have "MajArray < 8" by (simp add: maj_defs)
  from read_write [OF this, of 2 r] show ?thesis by (simp only: write_pair append_Cons append_Nil)
qed

end

text \<open>
  RFC 8949: the major type in the upper three bits of the first byte; an argument below 24 in the
  lower five, otherwise 24 to 27 there and the argument big-endian in 1, 2, 4 or 8 bytes.
\<close>

definition rfc_write :: "byte \<Rightarrow> u64 \<Rightarrow> bytes" where
  "rfc_write m n =
     (let hd = push_bit 5 m; be = (\<lambda>k. replicate (k - length (be_bytes (unat n))) 0 @ be_bytes (unat n))
      in if n < 24 then [hd OR ucast n]
         else if n < 256 then (hd OR 24) # be 1
         else if n < 65536 then (hd OR 25) # be 2
         else if n < 4294967296 then (hd OR 26) # be 4
         else (hd OR 27) # be 8)"

definition rfc_read :: "(bytes, byte \<times> u64) M" where
  "rfc_read = (\<lambda>s. case s of [] \<Rightarrow> (Inl (Err ''EOF''), [])
     | h # r \<Rightarrow>
        (let m = drop_bit 5 h; a = h AND 31;
             ext = (\<lambda>k. case ReadFull k r of (Inl e, r') \<Rightarrow> (Inl e, r')
                        | (Inr bs, r') \<Rightarrow> (Inr (m, word_of_nat (be_val bs)), r'))
         in if a < 24 then (Inr (m, ucast a), r)
            else if a = 24 then ext 1 else if a = 25 then ext 2
            else if a = 26 then ext 4 else if a = 27 then ext 8
            else (Inl (Err ''invalid header''), r)))"

lemma rfc_head: "m < 8 \<Longrightarrow> a < 32 \<Longrightarrow> drop_bit 5 (push_bit 5 m OR a) = m \<and> (push_bit 5 m OR a) AND 31 = (a :: byte)"
proof -
  assume "m < 8" "a < 32"
  then have "unat m \<in> set [0..<8]" "unat a \<in> set [0..<32]"
    by (simp_all add: word_less_nat_alt)
  moreover have "\<forall>m\<in>set [0..<8]. \<forall>a\<in>set [0..<32].
      drop_bit 5 (push_bit 5 (word_of_nat m) OR word_of_nat a) = (word_of_nat m :: byte) \<and>
      (push_bit 5 (word_of_nat m) OR word_of_nat a) AND 31 = (word_of_nat a :: byte)"
    by code_simp
  ultimately have "drop_bit 5 (push_bit 5 (word_of_nat (unat m)) OR word_of_nat (unat a)) = (word_of_nat (unat m) :: byte) \<and>
      (push_bit 5 (word_of_nat (unat m)) OR word_of_nat (unat a)) AND 31 = (word_of_nat (unat a) :: byte)"
    by blast
  then show ?thesis by simp
qed

lemma rfc_ext:
  assumes "unat (n :: u64) < 256 ^ k"
  shows "ReadFull k ((replicate (k - length (be_bytes (unat n))) 0 @ be_bytes (unat n)) @ r) =
           (Inr (replicate (k - length (be_bytes (unat n))) 0 @ be_bytes (unat n)), r)"
    and "(word_of_nat (be_val (replicate (k - length (be_bytes (unat n))) 0 @ be_bytes (unat n))) :: u64) = n"
proof -
  have "length (replicate (k - length (be_bytes (unat n))) 0 @ be_bytes (unat n)) = k"
    using length_be_bytes_le [OF assms] by simp
  then show "ReadFull k ((replicate (k - length (be_bytes (unat n))) 0 @ be_bytes (unat n)) @ r) =
      (Inr (replicate (k - length (be_bytes (unat n))) 0 @ be_bytes (unat n)), r)"
    by (rule ReadFull_run)
qed (simp add: be_val_replicate be_val_be_bytes)

lemma rfc_read_write: "m < 8 \<Longrightarrow> rfc_read (rfc_write m n @ r) = (Inr (m, n), r)"
proof -
  assume m: "m < 8"
  have lt: "unat n < 256 ^ 8"
    using unat_lt_u64 [of n] by simp
  consider "n < 24" | "\<not> n < 24" "n < 256" | "\<not> n < 24" "\<not> n < 256" "n < 65536"
    | "\<not> n < 24" "\<not> n < 256" "\<not> n < 65536" "n < 4294967296"
    | "\<not> n < 24" "\<not> n < 256" "\<not> n < 65536" "\<not> n < 4294967296"
    by blast
  then show ?thesis
  proof cases
    case 1
    then have n: "unat n < 24" by (simp add: word_less_nat_alt)
    then have "unat n \<in> set [0..<24]" by simp
    moreover have "\<forall>k\<in>set [0..<24]. (ucast (word_of_nat k :: u64) :: byte) < 24 \<and>
        (ucast (word_of_nat k :: u64) :: byte) < 32 \<and> ucast (ucast (word_of_nat k :: u64) :: byte) = (word_of_nat k :: u64)"
      by code_simp
    ultimately have "(ucast (word_of_nat (unat n) :: u64) :: byte) < 24 \<and>
        (ucast (word_of_nat (unat n) :: u64) :: byte) < 32 \<and>
        ucast (ucast (word_of_nat (unat n) :: u64) :: byte) = (word_of_nat (unat n) :: u64)"
      by blast
    then have "(ucast n :: byte) < 24" "(ucast n :: byte) < 32" "ucast (ucast n :: byte) = n"
      by simp_all
    with 1 show ?thesis
      using rfc_head [OF m, of "ucast n"] by (simp add: rfc_write_def rfc_read_def Let_def)
  next
    case 2
    then have "unat n < 256 ^ 1" by (simp add: word_less_nat_alt)
    from rfc_ext [OF this] 2 show ?thesis
      using rfc_head [OF m, of 24] by (simp add: rfc_write_def rfc_read_def Let_def del: append_assoc)
  next
    case 3
    then have "unat n < 256 ^ 2" by (simp add: word_less_nat_alt)
    from rfc_ext [OF this] 3 show ?thesis
      using rfc_head [OF m, of 25] by (simp add: rfc_write_def rfc_read_def Let_def del: append_assoc)
  next
    case 4
    then have "unat n < 256 ^ 4" by (simp add: word_less_nat_alt)
    from rfc_ext [OF this] 4 show ?thesis
      using rfc_head [OF m, of 26] by (simp add: rfc_write_def rfc_read_def Let_def del: append_assoc)
  next
    case 5
    from rfc_ext [OF lt] 5 show ?thesis
      using rfc_head [OF m, of 27] by (simp add: rfc_write_def rfc_read_def Let_def del: append_assoc)
  qed
qed

text \<open>
  An environment for the examples: RFC 8949 headers, the conversions of go-ethereum's \<open>common\<close> for
  inputs of the right length, and in the place of the hash functions the first bytes of the padded
  input.
\<close>

definition pad_block :: "nat \<Rightarrow> bytes \<Rightarrow> bytes" where
  "pad_block k bs = take k (bs @ replicate k 255)"

definition demo_env :: env where
  "demo_env = \<lparr>network = 1, sha1 = pad_block 20, sha256 = pad_block 32, sha3_256 = pad_block 32,
     BytesToAddress = (\<lambda>b. if length b = 20 then b else pad_block 20 b),
     HexToAddress = (\<lambda>h. case hex_DecodeString h of Inr b \<Rightarrow> pad_block 20 b | Inl _ \<Rightarrow> replicate 20 0),
     BytesToHash = (\<lambda>b. replicate (32 - length b) 0 @ b), cbg_write = rfc_write, cbg_read = rfc_read\<rparr>"

interpretation demo: cbor demo_env
proof unfold_locales
  show "cbg_write demo_env MajArray 2 = [130]"
    by code_simp
qed (simp add: demo_env_def rfc_read_write)

lemma length_pad_block [simp]: "length (pad_block k bs) = k"
  by (simp add: pad_block_def)

end
