(* ===== verification/Address.thy ===== *)
theory Address
  imports Env
begin

text \<open>
  Addresses: the base-58 codec of \<open>pkg/util/addrcodec\<close> and the address type of
  \<open>pkg/address/address.go\<close> with its textual form and its projection to the 20-byte address of
  the state database.
\<close>

section \<open>Base 58\<close>

definition alphabet :: bytes where
  "alphabet = str ''123456789ABCDEFGHJKLMNPQRSTUVWXYZabcdefghijkmnopqrstuvwxyz''"

definition alphabetIdx0 :: byte where
  "alphabetIdx0 = 49"

definition b58 :: "nat list" where
  "b58 =
    [255, 255, 255, 255, 255, 255, 255, 255,
     255, 255, 255, 255, 255, 255, 255, 255,
     255, 255, 255, 255, 255, 255, 255, 255,
     255, 255, 255, 255, 255, 255, 255, 255,
     255, 255, 255, 255, 255, 255, 255, 255,
     255, 255, 255, 255, 255, 255, 255, 255,
     255, 0, 1, 2, 3, 4, 5, 6,
     7, 8, 255, 255, 255, 255, 255, 255,
     255, 9, 10, 11, 12, 13, 14, 15,
     16, 255, 17, 18, 19, 20, 21, 255,
     22, 23, 24, 25, 26, 27, 28, 29,
     30, 31, 32, 255, 255, 255, 255, 255,
     255, 33, 34, 35, 36, 37, 38, 39,
     40, 41, 42, 43, 255, 44, 45, 46,
     47, 48, 49, 50, 51, 52, 53, 54,
     55, 56, 57, 255, 255, 255, 255, 255] @ replicate 128 255"

text \<open>The decoding loop, from the last character to the first; an unknown character ends it.\<close>

fun b58_value :: "bytes \<Rightarrow> nat \<Rightarrow> nat \<Rightarrow> nat option" where
  "b58_value [] j answer = Some answer"
| "b58_value (c # cs) j answer =
     (let tmp = b58 ! unat c
      in if tmp = 255 then None else b58_value cs (j * 58) (answer + j * tmp))"

definition DecodeAddr :: "bytes \<Rightarrow> err + bytes" where
  "DecodeAddr b =
     (case b58_value (rev b) 1 0 of
        None \<Rightarrow> Inr []
      | Some answer \<Rightarrow>
          let tmpval = be_bytes answer
          in if 32 < length tmpval then Inl (Panic ''slice bounds out of range'')
             else Inr (replicate (32 - length tmpval) 0 @ tmpval))"

definition EncodeAddr :: "bytes \<Rightarrow> bytes" where
  "EncodeAddr data =
     (let answer = map (\<lambda>d. alphabet ! d) (digits_le 58 (be_val data));
          pad = (length data * 136 div 100 + 1) - length answer
      in rev (answer @ replicate pad alphabetIdx0))"

definition Decode :: "bytes \<Rightarrow> bytes" where
  "Decode b =
     (case b58_value (rev b) 1 0 of
        None \<Rightarrow> []
      | Some answer \<Rightarrow> replicate (length (takeWhile ((=) alphabetIdx0) b)) 0 @ be_bytes answer)"

definition Encode :: "bytes \<Rightarrow> bytes" where
  "Encode b =
     rev (map (\<lambda>d. alphabet ! d) (digits_le 58 (be_val b)) @
          replicate (length (takeWhile ((=) 0) b)) alphabetIdx0)"

text \<open>The checksum is the first four bytes of \<open>sha256\<close> applied twice; the hash is an argument.\<close>

definition checksum :: "(bytes \<Rightarrow> bytes) \<Rightarrow> bytes \<Rightarrow> bytes" where
  "checksum sha input = take 4 (sha (sha input))"

definition CheckEncode :: "(bytes \<Rightarrow> bytes) \<Rightarrow> bytes \<Rightarrow> byte \<Rightarrow> bytes" where
  "CheckEncode sha input version =
     (let b = version # input in Encode (b @ checksum sha b))"

definition CheckDecode :: "(bytes \<Rightarrow> bytes) \<Rightarrow> bytes \<Rightarrow> err + bytes \<times> byte" where
  "CheckDecode sha input =
     (let decoded = Decode input; n = length decoded
      in if n < 5 then Inl (Err ''invalid format: version and/or checksum bytes missing'')
         else if checksum sha (take (n - 4) decoded) \<noteq> drop (n - 4) decoded
         then Inl (Err ''checksum error'')
         else Inr (take (n - 5) (drop 1 decoded), decoded ! 0))"

subsection \<open>Round trips of the codec\<close>

lemma length_alphabet [simp]: "length alphabet = 58"
  by (simp add: alphabet_def)

lemma b58_alphabet: "d < 58 \<Longrightarrow> b58 ! unat (alphabet ! d) = d"
proof -
  assume "d < 58"
  moreover have "\<forall>d \<in> set [0..<58]. b58 ! unat (alphabet ! d) = d"
    by code_simp
  ultimately show ?thesis by simp
qed

lemma alphabet_0: "alphabet ! 0 = alphabetIdx0"
  by code_simp

lemma alphabet_inj: "d < 58 \<Longrightarrow> e < 58 \<Longrightarrow> alphabet ! d = alphabet ! e \<longleftrightarrow> d = e"
  by (metis b58_alphabet)

lemma b58_value_digits:
  "(\<And>d. d \<in> set ds \<Longrightarrow> d < 58) \<Longrightarrow>
   b58_value (map (\<lambda>d. alphabet ! d) ds) j acc = Some (acc + j * undigits_le 58 ds)"
proof (induction ds arbitrary: j acc)
  case (Cons d ds)
  then have "d < 58" by simp
  then have "b58 ! unat (alphabet ! d) = d" by (rule b58_alphabet)
  moreover have "d \<noteq> 255" using \<open>d < 58\<close> by simp
  moreover have "b58_value (map (\<lambda>d. alphabet ! d) ds) (j * 58) (acc + j * d) =
      Some ((acc + j * d) + (j * 58) * undigits_le 58 ds)"
    using Cons by simp
  ultimately show ?case
    by (simp add: algebra_simps)
qed simp

lemma digits58_lt: "d \<in> set (digits_le 58 n) \<Longrightarrow> d < 58"
  by (rule digits_lt) auto

lemma b58_value_encoded:
  "b58_value (map (\<lambda>d. alphabet ! d) (digits_le 58 n) @ replicate k alphabetIdx0) 1 0 = Some n"
proof -
  have "map (\<lambda>d. alphabet ! d) (digits_le 58 n) @ replicate k alphabetIdx0 =
        map (\<lambda>d. alphabet ! d) (digits_le 58 n @ replicate k 0)"
    by (simp add: map_replicate_const alphabet_0)
  moreover have "d < 58" if "d \<in> set (digits_le 58 n @ replicate k 0)" for d
    using that by (auto dest: digits58_lt split: if_splits)
  ultimately show ?thesis
    by (simp only: b58_value_digits undigits_append_zeros) (simp add: undigits_digits)
qed

lemma DecodeAddr_EncodeAddr:
  assumes "length data = 32"
  shows "DecodeAddr (EncodeAddr data) = Inr data"
proof -
  have "length (be_bytes (be_val data)) \<le> 32"
    using be_val_lt [of data] assms length_be_bytes_le by metis
  moreover have "b58_value (rev (EncodeAddr data)) 1 0 = Some (be_val data)"
    by (simp only: EncodeAddr_def Let_def rev_rev_ident b58_value_encoded)
  ultimately show ?thesis
    using be_pad_roundtrip [of data] assms by (simp add: DecodeAddr_def)
qed

lemma length_EncodeAddr: "length data = 32 \<Longrightarrow> length (EncodeAddr data) = 44"
proof -
  assume len: "length data = 32"
  have "be_val data < 58 ^ 44"
    using be_val_lt [of data] by (simp add: len)
  then have "length (digits_le 58 (be_val data)) \<le> 44"
    by (intro length_digits_le) auto
  then show ?thesis
    by (simp add: EncodeAddr_def len Let_def)
qed

lemma takeWhile_rev_map_alphabet:
  "takeWhile ((=) alphabetIdx0) (rev (map (\<lambda>d. alphabet ! d) (digits_le 58 n))) = []"
proof -
  have nz: "digits_le 58 n = [] \<or> last (digits_le 58 n) \<noteq> 0"
  proof (induction n rule: less_induct)
    case (less n)
    show ?case
    proof (cases "n = 0")
      case False
      then show ?thesis
        using less.IH [of "n div 58"] by (cases "n < 58") (auto simp: digits_le_step)
    qed simp
  qed
  show ?thesis
  proof (cases "digits_le 58 n" rule: rev_cases)
    case (snoc ds d)
    then have "d < 58" "d \<noteq> 0"
      using nz digits58_lt [of d n] by auto
    then have "alphabetIdx0 \<noteq> alphabet ! d"
      using alphabet_inj [of d 0] alphabet_0 by simp
    with snoc show ?thesis by simp
  qed simp
qed

lemma takeWhile_replicate: "P x \<Longrightarrow> takeWhile P (replicate k x @ ys) = replicate k x @ takeWhile P ys"
  by (induction k) auto

lemma Decode_Encode: "Decode (Encode b) = b"
proof -
  let ?z = "length (takeWhile ((=) 0) b)"
  have "takeWhile ((=) alphabetIdx0) (Encode b) = replicate ?z alphabetIdx0"
    using takeWhile_rev_map_alphabet [of "be_val b"]
    by (simp add: Encode_def takeWhile_replicate)
  moreover have "b58_value (rev (Encode b)) 1 0 = Some (be_val b)"
    by (simp only: Encode_def rev_rev_ident b58_value_encoded)
  ultimately have "Decode (Encode b) = replicate ?z 0 @ dropWhile ((=) 0) b"
    by (simp add: Decode_def be_bytes_be_val)
  then show ?thesis
    by (metis takeWhile_dropWhile_id takeWhile_zero_replicate)
qed

section \<open>Addresses\<close>

text \<open>\<open>Address\<close> is a struct with one string, the payload; \<open>Undef\<close> is the empty one.\<close>

type_synonym addr = bytes

definition Undef :: addr where
  "Undef = []"

text \<open>The signature types of \<open>pkg/crypto/signature.go\<close>.\<close>

definition TypeSecp256k1 :: byte where "TypeSecp256k1 = 0"
definition TypeED25519 :: byte where "TypeED25519 = 1"
definition TypeMutil :: byte where "TypeMutil = 2"
definition TypeUnknown :: byte where "TypeUnknown = 255"

lemmas sigtype_defs = TypeSecp256k1_def TypeED25519_def TypeMutil_def TypeUnknown_def

definition Mainnet :: byte where "Mainnet = 0"
definition Testnet :: byte where "Testnet = 1"

definition prefixSet :: "byte \<Rightarrow> bytes option" where
  "prefixSet n = (if n = Mainnet then Some (str ''Kto'') else if n = Testnet then Some (str ''otK'') else None)"

text \<open>A lookup of a missing key of a Go map gives the zero value, the empty string.\<close>

definition prefixOf :: "byte \<Rightarrow> bytes" where
  "prefixOf n = (case prefixSet n of None \<Rightarrow> [] | Some p \<Rightarrow> p)"

definition Protocol :: "addr \<Rightarrow> byte" where
  "Protocol a =
     (if length a = 0 then TypeUnknown
      else if a ! 0 = TypeSecp256k1 \<and> length a = 21 then TypeSecp256k1
      else if length a = 32 then TypeED25519
      else TypeUnknown)"

definition newAddress :: "byte \<Rightarrow> bytes \<Rightarrow> err + addr" where
  "newAddress protocol payload =
     (if protocol = TypeED25519 then Inr payload
      else if protocol = TypeSecp256k1 then
        Inr (TypeSecp256k1 # take 20 payload @ replicate (20 - length payload) 0)
      else Inl (Err ''unknown address type''))"

definition NewEd25519Addr :: "bytes \<Rightarrow> err + addr" where
  "NewEd25519Addr pubkey =
     (if length pubkey \<noteq> 32 then Inl (Err ''invalid public key'') else newAddress TypeED25519 pubkey)"

definition NewFromBytes :: "bytes \<Rightarrow> err + addr" where
  "NewFromBytes addr =
     (if length addr = 0 then Inr Undef
      else if length addr < 21 then Inl (Err ''invalid address bytes'')
      else Inr addr)"

definition NewFromEthAddr :: "caddr \<Rightarrow> err + addr" where
  "NewFromEthAddr eaddr = newAddress TypeSecp256k1 eaddr"

definition encode :: "byte \<Rightarrow> addr \<Rightarrow> err + bytes" where
  "encode nw addr =
     (if addr = Undef then Inr []
      else case prefixSet nw of
        None \<Rightarrow> Inl (Err ''unknown address network'')
      | Some prefix \<Rightarrow>
          if Protocol addr = TypeSecp256k1 then Inr (prefix @ str ''0'' @ hex_EncodeToString (drop 1 addr))
          else if Protocol addr = TypeED25519 then Inr (prefix @ EncodeAddr addr)
          else Inl (Err ''unknown address protocol''))"

text \<open>\<open>str[0]\<close> of the caller's non-empty string.\<close>

definition parseAddrStrProtocol :: "bytes \<Rightarrow> byte" where
  "parseAddrStrProtocol s =
     (if s ! 0 = 48 \<and> length s = 44 - 3 then TypeSecp256k1
      else if length s = 47 - 3 then TypeED25519
      else TypeUnknown)"

definition decode :: "byte \<Rightarrow> bytes \<Rightarrow> err + addr" where
  "decode nw s =
     (if length s < 44 then Inl (Err ''invalid address string length'')
      else if take 3 s \<noteq> prefixOf nw then Inl (Err ''unknow address network'')
      else if parseAddrStrProtocol (drop 3 s) = TypeSecp256k1
      then bindE (hex_DecodeString (drop 4 s)) (\<lambda>payload. newAddress TypeSecp256k1 payload)
      else if parseAddrStrProtocol (drop 3 s) = TypeED25519
      then bindE (DecodeAddr (drop 3 s)) (\<lambda>payload. newAddress TypeED25519 payload)
      else Inl (Err ''unknow address type''))"

definition Address_String :: "('z) env_scheme \<Rightarrow> addr \<Rightarrow> err + bytes" where
  "Address_String E a = (case encode (network E) a of Inl e \<Rightarrow> Inl (Panic ''encode'') | Inr s \<Rightarrow> Inr s)"

definition NewAddrFromString :: "('z) env_scheme \<Rightarrow> bytes \<Rightarrow> err + addr" where
  "NewAddrFromString E s = decode (network E) s"

definition NewCommonAddr :: "('z) env_scheme \<Rightarrow> addr \<Rightarrow> err + caddr" where
  "NewCommonAddr E a =
     (if a = Undef then Inl (Err ''undef address'')
      else if Protocol a = TypeED25519 then
        bindE (Address_String E a) (\<lambda>s. Inr (HexToAddress E (hex_EncodeToString (sha1 E s))))
      else if Protocol a = TypeSecp256k1 then Inr (BytesToAddress E (drop 1 a))
      else Inl (Err ''unknown address type''))"

definition GenesisAddress :: "byte \<Rightarrow> bytes" where
  "GenesisAddress nw = prefixOf nw @ str ''00000000000000000000000000000000000000000''"

text \<open>
  \<open>SetNetWork\<close> on the lower-cased name: the new network and the genesis address of it.
\<close>

definition to_lower :: "bytes \<Rightarrow> bytes" where
  "to_lower s = map (\<lambda>c. if 65 \<le> c \<and> c \<le> 90 then c + 32 else c) s"

definition SetNetWork :: "bytes \<Rightarrow> byte \<times> bytes" where
  "SetNetWork networkType =
     (let nw = (if to_lower networkType = str ''mainnet'' then Mainnet else Testnet)
      in (nw, GenesisAddress nw))"

definition StringToAddress :: "('z) env_scheme \<Rightarrow> bytes \<Rightarrow> err + addr" where
  "StringToAddress E s =
     (if length s < 4 then Inl (Err ''wrong address'')
      else if take 3 s = str ''Kto'' \<or> take 3 s = str ''otK'' then NewAddrFromString E s
      else if take 2 s = str ''0x'' then NewFromEthAddr (HexToAddress E s)
      else Inl (Err ''Unsupport address type''))"

section \<open>CBOR\<close>

definition Address_MarshalCBOR :: "('z) env_scheme \<Rightarrow> addr \<Rightarrow> bytes" where
  "Address_MarshalCBOR E a = cbg_write E MajByteString (word_of_nat (length a)) @ a"

definition Address_UnmarshalCBOR :: "('z) env_scheme \<Rightarrow> (bytes, addr) M" where
  "Address_UnmarshalCBOR E =
     bindM (cbg_read E) (\<lambda>(maj, extra).
     if maj \<noteq> MajByteString then raiseM (Err ''cbor type for address unmarshal was not byte string'')
     else bindM (ReadFull (unat extra)) (\<lambda>buf.
       bindM (liftE (NewFromBytes buf)) (\<lambda>addr.
       if addr = Undef then raiseM (Err ''cbor input should not contain empty addresses'')
       else retM addr)))"

section \<open>Properties\<close>

text \<open>The addresses a transaction can name: a 32-byte ed25519 key or a tagged 20-byte one.\<close>

definition valid_addr :: "addr \<Rightarrow> bool" where
  "valid_addr a \<longleftrightarrow> Protocol a \<noteq> TypeUnknown"

lemma valid_addr_cases:
  assumes "valid_addr a"
  obtains (ed) "length a = 32" "Protocol a = TypeED25519"
    | (secp) b where "a = TypeSecp256k1 # b" "length b = 20" "Protocol a = TypeSecp256k1"
proof (cases "a ! 0 = TypeSecp256k1 \<and> length a = 21")
  case True
  then show ?thesis
    using secp [of "tl a"] by (cases a) (auto simp: Protocol_def)
next
  case False
  then show ?thesis
    using assms ed by (auto simp: valid_addr_def Protocol_def split: if_splits)
qed

lemma prefixSet_length: "prefixSet nw = Some p \<Longrightarrow> length p = 3"
  by (auto simp: prefixSet_def split: if_splits)

lemma encode_valid:
  assumes "valid_addr a" and "prefixSet nw = Some p"
  shows "\<exists>s. encode nw a = Inr (p @ s) \<and> decode nw (p @ s) = Inr a"
proof -
  have p: "length p = 3" "prefixOf nw = p"
    using assms prefixSet_length by (auto simp: prefixOf_def)
  have ne: "a \<noteq> Undef"
    using assms by (auto simp: valid_addr_def Undef_def Protocol_def)
  from assms(1) show ?thesis
  proof (cases rule: valid_addr_cases)
    case ed
    then have "encode nw a = Inr (p @ EncodeAddr a)"
      using assms ne by (simp add: encode_def sigtype_defs)
    moreover have "decode nw (p @ EncodeAddr a) = Inr a"
      using ed p by (simp add: decode_def parseAddrStrProtocol_def length_EncodeAddr DecodeAddr_EncodeAddr
          monad_simps newAddress_def sigtype_defs)
    ultimately show ?thesis by blast
  next
    case (secp b)
    then have "encode nw a = Inr (p @ 48 # hex_EncodeToString b)"
      using assms ne by (simp add: encode_def sigtype_defs str_def)
    moreover have "decode nw (p @ 48 # hex_EncodeToString b) = Inr a"
      using secp p by (simp add: decode_def parseAddrStrProtocol_def monad_simps newAddress_def sigtype_defs)
    ultimately show ?thesis by blast
  qed
qed

lemma NewCommonAddr_valid: "NewCommonAddr E a = Inr c \<Longrightarrow> valid_addr a"
  by (auto simp: NewCommonAddr_def valid_addr_def sigtype_defs monad_ok split: if_splits)

lemma NewFromBytes_valid: "valid_addr a \<Longrightarrow> NewFromBytes a = Inr a \<and> a \<noteq> Undef"
  by (auto simp: NewFromBytes_def Undef_def elim!: valid_addr_cases)

text \<open>
  The textual form of an address is faithful: on a known network every address with a known
  protocol has a textual form, and decoding that form on the same network gives back the address.
  So no two addresses share a form.
\<close>

theorem address_text_roundtrip:
  assumes "valid_addr a" and "prefixSet nw \<noteq> None"
  shows "\<exists>s. encode nw a = Inr s \<and> decode nw s = Inr a"
  using encode_valid [OF assms(1)] assms(2) by blast

theorem address_text_roundtrip_witness:
  "valid_addr (replicate 32 5) \<and> (\<exists>s. encode Testnet (replicate 32 5) = Inr s \<and> decode Testnet s = Inr (replicate 32 5))"
proof -
  have "valid_addr (replicate 32 5)" "prefixSet Testnet \<noteq> None"
    by code_simp+
  then show ?thesis
    using address_text_roundtrip [of "replicate 32 5" Testnet] by blast
qed

text \<open>
  Base 58 with checksum: decoding an encoded payload returns the payload and its version, for
  every hash function whose digests have at least four bytes; the plain codec is a round trip on
  every byte string, leading zeros included.
\<close>

theorem base58check_roundtrip:
  assumes "\<And>x. 4 \<le> length (sha x)"
  shows "CheckDecode sha (CheckEncode sha input version) = Inr (input, version)"
proof -
  have "length (checksum sha x) = 4" for x
    using assms by (simp add: checksum_def)
  then show ?thesis
    by (simp add: CheckDecode_def CheckEncode_def Decode_Encode Let_def)
qed

theorem base58check_roundtrip_witness:
  "CheckDecode (pad_block 32) (CheckEncode (pad_block 32) [0, 0, 7] 128) = Inr ([0, 0, 7], 128)"
  by (rule base58check_roundtrip) simp

text \<open>
  A base-58 text whose value needs more than 32 bytes makes the address decoder panic: a
  47-character string of the right network whose payload is 44 times \<open>z\<close> crashes it instead of
  returning an error.
\<close>

theorem decode_panics_on_large_payload:
  "decode Testnet (str ''otK'' @ replicate 44 122) = Inl (Panic ''slice bounds out of range'')"
proof -
  have z: "replicate 44 122 = map (\<lambda>d. alphabet ! d) (replicate 44 57)"
    by code_simp
  have "undigits_le 58 (replicate 44 57) + 1 = 58 ^ 44"
    using undigits_replicate [of 58 44] by simp
  moreover have "rev (replicate 44 (122 :: byte)) = map (\<lambda>d. alphabet ! d) (replicate 44 57)"
    by (subst z [symmetric]) (rule rev_replicate)
  moreover have "b58_value (map (\<lambda>d. alphabet ! d) (replicate 44 57)) 1 0 =
      Some (0 + 1 * undigits_le 58 (replicate 44 57))"
    by (rule b58_value_digits) (simp split: if_splits)
  ultimately have v: "b58_value (rev (replicate 44 122)) 1 0 = Some (58 ^ 44 - 1)"
    by (metis add_0 add_diff_cancel_right' mult_1)
  have "\<not> length (be_bytes (58 ^ 44 - 1)) \<le> 32"
  proof
    assume "length (be_bytes (58 ^ 44 - 1)) \<le> 32"
    then have "(256 :: nat) ^ length (be_bytes (58 ^ 44 - 1)) \<le> 256 ^ 32"
      by (intro power_increasing) auto
    moreover have "58 ^ 44 - 1 < (256 :: nat) ^ length (be_bytes (58 ^ 44 - 1))"
      using be_val_lt [of "be_bytes (58 ^ 44 - 1)"] by (simp only: be_val_be_bytes)
    moreover have "(256 :: nat) ^ 32 \<le> 58 ^ 44 - 1"
      by simp
    ultimately show False by linarith
  qed
  then have "DecodeAddr (replicate 44 122) = Inl (Panic ''slice bounds out of range'')"
    using v by (simp add: DecodeAddr_def Let_def del: rev_replicate)
  moreover have "prefixOf Testnet = str ''otK''"
    by code_simp
  ultimately show ?thesis
    by (simp add: decode_def parseAddrStrProtocol_def monad_simps sigtype_defs)
qed

end
