(* ===== verification/Codec.thy ===== *)
theory Codec
  imports Prelude
begin

text \<open>
  The byte codecs of \<open>pkg/storage/miscellaneous/miscellaneous.go\<close> (fixed-width integers in
  little and big endian, length-prefixed slices, the keys of a named map) and the checked
  arithmetic of \<open>pkg/util/math/overflow.go\<close>.
\<close>

section \<open>Endianness\<close>

text \<open>\<open>binary.LittleEndian.PutUintN\<close>: byte \<open>i\<close> is the value shifted right by \<open>8 i\<close>.\<close>

fun le_put :: "nat \<Rightarrow> 'w::len word \<Rightarrow> bytes" where
  "le_put 0 w = []"
| "le_put (Suc n) w = ucast w # le_put n (drop_bit 8 w)"

text \<open>\<open>binary.LittleEndian.UintN\<close>: the bytes shifted into place and joined by bitwise or.\<close>

fun le_get :: "bytes \<Rightarrow> 'w::len word" where
  "le_get [] = 0"
| "le_get (b # bs) = (ucast b OR push_bit 8 (le_get bs))"

lemma length_le_put [simp]: "length (le_put n w) = n"
  by (induction n arbitrary: w) auto

lemma le_get_le_put: "le_get (le_put n w) = take_bit (8 * n) w"
proof (induction n arbitrary: w)
  case 0
  then show ?case by simp
next
  case (Suc n)
  show ?case
    by (rule bit_word_eqI) (auto simp: Suc.IH bit_simps)
qed

lemma le_put_le_get:
  "8 * length bs \<le> LENGTH('w) \<Longrightarrow> le_put (length bs) (le_get bs :: 'w::len word) = bs"
proof (induction bs)
  case Nil
  then show ?case by simp
next
  case (Cons b bs)
  have "ucast (ucast b OR push_bit 8 (le_get bs) :: 'w word) = b"
    using Cons.prems by (intro bit_word_eqI) (auto simp: bit_simps)
  moreover have "drop_bit 8 (ucast b OR push_bit 8 (le_get bs) :: 'w word) = take_bit (LENGTH('w) - 8) (le_get bs)"
    by (rule bit_word_eqI) (auto simp: bit_simps dest: bit_imp_le_length)
  moreover have "take_bit (LENGTH('w) - 8) (le_get bs :: 'w word) = le_get bs"
  proof -
    have "take_bit (8 * length bs) (le_get bs :: 'w word) = le_get bs"
      using Cons le_get_le_put [of "length bs" "le_get bs :: 'w word"] by simp
    moreover have "8 * length bs \<le> LENGTH('w) - 8" using Cons.prems by simp
    ultimately show ?thesis
      by (metis min.absorb2 take_bit_take_bit)
  qed
  ultimately show ?case using Cons by simp
qed

lemma le_put_inj: "LENGTH('w) \<le> 8 * n \<Longrightarrow> le_put n (v :: 'w::len word) = le_put n w \<longleftrightarrow> v = w"
  by (metis le_get_le_put take_bit_word_eq_self)

section \<open>Fixed-width integers\<close>

definition E8func :: "u8 \<Rightarrow> bytes" where
  "E8func a = [a AND 0xFF]"

definition D8func :: "bytes \<Rightarrow> err + u8" where
  "D8func a = (if length a \<noteq> 1 then Inl (Err ''D8func: Illegal slice length'') else Inr (a ! 0))"

definition E16func :: "u16 \<Rightarrow> bytes" where
  "E16func a = le_put 2 a"

definition D16func :: "bytes \<Rightarrow> err + u16" where
  "D16func a = (if length a \<noteq> 2 then Inl (Err ''D16func: Illegal slice length'') else Inr (le_get a))"

definition E32func :: "u32 \<Rightarrow> bytes" where
  "E32func a = le_put 4 a"

definition D32func :: "bytes \<Rightarrow> err + u32" where
  "D32func a = (if length a \<noteq> 4 then Inl (Err ''D32func: Illegal slice length'') else Inr (le_get a))"

definition E64func :: "u64 \<Rightarrow> bytes" where
  "E64func a = le_put 8 a"

definition D64func :: "bytes \<Rightarrow> err + u64" where
  "D64func a = (if length a \<noteq> 8 then Inl (Err ''D64func: Illegal slice length'') else Inr (le_get a))"

definition EB16func :: "u16 \<Rightarrow> bytes" where
  "EB16func a = rev (le_put 2 a)"

definition DB16func :: "bytes \<Rightarrow> err + u16" where
  "DB16func a =
     (if length a \<noteq> 2 then Inl (Err ''DB16func: Illegal slice length'') else Inr (le_get (rev a)))"

definition EB32func :: "u32 \<Rightarrow> bytes" where
  "EB32func a = rev (le_put 4 a)"

definition DB32func :: "bytes \<Rightarrow> err + u32" where
  "DB32func a =
     (if length a \<noteq> 4 then Inl (Err ''DB32func: Illegal slice length'') else Inr (le_get (rev a)))"

definition EB64func :: "u64 \<Rightarrow> bytes" where
  "EB64func a = rev (le_put 8 a)"

definition DB64func :: "bytes \<Rightarrow> err + u64" where
  "DB64func a =
     (if length a \<noteq> 8 then Inl (Err ''DB64func: Illegal slice length'') else Inr (le_get (rev a)))"

lemma D32func_E32func [simp]: "D32func (E32func a) = Inr a"
  by (simp add: D32func_def E32func_def le_get_le_put take_bit_word_eq_self)

lemma D64func_E64func [simp]: "D64func (E64func a) = Inr a"
  by (simp add: D64func_def E64func_def le_get_le_put take_bit_word_eq_self)

lemma DB32func_EB32func [simp]: "DB32func (EB32func a) = Inr a"
  by (simp add: DB32func_def EB32func_def le_get_le_put take_bit_word_eq_self)

lemma E64func_D64func: "D64func bs = Inr a \<Longrightarrow> E64func a = bs"
  using le_put_le_get [of bs, where 'w = 64]
  by (auto simp: D64func_def E64func_def split: if_splits)

lemma length_E32func [simp]: "length (E32func a) = 4"
  by (simp add: E32func_def)

lemma length_E64func [simp]: "length (E64func a) = 8"
  by (simp add: E64func_def)

lemma length_EB32func [simp]: "length (EB32func a) = 4"
  by (simp add: EB32func_def)

lemma E64func_inj [simp]: "E64func a = E64func b \<longleftrightarrow> a = b"
  by (simp add: E64func_def le_put_inj)

lemma E32func_inj [simp]: "E32func a = E32func b \<longleftrightarrow> a = b"
  by (simp add: E32func_def le_put_inj)

section \<open>Length-prefixed slices and map keys\<close>

definition Eslice :: "bytes \<Rightarrow> bytes" where
  "Eslice a = E32func (word_of_nat (length a)) @ a"

definition Dslice :: "bytes \<Rightarrow> err + bytes \<times> bytes" where
  "Dslice dat =
     (if length dat < 4 then Inl (Err ''DecodeSlice: Illegal slice length'')
      else let n = le_get (take 4 dat) :: u32; rest = drop 4 dat
           in if (word_of_nat (length rest) :: u32) < n
              then Inl (Err ''DecodeSlice: Illegal slice length'')
              else Inr (take (unat n) rest, drop (unat n) rest))"

definition EMapKey :: "bytes \<Rightarrow> bytes \<Rightarrow> bytes" where
  "EMapKey m k = str ''m'' @ E32func (word_of_nat (length m)) @ m @ str ''+'' @ k"

section \<open>Checked arithmetic\<close>

fun AddUint64Overflow :: "u64 \<Rightarrow> u64 list \<Rightarrow> err + u64" where
  "AddUint64Overflow a [] = Inr a"
| "AddUint64Overflow a (v # b) =
     (if MAXUINT64 - a < v then Inl (Err ''uint64 add overflow'') else AddUint64Overflow (a + v) b)"

fun SubUint64Overflow :: "u64 \<Rightarrow> u64 list \<Rightarrow> err + u64" where
  "SubUint64Overflow a [] = Inr a"
| "SubUint64Overflow a (v # b) =
     (if a < v then Inl (Err ''uint64 sub overflow'') else SubUint64Overflow (a - v) b)"


section \<open>Properties\<close>

lemma le_get_eq_iff:
  "length bs = n \<Longrightarrow> LENGTH('w) = 8 * n \<Longrightarrow> le_get bs = (a :: 'w::len word) \<longleftrightarrow> bs = le_put n a"
  by (metis le_get_le_put le_put_le_get order_refl take_bit_word_eq_self)

lemmas fixed_codec_defs =
  D16func_def E16func_def D32func_def E32func_def D64func_def E64func_def
  DB16func_def EB16func_def DB32func_def EB32func_def DB64func_def EB64func_def

text \<open>
  The fixed-width integer codecs are bijections between the integers of the width and the
  byte slices of that length, in both byte orders: a decoder accepts a slice with value \<open>a\<close>
  exactly when the slice is the encoding of \<open>a\<close>, so a slice of any other length is refused.
\<close>

theorem fixed_width_codecs_bijective:
  "(D16func x = Inr a16 \<longleftrightarrow> x = E16func a16) \<and> (DB16func x = Inr a16 \<longleftrightarrow> x = EB16func a16) \<and>
   (D32func x = Inr a32 \<longleftrightarrow> x = E32func a32) \<and> (DB32func x = Inr a32 \<longleftrightarrow> x = EB32func a32) \<and>
   (D64func x = Inr a64 \<longleftrightarrow> x = E64func a64) \<and> (DB64func x = Inr a64 \<longleftrightarrow> x = EB64func a64)"
  unfolding fixed_codec_defs
  by (intro conjI) (auto simp: le_get_eq_iff rev_swap)

lemma unat_of_nat_u32 [simp]: "n < 4294967296 \<Longrightarrow> unat (word_of_nat n :: u32) = n"
  by (simp add: unsigned_of_nat take_bit_nat_eq_self_iff)

lemma le_get_E32func [simp]: "le_get (E32func a) = a"
  by (simp add: E32func_def le_get_le_put take_bit_word_eq_self)

text \<open>
  Decoding a length-prefixed slice that is followed by other data returns the slice and
  leaves exactly the data behind it, as long as the lengths fit the 32-bit prefix.
\<close>

theorem Dslice_Eslice:
  assumes "length a + length rest < 2 ^ 32"
  shows "Dslice (Eslice a @ rest) = Inr (a, rest)"
proof -
  have "\<not> (word_of_nat (length a + length rest) :: u32) < word_of_nat (length a)"
    using assms by (simp add: word_less_nat_alt del: of_nat_add)
  then show ?thesis
    using assms by (simp add: Dslice_def Eslice_def Let_def)
qed

theorem Dslice_Eslice_witness:
  "length [1 :: byte, 2] + length [9 :: byte] < 2 ^ 32 \<and>
   Dslice (Eslice [1, 2] @ [9]) = Inr ([1, 2], [9])"
  using Dslice_Eslice [of "[1, 2]" "[9]"] by simp

lemma EMapKey_inj:
  assumes "length m < 2 ^ 32" and "length m' < 2 ^ 32"
  shows "EMapKey m k = EMapKey m' k' \<longleftrightarrow> m = m' \<and> k = k'"
proof
  assume eq: "EMapKey m k = EMapKey m' k'"
  then have "E32func (word_of_nat (length m)) = E32func (word_of_nat (length m'))"
    by (simp add: EMapKey_def append_eq_append_conv)
  then have "(word_of_nat (length m) :: u32) = word_of_nat (length m')"
    by simp
  then have "unat (word_of_nat (length m) :: u32) = unat (word_of_nat (length m') :: u32)"
    by (rule arg_cong)
  with assms have len: "length m = length m'"
    by simp
  with eq show "m = m' \<and> k = k'"
    by (simp add: EMapKey_def)
qed simp

lemma AddUint64Overflow_ok:
  "AddUint64Overflow a vs = Inr r \<longleftrightarrow>
     unat a + sum_list (map unat vs) < 2 ^ 64 \<and> unat r = unat a + sum_list (map unat vs)"
proof (induction vs arbitrary: a)
  case Nil
  then show ?case using unat_lt_u64 [of a] by (auto simp: word_unat_eq_iff)
next
  case (Cons v vs)
  then show ?case
    by (auto simp: MAX_minus_less_iff unat_plus_u64 not_le)
qed

lemma SubUint64Overflow_ok:
  "SubUint64Overflow a vs = Inr r \<longleftrightarrow>
     sum_list (map unat vs) \<le> unat a \<and> unat r = unat a - sum_list (map unat vs)"
proof (induction vs arbitrary: a)
  case Nil
  then show ?case by (auto simp: word_unat_eq_iff)
next
  case (Cons v vs)
  then show ?case
    by (cases "a < v") (auto simp: unat_minus_u64 not_less word_less_nat_alt word_le_nat_alt)
qed

text \<open>
  The checked sum of the transaction pool returns a value exactly when the mathematical sum
  of all operands fits 64 bits, and then that sum; the checked difference returns a value exactly
  when the subtrahends together do not exceed the minuend, and then the exact difference.
\<close>

theorem checked_arithmetic_exact:
  "(AddUint64Overflow a vs = Inr r \<longleftrightarrow>
      unat a + sum_list (map unat vs) < 2 ^ 64 \<and> unat r = unat a + sum_list (map unat vs)) \<and>
   (SubUint64Overflow a vs = Inr r \<longleftrightarrow>
      sum_list (map unat vs) \<le> unat a \<and> unat r = unat a - sum_list (map unat vs))"
  by (simp only: AddUint64Overflow_ok SubUint64Overflow_ok)

end
