(* ===== verification/Txn.thy ===== *)
theory Txn
  imports Address Codec
begin

text \<open>
  Signatures (\<open>pkg/crypto/signature.go\<close>) and the three layers of a transaction
  (\<open>pkg/transaction\<close>): the unsigned one, the signed one and the finished one a block holds, with
  their hashes and their CBOR codecs. A decoder runs on the rest of the input and leaves what it
  did not read.
\<close>

section \<open>Signatures\<close>

record Signature =
  SigType :: byte
  Data :: bytes

definition Signature_MarshalCBOR :: "('z) env_scheme \<Rightarrow> Signature \<Rightarrow> bytes" where
  "Signature_MarshalCBOR E s =
     cbg_write E MajByteString (word_of_nat (length (Data s) + 1)) @ [SigType s] @ Data s"

definition Signature_UnmarshalCBOR :: "('z) env_scheme \<Rightarrow> (bytes, Signature) M" where
  "Signature_UnmarshalCBOR E =
     bindM (cbg_read E) (\<lambda>(maj, l).
     thenM (failIf (maj \<noteq> MajByteString) (Err ''not byte string''))
     (thenM (failIf (130 + 1 < l) (Err ''string too long''))
     (thenM (failIf (l = 0) (Err ''string is empty''))
     (bindM (ReadFull (unat l)) (\<lambda>buf.
       if buf ! 0 \<in> {TypeED25519, TypeSecp256k1, TypeMutil}
       then retM \<lparr>SigType = buf ! 0, Data = drop 1 buf\<rparr>
       else raiseM (Err ''unkown signature type''))))))"

section \<open>Transactions\<close>

definition TransferTransaction :: u8 where "TransferTransaction = 0"
definition CoinBaseTransaction :: u8 where "CoinBaseTransaction = 1"
definition LockTransaction :: u8 where "LockTransaction = 2"
definition UnlockTransaction :: u8 where "UnlockTransaction = 3"
definition MortgageTransaction :: u8 where "MortgageTransaction = 4"
definition BindingAddressTransaction :: u8 where "BindingAddressTransaction = 5"
definition EvmContractTransaction :: u8 where "EvmContractTransaction = 6"
definition PledgeTrasnaction :: u8 where "PledgeTrasnaction = 7"
definition EvmKtoTransaction :: u8 where "EvmKtoTransaction = 8"
definition IsTokenTransaction_ty :: u8 where "IsTokenTransaction_ty = 9"
definition PledgeBreakTransaction :: u8 where "PledgeBreakTransaction = 10"
definition WithdrawToEthTransaction :: u8 where "WithdrawToEthTransaction = 11"

lemmas txtype_defs =
  TransferTransaction_def CoinBaseTransaction_def LockTransaction_def UnlockTransaction_def
  MortgageTransaction_def BindingAddressTransaction_def EvmContractTransaction_def
  PledgeTrasnaction_def EvmKtoTransaction_def IsTokenTransaction_ty_def
  PledgeBreakTransaction_def WithdrawToEthTransaction_def

record Transaction =
  Version :: u64
  Type :: u8
  From :: addr
  To :: addr
  Amount :: u64
  Nonce :: u64
  GasLimit :: u64
  GasFeeCap :: u64
  GasPrice :: u64
  Input :: bytes

text \<open>\<open>SignedTransaction\<close> and \<open>FinishedTransaction\<close> embed the layer below.\<close>

record SignedTransaction = Transaction +
  Sig :: Signature

record FinishedTransaction = SignedTransaction +
  GasUsed :: u64
  BlockNum :: u64

definition IsTransferTrasnaction :: "'z Transaction_scheme \<Rightarrow> bool" where
  "IsTransferTrasnaction tx \<longleftrightarrow> Type tx = TransferTransaction"
definition IsLockTransaction :: "'z Transaction_scheme \<Rightarrow> bool" where
  "IsLockTransaction tx \<longleftrightarrow> Type tx = LockTransaction"
definition IsUnlockTransaction :: "'z Transaction_scheme \<Rightarrow> bool" where
  "IsUnlockTransaction tx \<longleftrightarrow> Type tx = UnlockTransaction"
definition IsCoinBaseTransaction :: "'z Transaction_scheme \<Rightarrow> bool" where
  "IsCoinBaseTransaction tx \<longleftrightarrow> Type tx = CoinBaseTransaction"
definition IsTokenTransaction :: "'z Transaction_scheme \<Rightarrow> bool" where
  "IsTokenTransaction tx \<longleftrightarrow> Type tx = IsTokenTransaction_ty"
definition IsEvmContractTransaction :: "'z Transaction_scheme \<Rightarrow> bool" where
  "IsEvmContractTransaction tx \<longleftrightarrow> Type tx = EvmContractTransaction"
definition IsPledgeTrasnaction :: "'z Transaction_scheme \<Rightarrow> bool" where
  "IsPledgeTrasnaction tx \<longleftrightarrow> Type tx = PledgeTrasnaction"
definition IsPledgeBreakTransaction :: "'z Transaction_scheme \<Rightarrow> bool" where
  "IsPledgeBreakTransaction tx \<longleftrightarrow> Type tx = PledgeBreakTransaction"

lemmas is_tx_defs =
  IsTransferTrasnaction_def IsLockTransaction_def IsUnlockTransaction_def IsCoinBaseTransaction_def
  IsTokenTransaction_def IsEvmContractTransaction_def IsPledgeTrasnaction_def IsPledgeBreakTransaction_def

definition GasCap :: "'z Transaction_scheme \<Rightarrow> u64" where
  "GasCap t = GasLimit t * GasPrice t"

text \<open>The bytes that \<open>Transaction.Hash\<close> hashes.\<close>

definition tx_preimage :: "'z Transaction_scheme \<Rightarrow> bytes" where
  "tx_preimage t =
     From t @ To t @ E64func (Version t) @ E64func (Amount t) @ E64func (Nonce t) @
     E64func (GasLimit t) @ E64func (GasPrice t) @ E64func (GasFeeCap t)"

definition Transaction_Hash :: "('z) env_scheme \<Rightarrow> 'y Transaction_scheme \<Rightarrow> bytes" where
  "Transaction_Hash E t = sha256 E (tx_preimage t)"

definition Transaction_MarshalCBOR :: "('z) env_scheme \<Rightarrow> 'y Transaction_scheme \<Rightarrow> bytes" where
  "Transaction_MarshalCBOR E t =
     cbg_write E MajUnsignedInt (Version t) @
     cbg_write E MajByteString 1 @ [Type t] @
     Address_MarshalCBOR E (From t) @
     Address_MarshalCBOR E (To t) @
     cbg_write E MajUnsignedInt (Amount t) @
     cbg_write E MajUnsignedInt (Nonce t) @
     cbg_write E MajUnsignedInt (GasFeeCap t) @
     cbg_write E MajUnsignedInt (GasLimit t) @
     cbg_write E MajUnsignedInt (GasPrice t) @
     cbg_write E MajByteString (word_of_nat (length (Input t))) @ Input t"

definition SignHash :: "('z) env_scheme \<Rightarrow> 'y Transaction_scheme \<Rightarrow> bytes" where
  "SignHash E t = sha256 E (Transaction_MarshalCBOR E t)"

text \<open>An unsigned field: the header must have the major type of an unsigned integer.\<close>

definition read_uint_field :: "('z) env_scheme \<Rightarrow> string \<Rightarrow> (bytes, u64) M" where
  "read_uint_field E msg =
     bindM (cbg_read E) (\<lambda>(maj, extra).
     if maj \<noteq> MajUnsignedInt then raiseM (Err msg) else retM extra)"

definition Transaction_UnmarshalCBOR :: "('z) env_scheme \<Rightarrow> (bytes, Transaction) M" where
  "Transaction_UnmarshalCBOR E =
     bindM (read_uint_field E ''wrong type for uint64 field for Version '') (\<lambda>version.
     bindM (cbg_read E) (\<lambda>(maj, extra).
     thenM (failIf (maj \<noteq> MajByteString) (Err ''expected byte array''))
     (thenM (failIf (extra \<noteq> 1) (Err ''t.Type: byte array length is wrong''))
     (bindM (ReadFull 1) (\<lambda>typeBytes.
     bindM (Address_UnmarshalCBOR E) (\<lambda>from.
     bindM (Address_UnmarshalCBOR E) (\<lambda>to.
     bindM (read_uint_field E ''wrong type for uint64 field for Amount'') (\<lambda>amount.
     bindM (read_uint_field E ''wrong type for uint64 field for Nonce'') (\<lambda>nonce.
     bindM (read_uint_field E ''wrong type for uint64 field for gas'') (\<lambda>gasFeeCap.
     bindM (read_uint_field E ''wrong type for uint64 field for gaslimit'') (\<lambda>gasLimit.
     bindM (read_uint_field E ''wrong type for uint64 field for  price'') (\<lambda>gasPrice.
     bindM (cbg_read E) (\<lambda>(maj, extra).
     thenM (failIf (ByteArrayMaxLen < extra) (Err ''t.Input: byte array too large''))
     (thenM (failIf (maj \<noteq> MajByteString) (Err ''expected byte array''))
     (bindM (ReadFull (unat extra)) (\<lambda>input.
     retM \<lparr>Version = version, Type = typeBytes ! 0, From = from, To = to, Amount = amount,
           Nonce = nonce, GasLimit = gasLimit, GasFeeCap = gasFeeCap, GasPrice = gasPrice,
           Input = input\<rparr>))))))))))))))))"

definition DeserializeTransaction :: "('z) env_scheme \<Rightarrow> bytes \<Rightarrow> err + Transaction" where
  "DeserializeTransaction E dat = fst (Transaction_UnmarshalCBOR E dat)"

section \<open>Signed and finished transactions\<close>

definition SignedTransaction_MarshalCBOR :: "('z) env_scheme \<Rightarrow> 'y SignedTransaction_scheme \<Rightarrow> bytes" where
  "SignedTransaction_MarshalCBOR E st =
     [130] @ Transaction_MarshalCBOR E st @ Signature_MarshalCBOR E (Sig st)"

text \<open>The header of an array with two elements.\<close>

definition read_pair_header :: "('z) env_scheme \<Rightarrow> (bytes, unit) M" where
  "read_pair_header E =
     bindM (cbg_read E) (\<lambda>(maj, extra).
     thenM (failIf (maj \<noteq> MajArray) (Err ''cbor input should be of type array''))
           (failIf (extra \<noteq> 2) (Err ''cbor input had wrong number of fields'')))"

definition SignedTransaction_UnmarshalCBOR :: "('z) env_scheme \<Rightarrow> (bytes, SignedTransaction) M" where
  "SignedTransaction_UnmarshalCBOR E =
     thenM (read_pair_header E)
     (bindM (Transaction_UnmarshalCBOR E) (\<lambda>t.
      bindM (Signature_UnmarshalCBOR E) (\<lambda>s.
      retM (Transaction.extend t (SignedTransaction.fields s)))))"

definition DeserializeSignaturedTransaction :: "('z) env_scheme \<Rightarrow> bytes \<Rightarrow> err + SignedTransaction" where
  "DeserializeSignaturedTransaction E dat = fst (SignedTransaction_UnmarshalCBOR E dat)"

definition FinishedTransaction_MarshalCBOR :: "('z) env_scheme \<Rightarrow> FinishedTransaction \<Rightarrow> bytes" where
  "FinishedTransaction_MarshalCBOR E ft =
     [130] @ SignedTransaction_MarshalCBOR E ft @
     cbg_write E MajUnsignedInt (GasUsed ft) @ cbg_write E MajUnsignedInt (BlockNum ft)"

definition FinishedTransaction_UnmarshalCBOR :: "('z) env_scheme \<Rightarrow> (bytes, FinishedTransaction) M" where
  "FinishedTransaction_UnmarshalCBOR E =
     thenM (read_pair_header E)
     (bindM (SignedTransaction_UnmarshalCBOR E) (\<lambda>st.
      bindM (read_uint_field E ''wrong type for uint64 field'') (\<lambda>gasUsed.
      bindM (read_uint_field E ''wrong type for uint64 field'') (\<lambda>blockNum.
      retM (SignedTransaction.extend st (FinishedTransaction.fields gasUsed blockNum))))))"

definition DeserializeFinishedTransaction :: "('z) env_scheme \<Rightarrow> bytes \<Rightarrow> err + FinishedTransaction" where
  "DeserializeFinishedTransaction E dat = fst (FinishedTransaction_UnmarshalCBOR E dat)"

section \<open>Round trips\<close>

text \<open>
  What a transaction on the wire satisfies: its addresses have a known protocol, the input and the
  signature are within the limits of their decoders, and the signature type is known.
\<close>

definition tx_wf :: "'z Transaction_scheme \<Rightarrow> bool" where
  "tx_wf t \<longleftrightarrow> valid_addr (From t) \<and> valid_addr (To t) \<and> length (Input t) \<le> 2097152"

definition sig_wf :: "Signature \<Rightarrow> bool" where
  "sig_wf s \<longleftrightarrow> SigType s \<in> {TypeED25519, TypeSecp256k1, TypeMutil} \<and> length (Data s) \<le> 130"

lemma unat_of_nat_u64: "n < 18446744073709551616 \<Longrightarrow> unat (word_of_nat n :: u64) = n"
  by (simp add: unsigned_of_nat take_bit_nat_eq_self_iff)

context cbor
begin

lemma address_rt [monad_simps]:
  assumes "valid_addr a"
  shows "Address_UnmarshalCBOR E (Address_MarshalCBOR E a @ r) = (Inr a, r)"
proof -
  have "length a < 18446744073709551616"
    using assms by (auto elim!: valid_addr_cases)
  then show ?thesis
    using NewFromBytes_valid [OF assms]
    by (simp add: Address_UnmarshalCBOR_def Address_MarshalCBOR_def monad_simps unat_of_nat_u64)
qed

lemma uint_field_rt [monad_simps]:
  "read_uint_field E msg (cbg_write E MajUnsignedInt n @ r) = (Inr n, r)"
  by (simp add: read_uint_field_def monad_simps)

lemma uint_field_rt_end [monad_simps]:
  "read_uint_field E msg (cbg_write E MajUnsignedInt n) = (Inr n, [])"
  using uint_field_rt [of msg n "[]"] by simp

lemma pair_header_rt [monad_simps]: "read_pair_header E (130 # r) = (Inr (), r)"
  by (simp add: read_pair_header_def monad_simps)

lemma signature_rt [monad_simps]:
  assumes "sig_wf s"
  shows "Signature_UnmarshalCBOR E (Signature_MarshalCBOR E s @ r) = (Inr s, r)"
proof -
  have len: "length (Data s) < 131" using assms by (simp add: sig_wf_def)
  then have l: "unat (word_of_nat (length (Data s) + 1) :: u64) = length (Data s) + 1"
    by (simp add: unat_of_nat_u64 del: of_nat_add of_nat_Suc)
  have rf: "ReadFull (length (Data s) + 1) (SigType s # Data s @ r) = (Inr (SigType s # Data s), r)"
    by (simp add: ReadFull_def)
  have "\<not> (131 :: u64) < word_of_nat (length (Data s) + 1)" "(word_of_nat (length (Data s) + 1) :: u64) \<noteq> 0"
    using l len by (auto simp: word_less_nat_alt simp del: of_nat_add of_nat_Suc)
  with l rf assms show ?thesis
    by (simp add: Signature_UnmarshalCBOR_def Signature_MarshalCBOR_def monad_simps sig_wf_def
        del: of_nat_add of_nat_Suc)
qed

lemma transaction_rt [monad_simps]:
  assumes "tx_wf t"
  shows "Transaction_UnmarshalCBOR E (Transaction_MarshalCBOR E t @ r) = (Inr (Transaction.truncate t), r)"
proof -
  have in_len: "unat (word_of_nat (length (Input t)) :: u64) = length (Input t)"
    "\<not> ByteArrayMaxLen < word_of_nat (length (Input t))"
    using assms by (simp_all add: tx_wf_def ByteArrayMaxLen_def word_less_nat_alt unat_of_nat_u64)
  have "ReadFull 1 (Type t # x) = (Inr [Type t], x)" for x
    by (simp add: ReadFull_def)
  with in_len assms show ?thesis
    by (simp add: Transaction_UnmarshalCBOR_def Transaction_MarshalCBOR_def monad_simps tx_wf_def
        Transaction.truncate_def)
qed

lemma signed_rt [monad_simps]:
  assumes "tx_wf t" and "sig_wf (Sig t)"
  shows "SignedTransaction_UnmarshalCBOR E (SignedTransaction_MarshalCBOR E t @ r) =
    (Inr (SignedTransaction.truncate t), r)"
  using assms
  by (simp add: SignedTransaction_UnmarshalCBOR_def SignedTransaction_MarshalCBOR_def monad_simps
      SignedTransaction.truncate_def Transaction.truncate_def Transaction.extend_def
      SignedTransaction.fields_def SignedTransaction.defs Transaction.defs)

lemma finished_rt [monad_simps]:
  assumes "tx_wf t" and "sig_wf (Sig t)"
  shows "FinishedTransaction_UnmarshalCBOR E (FinishedTransaction_MarshalCBOR E t @ r) = (Inr t, r)"
  using assms
  by (simp add: FinishedTransaction_UnmarshalCBOR_def FinishedTransaction_MarshalCBOR_def monad_simps
      SignedTransaction.truncate_def SignedTransaction.extend_def FinishedTransaction.fields_def)

end

section \<open>Properties\<close>

text \<open>
  A finished transaction survives the wire: for every header codec that meets CBOR's contract
  and every well-formed transaction, decoding the encoding gives back all of it, the signature,
  the gas used and the block number included.
\<close>

theorem finished_transaction_roundtrip:
  assumes "cbor E" and "tx_wf t" and "sig_wf (Sig t)"
  shows "DeserializeFinishedTransaction E (FinishedTransaction_MarshalCBOR E t) = Inr t"
  using cbor.finished_rt [OF assms, of "[]"] by (simp add: DeserializeFinishedTransaction_def)

definition demo_tx :: FinishedTransaction where
  "demo_tx = \<lparr>Version = 1, Type = TransferTransaction, From = 0 # replicate 20 1, To = replicate 32 2,
     Amount = 500, Nonce = 1, GasLimit = 1500, GasFeeCap = 0, GasPrice = 1400, Input = [7, 7],
     Sig = \<lparr>SigType = TypeSecp256k1, Data = [1, 2, 3]\<rparr>, GasUsed = 2100000, BlockNum = 9\<rparr>"

theorem finished_transaction_roundtrip_witness:
  "cbor demo_env \<and> tx_wf demo_tx \<and>
   DeserializeFinishedTransaction demo_env (FinishedTransaction_MarshalCBOR demo_env demo_tx) = Inr demo_tx"
proof -
  have "tx_wf demo_tx" "sig_wf (Sig demo_tx)"
    by (simp_all add: tx_wf_def sig_wf_def demo_tx_def valid_addr_def Protocol_def sigtype_defs)
  then show ?thesis
    using finished_transaction_roundtrip [OF demo.cbor_axioms] demo.cbor_axioms by blast
qed

text \<open>
  What the transaction hash commits to: two transactions with the same preimage, whose senders
  have addresses of the same length, agree in sender, receiver, version, amount, nonce and all gas
  fields.
\<close>

theorem tx_preimage_binds_fields:
  assumes "tx_preimage t = tx_preimage t'" and "length (From t) = length (From t')"
  shows "From t = From t' \<and> To t = To t' \<and> Version t = Version t' \<and> Amount t = Amount t' \<and>
    Nonce t = Nonce t' \<and> GasLimit t = GasLimit t' \<and> GasPrice t = GasPrice t' \<and> GasFeeCap t = GasFeeCap t'"
proof -
  have "length (tx_preimage t) = length (tx_preimage t')"
    using assms(1) by simp
  then have "length (To t) = length (To t')"
    using assms(2) by (simp add: tx_preimage_def)
  then show ?thesis
    using assms by (simp add: tx_preimage_def)
qed

theorem tx_preimage_binds_fields_witness:
  "tx_preimage demo_tx = tx_preimage (demo_tx\<lparr>Input := []\<rparr>) \<and> Amount demo_tx = Amount (demo_tx\<lparr>Input := []\<rparr>)"
proof -
  have "tx_preimage demo_tx = tx_preimage (demo_tx\<lparr>Input := []\<rparr>)"
    by (simp add: tx_preimage_def)
  then show ?thesis
    using tx_preimage_binds_fields [of demo_tx "demo_tx\<lparr>Input := []\<rparr>"] by simp
qed

text \<open>
  What it does not commit to: for every hash function, changing the type or the input of a
  transaction leaves its hash as it is, and there are two transactions between well-formed
  addresses with different senders and the same hash, because the variable-length addresses are
  joined without a separator.
\<close>

theorem tx_hash_is_not_binding:
  "Transaction_Hash E (t\<lparr>Type := ty, Input := inp\<rparr>) = Transaction_Hash E t \<and>
   (\<exists>(t1 :: Transaction) (t2 :: Transaction). tx_wf t1 \<and> tx_wf t2 \<and> From t1 \<noteq> From t2 \<and> To t1 \<noteq> To t2 \<and>
      Transaction_Hash E t1 = Transaction_Hash E t2)"
proof -
  let ?t = "\<lambda>m n. \<lparr>Version = 0, Type = TransferTransaction, From = replicate m 0, To = replicate n 0,
     Amount = 0, Nonce = 0, GasLimit = 0, GasFeeCap = 0, GasPrice = 0, Input = []\<rparr> :: Transaction"
  have "replicate 32 0 @ replicate 21 (0 :: byte) = replicate 21 0 @ replicate 32 0"
    by (simp add: replicate_add [symmetric])
  then have swap: "replicate 32 0 @ replicate 21 (0 :: byte) @ x = replicate 21 0 @ replicate 32 0 @ x" for x
    by (metis append.assoc)
  have "tx_preimage (?t 32 21) = tx_preimage (?t 21 32)"
    unfolding tx_preimage_def Transaction.select_convs by (rule swap)
  then have "Transaction_Hash E (?t 32 21) = Transaction_Hash E (?t 21 32)"
    by (simp only: Transaction_Hash_def)
  moreover have "tx_wf (?t 32 21)" "tx_wf (?t 21 32)"
    by (simp_all add: tx_wf_def valid_addr_def Protocol_def sigtype_defs)
  moreover have "replicate 32 (0 :: byte) \<noteq> replicate 21 0"
    by (metis length_replicate numeral_eq_iff semiring_norm(85,87,88,89))
  ultimately have "\<exists>(t1 :: Transaction) (t2 :: Transaction). tx_wf t1 \<and> tx_wf t2 \<and> From t1 \<noteq> From t2 \<and> To t1 \<noteq> To t2 \<and>
      Transaction_Hash E t1 = Transaction_Hash E t2"
    by - (rule exI [of _ "?t 32 21"], rule exI [of _ "?t 21 32"], simp)
  then show ?thesis
    by (simp add: Transaction_Hash_def tx_preimage_def)
qed

end
