(* ===== verification/Blocks.thy ===== *)
theory Blocks
  imports Txn
begin

text \<open>
  Blocks: the record, the CBOR codec, the block hash and the hash the miners work on, from
  \<open>pkg/block/types.go\<close>.
\<close>

text \<open>
  A \<open>*big.Int\<close> field may be nil. The fields whose names a transaction has too carry the prefix
  \<open>b_\<close>.
\<close>

record Block =
  Height :: u64
  PrevHash :: bytes
  Hash :: bytes
  Transactions :: "FinishedTransaction list"
  Root :: bytes
  SnapRoot :: bytes
  b_Version :: u64
  Timestamp :: u64
  UsedTime :: u64
  Miner :: addr
  Difficulty :: "int option"
  GlobalDifficulty :: "int option"
  b_Nonce :: u64
  b_GasLimit :: u64
  b_GasUsed :: u64

section \<open>CBOR\<close>

text \<open>A byte string read with \<open>Read\<close>, and an unsigned integer.\<close>

definition read_bytes_field :: "('z) env_scheme \<Rightarrow> (bytes, bytes) M" where
  "read_bytes_field E =
     bindM (cbg_read E) (\<lambda>(maj, val).
     if maj \<noteq> MajByteString then raiseM (Err ''expected byte array'')
     else Buffer_Read (unat val))"

definition Block_UnmarshalCBOR :: "('z) env_scheme \<Rightarrow> (bytes, Block) M" where
  "Block_UnmarshalCBOR E =
     bindM (read_uint_field E ''wrong type for uint64 field for height'') (\<lambda>height.
     bindM (read_bytes_field E) (\<lambda>prevHash.
     bindM (read_bytes_field E) (\<lambda>hash.
     bindM (read_uint_field E ''wrong type for uint64 field for transactions(len)'') (\<lambda>val.
     bindM (readN (unat val) (FinishedTransaction_UnmarshalCBOR E)) (\<lambda>txs.
     bindM (read_bytes_field E) (\<lambda>root.
     bindM (read_bytes_field E) (\<lambda>snapRoot.
     bindM (read_uint_field E ''wrong type for uint64 field for version'') (\<lambda>version.
     bindM (read_uint_field E ''wrong type for uint64 field for  Timestamp'') (\<lambda>timestamp.
     bindM (read_uint_field E ''wrong type for uint64 field for  UsedTime'') (\<lambda>usedTime.
     bindM (Address_UnmarshalCBOR E) (\<lambda>miner.
     bindM (read_bytes_field E) (\<lambda>difficulty.
     bindM (read_bytes_field E) (\<lambda>globalDifficulty.
     bindM (read_uint_field E ''wrong type for uint64 field for nonce'') (\<lambda>nonce.
     bindM (read_uint_field E ''wrong type for uint64 field for gaslimit'') (\<lambda>gasLimit.
     bindM (read_uint_field E ''wrong type for uint64 field for  gaslimit'') (\<lambda>gasUsed.
     retM \<lparr>Height = height, PrevHash = prevHash, Hash = hash, Transactions = txs, Root = root,
           SnapRoot = snapRoot, b_Version = version, Timestamp = timestamp, UsedTime = usedTime,
           Miner = miner, Difficulty = Some (int (be_val difficulty)),
           GlobalDifficulty = Some (int (be_val globalDifficulty)), b_Nonce = nonce,
           b_GasLimit = gasLimit, b_GasUsed = gasUsed\<rparr>))))))))))))))))"

text \<open>A header and the bytes; \<open>big.Int.Bytes\<close> is the absolute value.\<close>

definition write_bytes_field :: "('z) env_scheme \<Rightarrow> bytes \<Rightarrow> bytes" where
  "write_bytes_field E bs = cbg_write E MajByteString (word_of_nat (length bs)) @ bs"

definition big_Bytes :: "int \<Rightarrow> bytes" where
  "big_Bytes n = be_bytes (nat \<bar>n\<bar>)"

definition Block_MarshalCBOR :: "('z) env_scheme \<Rightarrow> Block \<Rightarrow> err + bytes" where
  "Block_MarshalCBOR E b =
     (case Difficulty b of None \<Rightarrow> Inl (Err ''difficulty cannot be nil'') | Some d \<Rightarrow>
      case GlobalDifficulty b of None \<Rightarrow> Inl (Err ''global difficulty cannot be nil'') | Some gd \<Rightarrow>
      Inr (cbg_write E MajUnsignedInt (Height b) @
           write_bytes_field E (PrevHash b) @
           write_bytes_field E (Hash b) @
           cbg_write E MajUnsignedInt (word_of_nat (length (Transactions b))) @
           concat (map (FinishedTransaction_MarshalCBOR E) (Transactions b)) @
           write_bytes_field E (Root b) @
           write_bytes_field E (SnapRoot b) @
           cbg_write E MajUnsignedInt (b_Version b) @
           cbg_write E MajUnsignedInt (Timestamp b) @
           cbg_write E MajUnsignedInt (UsedTime b) @
           Address_MarshalCBOR E (Miner b) @
           write_bytes_field E (big_Bytes d) @
           write_bytes_field E (big_Bytes gd) @
           cbg_write E MajUnsignedInt (b_Nonce b) @
           cbg_write E MajUnsignedInt (b_GasLimit b) @
           cbg_write E MajUnsignedInt (b_GasUsed b)))"

definition Serialize :: "('z) env_scheme \<Rightarrow> Block \<Rightarrow> err + bytes" where
  "Serialize E b = Block_MarshalCBOR E b"

definition Deserialize :: "('z) env_scheme \<Rightarrow> bytes \<Rightarrow> err + Block" where
  "Deserialize E dat = fst (Block_UnmarshalCBOR E dat)"

section \<open>Hashes\<close>

definition SetHash :: "('z) env_scheme \<Rightarrow> (Block, unit) M" where
  "SetHash E = (\<lambda>b. case Serialize E b of Inl e \<Rightarrow> (Inl e, b)
                   | Inr dat \<Rightarrow> (Inr (), b\<lparr>Hash := sha3_256 E dat\<rparr>))"

text \<open>The bytes the miners hash: no transaction input, no snapshot root, no difficulty.\<close>

definition miner_preimage :: "('z) env_scheme \<Rightarrow> Block \<Rightarrow> bytes" where
  "miner_preimage E b =
     E64func (Height b) @ PrevHash b @
     concat (map (\<lambda>ft. SignedTransaction_MarshalCBOR E (ft\<lparr>Input := []\<rparr>)) (Transactions b)) @
     E64func (Timestamp b) @ E64func (b_Nonce b) @ Root b"

definition MinerHash :: "('z) env_scheme \<Rightarrow> Block \<Rightarrow> bytes" where
  "MinerHash E b = sha3_256 E (miner_preimage E b)"

section \<open>Round trip\<close>

definition block_wf :: "Block \<Rightarrow> bool" where
  "block_wf b \<longleftrightarrow>
     (\<forall>t \<in> set (Transactions b). tx_wf t \<and> sig_wf (Sig t)) \<and> valid_addr (Miner b) \<and>
     (\<exists>d gd. Difficulty b = Some d \<and> GlobalDifficulty b = Some gd \<and> 0 \<le> d \<and> 0 \<le> gd \<and>
        length (big_Bytes d) < 2 ^ 64 \<and> length (big_Bytes gd) < 2 ^ 64) \<and>
     length (Transactions b) < 2 ^ 64 \<and>
     (\<forall>x \<in> {PrevHash b, Hash b, Root b, SnapRoot b}. length x < 2 ^ 64)"

context cbor
begin

lemma bytes_field_rt [monad_simps]:
  "length bs < 2 ^ 64 \<Longrightarrow> read_bytes_field E (write_bytes_field E bs @ r) = (Inr bs, r)"
  by (simp add: read_bytes_field_def write_bytes_field_def monad_simps unat_of_nat_u64)

lemma txs_rt [monad_simps]:
  "\<forall>t \<in> set ts. tx_wf t \<and> sig_wf (Sig t) \<Longrightarrow>
   readN (length ts) (FinishedTransaction_UnmarshalCBOR E)
     (concat (map (FinishedTransaction_MarshalCBOR E) ts) @ r) = (Inr ts, r)"
  by (rule readN_concat) (simp add: finished_rt)

lemma block_rt:
  assumes "block_wf b"
  shows "\<exists>dat. Serialize E b = Inr dat \<and> Deserialize E dat = Inr b"
proof -
  from assms obtain d gd where d: "Difficulty b = Some d" "GlobalDifficulty b = Some gd" "0 \<le> d" "0 \<le> gd"
      "length (big_Bytes d) < 2 ^ 64" "length (big_Bytes gd) < 2 ^ 64"
    by (auto simp: block_wf_def)
  then have val: "int (be_val (big_Bytes d)) = d" "int (be_val (big_Bytes gd)) = gd"
    by (simp_all add: big_Bytes_def be_val_be_bytes)
  have n: "unat (word_of_nat (length (Transactions b)) :: u64) = length (Transactions b)"
    using assms by (simp add: block_wf_def unat_of_nat_u64)
  show ?thesis
    using assms d val n
    by (simp add: Serialize_def Deserialize_def Block_MarshalCBOR_def Block_UnmarshalCBOR_def monad_simps
        block_wf_def)
qed

end

section \<open>Properties\<close>

text \<open>
  C30. Stored blocks are read back: every well-formed block can be serialised, and deserialising the
  result returns the block with its transactions, difficulties and roots. The database keeps blocks
  in this form.
\<close>

theorem block_roundtrip:
  assumes "cbor E" and "block_wf b"
  shows "\<exists>dat. Serialize E b = Inr dat \<and> Deserialize E dat = Inr b"
  using cbor.block_rt [OF assms] .

definition demo_block :: Block where
  "demo_block = \<lparr>Height = 60350423, PrevHash = replicate 32 0, Hash = replicate 32 1, Transactions = [demo_tx],
     Root = replicate 32 3, SnapRoot = replicate 32 4, b_Version = 1, Timestamp = 100, UsedTime = 5,
     Miner = 0 # replicate 20 9, Difficulty = Some 1000, GlobalDifficulty = Some 0, b_Nonce = 7,
     b_GasLimit = 10000000, b_GasUsed = 0\<rparr>"

lemma length_big_Bytes: "nat \<bar>n\<bar> < 256 ^ k \<Longrightarrow> length (big_Bytes n) \<le> k"
  by (simp add: big_Bytes_def length_be_bytes_le)

theorem block_roundtrip_witness:
  "block_wf demo_block \<and> (\<exists>dat. Serialize demo_env demo_block = Inr dat \<and> Deserialize demo_env dat = Inr demo_block)"
proof -
  have "length (big_Bytes 1000) \<le> 2" "length (big_Bytes 0) \<le> 2"
    by (rule length_big_Bytes; simp)+
  then have "block_wf demo_block"
    by (simp add: block_wf_def demo_block_def tx_wf_def sig_wf_def demo_tx_def valid_addr_def Protocol_def
        sigtype_defs)
  then show ?thesis
    using block_roundtrip [OF demo.cbor_axioms] by blast
qed

text \<open>
  The proof of work does not cover what a block claims about its own difficulty, its miner, its
  snapshot root, its gas or the inputs of its transactions: changing any of them leaves the hash the
  miners work on as it is.
\<close>

theorem miner_hash_ignores_claims:
  "MinerHash E (b\<lparr>Miner := m, Difficulty := d, GlobalDifficulty := gd, SnapRoot := sr, b_GasUsed := g,
      Hash := h, UsedTime := u, Transactions := map (\<lambda>t. t\<lparr>Input := f t\<rparr>) (Transactions b)\<rparr>) = MinerHash E b"
  by (simp add: MinerHash_def miner_preimage_def o_def)

end
