(* ===== verification/Store.thy ===== *)
theory Store
  imports Codec "HOL-Library.Sublist" "HOL-Library.AList"
begin

text \<open>
  The key-value store of \<open>pkg/storage/store\<close>: the interface \<open>store.Transaction\<close> (\<open>types.go\<close>)
  and its implementation \<open>pkg/storage/store/bg\<close> on top of the badger database, with the plain
  keys, the named maps and the sets of the interface.

  Badger is a third-party package, so it is a parameter: a record of the operations the code
  calls, together with the contract \<open>badger\<close> that its documentation gives them.
\<close>

section \<open>The badger database\<close>

text \<open>
  \<open>'d\<close> is the committed database, \<open>'t\<close> a transaction on it. \<open>kv_new\<close> is
  \<open>DB.NewTransaction\<close>, \<open>kv_get\<close> is \<open>Txn.Get\<close> followed by \<open>ValueCopy\<close>, \<open>kv_set\<close> and
  \<open>kv_delete\<close> are \<open>Txn.Set\<close> and \<open>Txn.Delete\<close>, \<open>kv_commit\<close> is \<open>Txn.Commit\<close>, and
  \<open>kv_scan t p\<close> lists the items an iterator with prefix \<open>p\<close> visits, in its order.
\<close>

record ('d, 't) kv =
  kv_new :: "'d \<Rightarrow> 't"
  kv_get :: "'t \<Rightarrow> bytes \<Rightarrow> err + bytes"
  kv_set :: "bytes \<Rightarrow> bytes \<Rightarrow> ('t, unit) M"
  kv_delete :: "bytes \<Rightarrow> ('t, unit) M"
  kv_scan :: "'t \<Rightarrow> bytes \<Rightarrow> (bytes \<times> (err + bytes)) list"
  kv_commit :: "'t \<Rightarrow> ('d, unit) M"

text \<open>\<open>badger.ErrKeyNotFound\<close>\<close>

definition ErrKeyNotFound :: err where
  "ErrKeyNotFound = Err ''Key not found''"

text \<open>
  The documented behaviour of badger the code relies on. A transaction reads its own writes; a
  failing write changes nothing; a commit makes exactly the written keys (\<open>pending\<close>) visible and
  fails without effect; an iterator visits each present key with its prefix once.
\<close>

locale badger =
  fixes K :: "('d, 't, 'z) kv_scheme"
    and pending :: "'t \<Rightarrow> bytes set"
  assumes set_ok: "kv_set K k v t = (Inr u, t') \<Longrightarrow>
      kv_get K t' = (kv_get K t)(k := Inr v) \<and> pending t' = insert k (pending t)"
    and set_err: "kv_set K k v t = (Inl e, t') \<Longrightarrow>
      kv_get K t' = kv_get K t \<and> pending t' = pending t"
    and delete_ok: "kv_delete K k t = (Inr u, t') \<Longrightarrow>
      kv_get K t' = (kv_get K t)(k := Inl ErrKeyNotFound) \<and> pending t' = insert k (pending t)"
    and delete_err: "kv_delete K k t = (Inl e, t') \<Longrightarrow>
      kv_get K t' = kv_get K t \<and> pending t' = pending t"
    and new_pending: "pending (kv_new K d) = {}"
    and commit_ok: "kv_commit K t d = (Inr u, d') \<Longrightarrow>
      kv_get K (kv_new K d') k =
        (if k \<in> pending t then kv_get K t k else kv_get K (kv_new K d) k)"
    and commit_err: "kv_commit K t d = (Inl e, d') \<Longrightarrow> kv_get K (kv_new K d') = kv_get K (kv_new K d)"
    and scan_keys: "p \<noteq> [] \<Longrightarrow> set (map fst (kv_scan K t p)) = {k. prefix p k \<and> kv_get K t k \<noteq> Inl ErrKeyNotFound}"
    and scan_values: "(k, r) \<in> set (kv_scan K t p) \<Longrightarrow> r = kv_get K t k"
    and scan_distinct: "distinct (map fst (kv_scan K t p))"

section \<open>Plain keys\<close>

definition bg_del :: "('d, 't, 'z) kv_scheme \<Rightarrow> bytes \<Rightarrow> ('t, unit) M" where
  "bg_del K k = kv_delete K k"

definition bg_set :: "('d, 't, 'z) kv_scheme \<Rightarrow> bytes \<Rightarrow> bytes \<Rightarrow> ('t, unit) M" where
  "bg_set K k v = kv_set K k v"

definition bg_get :: "('d, 't, 'z) kv_scheme \<Rightarrow> 't \<Rightarrow> bytes \<Rightarrow> err + bytes" where
  "bg_get K t k =
     (case kv_get K t k of
        Inl e \<Rightarrow> Inl (if e = ErrKeyNotFound then NotExist else e)
      | Inr v \<Rightarrow> Inr v)"

section \<open>Keys of the composite types\<close>

text \<open>\<open>'m' + mlen + m + '+' + k\<close>\<close>

definition eMapKey :: "bytes \<Rightarrow> bytes \<Rightarrow> bytes" where
  "eMapKey m k = str ''m'' @ E32func (word_of_nat (length m)) @ m @ str ''+'' @ k"

text \<open>
  \<open>buf[5+n:]\<close> is computed with a 32-bit \<open>n\<close>; a slice bound behind the end of the buffer is a
  run-time panic.
\<close>

definition dMapKey :: "bytes \<Rightarrow> err + bytes" where
  "dMapKey buf =
     (let buf1 = drop 1 buf; n = (le_get (take 4 buf1) :: u32)
      in if length buf < 5 \<or> length buf1 < unat (5 + n) then Inl (Panic ''slice bounds out of range'')
         else Inr (drop (unat (5 + n)) buf1))"

text \<open>\<open>'s' + klen + k + '+' + v\<close>\<close>

definition eSetKey :: "bytes \<Rightarrow> bytes \<Rightarrow> bytes" where
  "eSetKey k v = str ''s'' @ E32func (word_of_nat (length k)) @ k @ str ''+'' @ v"

definition dSetKey :: "bytes \<Rightarrow> err + bytes" where
  "dSetKey buf =
     (let buf1 = drop 1 buf; n = (le_get (take 4 buf1) :: u32)
      in if length buf < 5 \<or> length buf1 < unat (5 + n) then Inl (Panic ''slice bounds out of range'')
         else Inr (drop (unat (5 + n)) buf1))"

section \<open>Named maps\<close>

definition bg_mdel :: "('d, 't, 'z) kv_scheme \<Rightarrow> bytes \<Rightarrow> bytes \<Rightarrow> ('t, unit) M" where
  "bg_mdel K m k = bg_del K (eMapKey m k)"

definition bg_mset :: "('d, 't, 'z) kv_scheme \<Rightarrow> bytes \<Rightarrow> bytes \<Rightarrow> bytes \<Rightarrow> ('t, unit) M" where
  "bg_mset K m k v = bg_set K (eMapKey m k) v"

definition bg_mget :: "('d, 't, 'z) kv_scheme \<Rightarrow> 't \<Rightarrow> bytes \<Rightarrow> bytes \<Rightarrow> err + bytes" where
  "bg_mget K t m k = bg_get K t (eMapKey m k)"

text \<open>Deleting every key an iterator visits, stopping at the first error.\<close>

fun bg_del_all :: "('d, 't, 'z) kv_scheme \<Rightarrow> bytes list \<Rightarrow> ('t, unit) M" where
  "bg_del_all K [] = retM ()"
| "bg_del_all K (k # ks) = thenM (bg_del K k) (bg_del_all K ks)"

definition bg_mclear :: "('d, 't, 'z) kv_scheme \<Rightarrow> bytes \<Rightarrow> ('t, unit) M" where
  "bg_mclear K m = (\<lambda>t. bg_del_all K (map fst (kv_scan K t (eMapKey m []))) t)"

fun mapE :: "('a \<Rightarrow> err + 'b) \<Rightarrow> 'a list \<Rightarrow> err + 'b list" where
  "mapE f [] = Inr []"
| "mapE f (x # xs) = bindE (f x) (\<lambda>y. bindE (mapE f xs) (\<lambda>ys. Inr (y # ys)))"

definition bg_mkeys :: "('d, 't, 'z) kv_scheme \<Rightarrow> 't \<Rightarrow> bytes \<Rightarrow> err + bytes list" where
  "bg_mkeys K t m = mapE (\<lambda>(k, _). dMapKey k) (kv_scan K t (eMapKey m []))"

definition bg_mvals :: "('d, 't, 'z) kv_scheme \<Rightarrow> 't \<Rightarrow> bytes \<Rightarrow> err + bytes list" where
  "bg_mvals K t m = mapE (\<lambda>(_, r). r) (kv_scan K t (eMapKey m []))"

definition bg_mkvs :: "('d, 't, 'z) kv_scheme \<Rightarrow> 't \<Rightarrow> bytes \<Rightarrow> err + bytes list \<times> bytes list" where
  "bg_mkvs K t m =
     bindE (mapE (\<lambda>(k, r). bindE (dMapKey k) (\<lambda>k'. bindE r (\<lambda>v. Inr (k', v)))) (kv_scan K t (eMapKey m [])))
       (\<lambda>kvs. Inr (map fst kvs, map snd kvs))"

section \<open>Sets\<close>

definition bg_sdel :: "('d, 't, 'z) kv_scheme \<Rightarrow> bytes \<Rightarrow> bytes \<Rightarrow> ('t, unit) M" where
  "bg_sdel K k v = bg_del K (eSetKey k v)"

definition bg_sadd :: "('d, 't, 'z) kv_scheme \<Rightarrow> bytes \<Rightarrow> bytes \<Rightarrow> ('t, unit) M" where
  "bg_sadd K k v = bg_set K (eSetKey k v) []"

definition bg_selem :: "('d, 't, 'z) kv_scheme \<Rightarrow> 't \<Rightarrow> bytes \<Rightarrow> bytes \<Rightarrow> err + bool" where
  "bg_selem K t k v =
     (case bg_get K t (eSetKey k v) of
        Inr _ \<Rightarrow> Inr True
      | Inl e \<Rightarrow> if e = NotExist then Inr False else Inl e)"

definition bg_sclear :: "('d, 't, 'z) kv_scheme \<Rightarrow> bytes \<Rightarrow> ('t, unit) M" where
  "bg_sclear K k = (\<lambda>t. bg_del_all K (map fst (kv_scan K t (eSetKey k []))) t)"

definition bg_smembers :: "('d, 't, 'z) kv_scheme \<Rightarrow> 't \<Rightarrow> bytes \<Rightarrow> err + bytes list" where
  "bg_smembers K t k = mapE (\<lambda>(k, _). dSetKey k) (kv_scan K t (eSetKey k []))"

section \<open>Operations on the database\<close>

text \<open>
  The methods of \<open>bgStore\<close> run the operation in a transaction of their own and commit it; when
  the operation fails the transaction is discarded and the database stays as it was.
\<close>

definition bgs_update :: "('d, 't, 'z) kv_scheme \<Rightarrow> ('t, 'a) M \<Rightarrow> ('d, 'a) M" where
  "bgs_update K op = (\<lambda>d.
     case op (kv_new K d) of
       (Inl e, _) \<Rightarrow> (Inl e, d)
     | (Inr a, t) \<Rightarrow> (case kv_commit K t d of (Inl e, d') \<Rightarrow> (Inl e, d') | (Inr _, d') \<Rightarrow> (Inr a, d')))"

definition bgStore_Del :: "('d, 't, 'z) kv_scheme \<Rightarrow> bytes \<Rightarrow> ('d, unit) M" where
  "bgStore_Del K k = bgs_update K (bg_del K k)"

definition bgStore_Set :: "('d, 't, 'z) kv_scheme \<Rightarrow> bytes \<Rightarrow> bytes \<Rightarrow> ('d, unit) M" where
  "bgStore_Set K k v = bgs_update K (bg_set K k v)"

definition bgStore_Get :: "('d, 't, 'z) kv_scheme \<Rightarrow> 'd \<Rightarrow> bytes \<Rightarrow> err + bytes" where
  "bgStore_Get K d k = bg_get K (kv_new K d) k"

definition bgStore_Mclear :: "('d, 't, 'z) kv_scheme \<Rightarrow> bytes \<Rightarrow> ('d, unit) M" where
  "bgStore_Mclear K m = bgs_update K (bg_mclear K m)"

definition bgStore_Mdel :: "('d, 't, 'z) kv_scheme \<Rightarrow> bytes \<Rightarrow> bytes \<Rightarrow> ('d, unit) M" where
  "bgStore_Mdel K m k = bgs_update K (bg_mdel K m k)"

definition bgStore_Mset :: "('d, 't, 'z) kv_scheme \<Rightarrow> bytes \<Rightarrow> bytes \<Rightarrow> bytes \<Rightarrow> ('d, unit) M" where
  "bgStore_Mset K m k v = bgs_update K (bg_mset K m k v)"

definition bgStore_Mget :: "('d, 't, 'z) kv_scheme \<Rightarrow> 'd \<Rightarrow> bytes \<Rightarrow> bytes \<Rightarrow> err + bytes" where
  "bgStore_Mget K d m k = bg_mget K (kv_new K d) m k"

definition bgStore_Mkeys :: "('d, 't, 'z) kv_scheme \<Rightarrow> 'd \<Rightarrow> bytes \<Rightarrow> err + bytes list" where
  "bgStore_Mkeys K d m = bg_mkeys K (kv_new K d) m"

definition bgStore_Mvals :: "('d, 't, 'z) kv_scheme \<Rightarrow> 'd \<Rightarrow> bytes \<Rightarrow> err + bytes list" where
  "bgStore_Mvals K d m = bg_mvals K (kv_new K d) m"

definition bgStore_Mkvs :: "('d, 't, 'z) kv_scheme \<Rightarrow> 'd \<Rightarrow> bytes \<Rightarrow> err + bytes list \<times> bytes list" where
  "bgStore_Mkvs K d m = bg_mkvs K (kv_new K d) m"

definition bgStore_Sclear :: "('d, 't, 'z) kv_scheme \<Rightarrow> bytes \<Rightarrow> ('d, unit) M" where
  "bgStore_Sclear K k = bgs_update K (bg_sclear K k)"

definition bgStore_Sdel :: "('d, 't, 'z) kv_scheme \<Rightarrow> bytes \<Rightarrow> bytes \<Rightarrow> ('d, unit) M" where
  "bgStore_Sdel K k v = bgs_update K (bg_sdel K k v)"

definition bgStore_Sadd :: "('d, 't, 'z) kv_scheme \<Rightarrow> bytes \<Rightarrow> bytes \<Rightarrow> ('d, unit) M" where
  "bgStore_Sadd K k v = bgs_update K (bg_sadd K k v)"

definition bgStore_Selem :: "('d, 't, 'z) kv_scheme \<Rightarrow> 'd \<Rightarrow> bytes \<Rightarrow> bytes \<Rightarrow> err + bool" where
  "bgStore_Selem K d k v = bg_selem K (kv_new K d) k v"

definition bgStore_Smembers :: "('d, 't, 'z) kv_scheme \<Rightarrow> 'd \<Rightarrow> bytes \<Rightarrow> err + bytes list" where
  "bgStore_Smembers K d k = bg_smembers K (kv_new K d) k"

section \<open>The interfaces the chain relies on\<close>

text \<open>
  \<open>store.Transaction\<close>, plain keys: a successful write is read back and touches no other key, a
  failing one touches nothing.
\<close>

locale store_tx =
  fixes Get :: "'t \<Rightarrow> bytes \<Rightarrow> err + bytes"
    and Set :: "bytes \<Rightarrow> bytes \<Rightarrow> ('t, unit) M"
    and Del :: "bytes \<Rightarrow> ('t, unit) M"
  assumes Set_ok: "Set k v t = (Inr u, t') \<Longrightarrow> Get t' = (Get t)(k := Inr v)"
    and Set_err: "Set k v t = (Inl e, t') \<Longrightarrow> Get t' = Get t"
    and Del_ok: "Del k t = (Inr u, t') \<Longrightarrow> Get t' = (Get t)(k := Inl NotExist)"
    and Del_err: "Del k t = (Inl e, t') \<Longrightarrow> Get t' = Get t"
begin

lemma Set_other: "Set k v t = (r, t') \<Longrightarrow> k' \<noteq> k \<Longrightarrow> Get t' k' = Get t k'"
  by (cases r) (auto dest: Set_ok Set_err)

lemma Del_other: "Del k t = (r, t') \<Longrightarrow> k' \<noteq> k \<Longrightarrow> Get t' k' = Get t k'"
  by (cases r) (auto dest: Del_ok Del_err)

lemma keepsM_Set: "k' \<noteq> k \<Longrightarrow> keepsM (\<lambda>t. Get t k') (Set k v)"
  by (rule keepsM_I) (rule Set_other)

lemma keepsM_Del: "k' \<noteq> k \<Longrightarrow> keepsM (\<lambda>t. Get t k') (Del k)"
  by (rule keepsM_I) (rule Del_other)

end

text \<open>\<open>store.Transaction\<close>, named maps: the maps with different names are independent.\<close>

locale store_map =
  fixes Mget :: "'t \<Rightarrow> bytes \<Rightarrow> bytes \<Rightarrow> err + bytes"
    and Mset :: "bytes \<Rightarrow> bytes \<Rightarrow> bytes \<Rightarrow> ('t, unit) M"
    and Mdel :: "bytes \<Rightarrow> bytes \<Rightarrow> ('t, unit) M"
    and name_ok :: "bytes \<Rightarrow> bool"
  assumes Mset_ok: "Mset m k v t = (Inr u, t') \<Longrightarrow> name_ok m \<Longrightarrow> name_ok m' \<Longrightarrow>
      Mget t' m' k' = (if m' = m \<and> k' = k then Inr v else Mget t m' k')"
    and Mset_err: "Mset m k v t = (Inl e, t') \<Longrightarrow> Mget t' = Mget t"
    and Mdel_ok: "Mdel m k t = (Inr u, t') \<Longrightarrow> name_ok m \<Longrightarrow> name_ok m' \<Longrightarrow>
      Mget t' m' k' = (if m' = m \<and> k' = k then Inl NotExist else Mget t m' k')"
    and Mdel_err: "Mdel m k t = (Inl e, t') \<Longrightarrow> Mget t' = Mget t"
begin

lemma Mset_other:
  "Mset m k v t = (r, t') \<Longrightarrow> name_ok m \<Longrightarrow> name_ok m' \<Longrightarrow> (m', k') \<noteq> (m, k) \<Longrightarrow>
   Mget t' m' k' = Mget t m' k'"
  by (cases r) (auto simp: Mset_ok Mset_err)

text \<open>Setting and then deleting an entry leaves every other entry of every map as it was.\<close>

lemma Mset_Mdel:
  "Mset m k v t = (Inr u, t1) \<Longrightarrow> Mdel m k t1 = (Inr w, t2) \<Longrightarrow> name_ok m \<Longrightarrow> name_ok m' \<Longrightarrow>
   Mget t2 m' k' = (if m' = m \<and> k' = k then Inl NotExist else Mget t m' k')"
  by (simp add: Mdel_ok Mset_ok)

end

lemma eMapKey_eq_EMapKey: "eMapKey = EMapKey"
  by (intro ext) (simp add: eMapKey_def EMapKey_def)

lemma eSetKey_tl_EMapKey: "eSetKey m k = str ''s'' @ tl (EMapKey m k)"
  by (simp add: eSetKey_def EMapKey_def str_def)

lemma eMapKey_inj:
  "length m < 2 ^ 32 \<Longrightarrow> length m' < 2 ^ 32 \<Longrightarrow> eMapKey m k = eMapKey m' k' \<longleftrightarrow> m = m' \<and> k = k'"
  by (simp only: eMapKey_eq_EMapKey EMapKey_inj)

lemma eSetKey_inj:
  assumes "length m < 2 ^ 32" and "length m' < 2 ^ 32"
  shows "eSetKey m k = eSetKey m' k' \<longleftrightarrow> m = m' \<and> k = k'"
proof -
  have "eSetKey m k = eSetKey m' k' \<longleftrightarrow> EMapKey m k = EMapKey m' k'"
    by (simp add: eSetKey_def EMapKey_def str_def)
  then show ?thesis using assms EMapKey_inj by simp
qed

lemma dMapKey_eMapKey:
  assumes "length m < 4294967291"
  shows "dMapKey (eMapKey m k) = Inr k"
proof -
  have "unat (5 + word_of_nat (length m) :: u32) = 5 + length m"
    using assms by (simp add: unat_word_ariths)
  then show ?thesis
    by (simp add: dMapKey_def eMapKey_def str_def Let_def)
qed

lemma dSetKey_eSetKey:
  "length m < 4294967291 \<Longrightarrow> dSetKey (eSetKey m k) = Inr k"
  using dMapKey_eMapKey [of m k]
  by (simp add: dSetKey_def dMapKey_def eMapKey_def eSetKey_def str_def Let_def)

lemma eMapKey_ne [simp]: "eMapKey m k \<noteq> []"
  by (simp add: eMapKey_def str_def)

lemma eSetKey_ne [simp]: "eSetKey m k \<noteq> []"
  by (simp add: eSetKey_def str_def)

lemma prefix_eMapKey_iff: "prefix (eMapKey m []) x \<longleftrightarrow> (\<exists>k. x = eMapKey m k)"
  by (auto simp: eMapKey_def prefix_def)

lemma prefix_eSetKey_iff: "prefix (eSetKey m []) x \<longleftrightarrow> (\<exists>k. x = eSetKey m k)"
  by (auto simp: eSetKey_def prefix_def)

lemma mapE_map: "(\<And>x. x \<in> set xs \<Longrightarrow> f x = Inr (g x)) \<Longrightarrow> mapE f xs = Inr (map g xs)"
  by (induction xs) (auto simp: monad_simps)

text \<open>Badger and the adapters of \<open>bg.go\<close> give both interfaces.\<close>

sublocale badger \<subseteq> plain: store_tx "bg_get K" "bg_set K" "bg_del K"
  by unfold_locales
    (auto simp: bg_get_def bg_set_def bg_del_def fun_eq_iff dest!: set_ok set_err delete_ok delete_err)

sublocale badger \<subseteq> maps: store_map "bg_mget K" "bg_mset K" "bg_mdel K" "\<lambda>m. length m < 2 ^ 32"
  by unfold_locales
    (auto simp: bg_mget_def bg_mset_def bg_mdel_def fun_eq_iff eMapKey_inj
      dest!: plain.Set_ok plain.Set_err plain.Del_ok plain.Del_err)

context badger
begin

lemma bg_get_not_exist: "bg_get K t k = Inl NotExist \<longleftrightarrow> kv_get K t k \<in> {Inl NotExist, Inl ErrKeyNotFound}"
  by (auto simp: bg_get_def split: sum.splits)

lemma bgs_update_err: "bgs_update K op d = (Inl e, d') \<Longrightarrow> bgStore_Get K d' = bgStore_Get K d"
  by (auto simp: bgs_update_def bgStore_Get_def bg_get_def fun_eq_iff dest: commit_err
      split: prod.splits sum.splits)

lemma commit_get:
  assumes "kv_commit K t d = (Inr u, d')"
  shows "bgStore_Get K d' k = (if k \<in> pending t then bg_get K t k else bgStore_Get K d k)"
  using commit_ok [OF assms, of k] by (simp add: bgStore_Get_def bg_get_def)

lemma commit_get_err: "kv_commit K t d = (Inl e, d') \<Longrightarrow> bgStore_Get K d' = bgStore_Get K d"
  by (auto simp: bgStore_Get_def bg_get_def fun_eq_iff dest: commit_err)

text \<open>
  The view of a transaction opened on \<open>d\<close> agrees with \<open>d\<close> outside the keys it has written.
\<close>

definition tracks :: "'d \<Rightarrow> 't \<Rightarrow> bool" where
  "tracks d t \<longleftrightarrow> (\<forall>k. k \<notin> pending t \<longrightarrow> bg_get K t k = bgStore_Get K d k)"

lemma tracks_new: "tracks d (kv_new K d)"
  by (simp add: tracks_def bgStore_Get_def)

lemma tracks_set: "tracks d t \<Longrightarrow> bg_set K k v t = (r, t') \<Longrightarrow> tracks d t'"
  by (cases r) (auto simp: tracks_def bg_set_def bg_get_def dest!: set_ok set_err)

lemma tracks_del: "tracks d t \<Longrightarrow> bg_del K k t = (r, t') \<Longrightarrow> tracks d t'"
  by (cases r) (auto simp: tracks_def bg_del_def bg_get_def dest!: delete_ok delete_err)

lemma tracks_commit: "tracks d t \<Longrightarrow> kv_commit K t d = (Inr u, d') \<Longrightarrow> bgStore_Get K d' = bg_get K t"
  by (auto simp: tracks_def fun_eq_iff commit_get)

lemma bgStore_Set_ok:
  assumes "bgStore_Set K k v d = (Inr u, d')"
  shows "bgStore_Get K d' = (bgStore_Get K d)(k := Inr v)"
proof -
  obtain t where t: "bg_set K k v (kv_new K d) = (Inr u, t)" "kv_commit K t d = (Inr u, d')"
    using assms by (auto simp: bgStore_Set_def bgs_update_def split: prod.splits sum.splits)
  then have "bgStore_Get K d' = bg_get K t"
    using tracks_commit tracks_new tracks_set by blast
  then show ?thesis
    using plain.Set_ok [OF t(1)] by (simp add: bgStore_Get_def fun_eq_iff)
qed

lemma bg_del_all_get:
  "bg_del_all K ks t = (Inr u, t') \<Longrightarrow> bg_get K t' k = (if k \<in> set ks then Inl NotExist else bg_get K t k)"
proof (induction ks arbitrary: t)
  case Nil
  then show ?case by (simp add: monad_simps)
next
  case (Cons x ks)
  from Cons.prems obtain w t1 where "bg_del K x t = (Inr w, t1)" "bg_del_all K ks t1 = (Inr u, t')"
    by (auto simp: monad_ok)
  with Cons.IH show ?case by (auto simp: plain.Del_ok)
qed

lemma scan_map_keys:
  "set (map fst (kv_scan K t (eMapKey m []))) = {eMapKey m k | k. kv_get K t (eMapKey m k) \<noteq> Inl ErrKeyNotFound}"
  using scan_keys [of "eMapKey m []" t] by (auto simp: prefix_eMapKey_iff)

lemma scan_set_keys:
  "set (map fst (kv_scan K t (eSetKey m []))) = {eSetKey m k | k. kv_get K t (eSetKey m k) \<noteq> Inl ErrKeyNotFound}"
  using scan_keys [of "eSetKey m []" t] by (auto simp: prefix_eSetKey_iff)

lemma bg_mkeys_exact:
  assumes "length m < 4294967291"
  shows "\<exists>ks. bg_mkeys K t m = Inr ks \<and> distinct ks \<and>
           set ks = {k. kv_get K t (eMapKey m k) \<noteq> Inl ErrKeyNotFound}"
proof -
  let ?items = "kv_scan K t (eMapKey m [])"
  let ?key = "\<lambda>x. THE k. x = eMapKey m k"
  have inj: "eMapKey m k = eMapKey m k' \<longleftrightarrow> k = k'" for k k'
    by (simp add: eMapKey_def)
  then have key: "?key (eMapKey m k) = k" for k
    by simp
  have "fst ` set ?items = {eMapKey m k | k. kv_get K t (eMapKey m k) \<noteq> Inl ErrKeyNotFound}"
    using scan_map_keys [of t m] by simp
  then have item: "fst it \<in> {eMapKey m k | k. kv_get K t (eMapKey m k) \<noteq> Inl ErrKeyNotFound}"
    if "it \<in> set ?items" for it
    using that by blast
  have "mapE (\<lambda>(k, _). dMapKey k) ?items = Inr (map (?key \<circ> fst) ?items)"
  proof (rule mapE_map)
    fix it assume "it \<in> set ?items"
    then obtain k where "fst it = eMapKey m k" using item by blast
    then show "(case it of (k, _) \<Rightarrow> dMapKey k) = Inr ((?key \<circ> fst) it)"
      using assms by (simp add: case_prod_beta dMapKey_eMapKey key)
  qed
  moreover have "set (map (?key \<circ> fst) ?items) = {k. kv_get K t (eMapKey m k) \<noteq> Inl ErrKeyNotFound}"
  proof -
    have "set (map (?key \<circ> fst) ?items) = ?key ` set (map fst ?items)"
      by (simp add: image_comp)
    also have "\<dots> = ?key ` {eMapKey m k | k. kv_get K t (eMapKey m k) \<noteq> Inl ErrKeyNotFound}"
      by (simp only: scan_map_keys)
    also have "\<dots> = {k. kv_get K t (eMapKey m k) \<noteq> Inl ErrKeyNotFound}"
      by (force simp: key image_iff)
    finally show ?thesis .
  qed
  moreover have "distinct (map (?key \<circ> fst) ?items)"
  proof -
    have "inj_on ?key (set (map fst ?items))"
      unfolding scan_map_keys by (rule inj_onI) (auto simp: key)
    then have "distinct (map ?key (map fst ?items))"
      using scan_distinct by (simp only: distinct_map)
    then show ?thesis by simp
  qed
  ultimately show ?thesis by (simp add: bg_mkeys_def)
qed

end

context badger
begin

lemma mset_exact:
  assumes "length m < 4294967291" and "length m' < 4294967291"
    and "bg_mset K m k v t = (Inr u, t')"
  shows "bg_mget K t' m' k' = (if m' = m \<and> k' = k then Inr v else bg_mget K t m' k') \<and>
    (\<exists>ks. bg_mkeys K t' m = Inr ks \<and> distinct ks \<and> k \<in> set ks \<and>
          set ks = {k. kv_get K t' (eMapKey m k) \<noteq> Inl ErrKeyNotFound})"
proof -
  have "kv_get K t' (eMapKey m k) = Inr v"
    using assms(3) set_ok by (fastforce simp: bg_mset_def bg_set_def)
  moreover have "bg_mget K t' m' k' = (if m' = m \<and> k' = k then Inr v else bg_mget K t m' k')"
    using maps.Mset_ok [OF assms(3)] assms by simp
  ultimately show ?thesis
    using bg_mkeys_exact [OF assms(1), of t'] by auto
qed

lemma mclear_exact:
  assumes "bg_mclear K m t = (Inr u, t')"
  shows "(\<forall>k. bg_mget K t' m k = Inl NotExist) \<and>
    (\<forall>x. (\<nexists>k. x = eMapKey m k) \<longrightarrow> bg_get K t' x = bg_get K t x)"
proof -
  have "bg_get K t' x = (if x \<in> set (map fst (kv_scan K t (eMapKey m []))) then Inl NotExist else bg_get K t x)" for x
    using assms bg_del_all_get by (auto simp: bg_mclear_def)
  then show ?thesis
    unfolding scan_map_keys by (auto simp: bg_mget_def bg_get_not_exist)
qed

lemma sclear_exact:
  assumes "bg_sclear K s t = (Inr u, t')"
  shows "(\<forall>v. bg_selem K t' s v = Inr False) \<and>
    (\<forall>x. (\<nexists>v. x = eSetKey s v) \<longrightarrow> bg_get K t' x = bg_get K t x)"
proof -
  have "bg_get K t' x = (if x \<in> set (map fst (kv_scan K t (eSetKey s []))) then Inl NotExist else bg_get K t x)" for x
    using assms bg_del_all_get by (auto simp: bg_sclear_def)
  moreover from this have "bg_get K t' (eSetKey s v) = Inl NotExist" for v
    unfolding scan_set_keys by (auto simp: bg_get_not_exist)
  ultimately show ?thesis
    unfolding scan_set_keys by (auto simp: bg_selem_def)
qed

end

section \<open>A database in memory\<close>

text \<open>
  An instance of the contract on association lists: the database is a list of entries, a
  transaction the list it sees and the keys it has written. An empty key is refused, as badger
  does. It shows that the contract can be met, and the examples below run on it.
\<close>

type_synonym memdb = "(bytes \<times> bytes) list"
type_synonym memtx = "memdb \<times> bytes list"

definition mem_get :: "memtx \<Rightarrow> bytes \<Rightarrow> err + bytes" where
  "mem_get t k = (case map_of (fst t) k of None \<Rightarrow> Inl ErrKeyNotFound | Some v \<Rightarrow> Inr v)"

definition mem_set :: "bytes \<Rightarrow> bytes \<Rightarrow> (memtx, unit) M" where
  "mem_set k v = (\<lambda>t. if k = [] then (Inl (Err ''Key cannot be empty''), t)
                      else (Inr (), AList.update k v (fst t), k # snd t))"

definition mem_delete :: "bytes \<Rightarrow> (memtx, unit) M" where
  "mem_delete k = (\<lambda>t. if k = [] then (Inl (Err ''Key cannot be empty''), t)
                       else (Inr (), AList.delete k (fst t), k # snd t))"

definition mem_scan :: "memtx \<Rightarrow> bytes \<Rightarrow> (bytes \<times> (err + bytes)) list" where
  "mem_scan t p = map (\<lambda>(k, v). (k, Inr v)) (filter (\<lambda>(k, v). prefix p k) (AList.clearjunk (fst t)))"

fun mem_apply :: "memdb \<Rightarrow> bytes list \<Rightarrow> memdb \<Rightarrow> memdb" where
  "mem_apply view [] d = d"
| "mem_apply view (k # ks) d =
     (case map_of view k of
        None \<Rightarrow> AList.delete k (mem_apply view ks d)
      | Some v \<Rightarrow> AList.update k v (mem_apply view ks d))"

definition mem_commit :: "memtx \<Rightarrow> (memdb, unit) M" where
  "mem_commit t = (\<lambda>d. (Inr (), mem_apply (fst t) (snd t) d))"

definition mem_kv :: "(memdb, memtx) kv" where
  "mem_kv = \<lparr>kv_new = \<lambda>d. (d, []), kv_get = mem_get, kv_set = mem_set, kv_delete = mem_delete,
             kv_scan = mem_scan, kv_commit = mem_commit\<rparr>"

lemmas mem_defs = mem_kv_def mem_get_def mem_set_def mem_delete_def mem_scan_def mem_commit_def

lemma mem_apply_lookup:
  "map_of (mem_apply view ks d) k = (if k \<in> set ks then map_of view k else map_of d k)"
  by (induction ks) (auto simp: update_conv' delete_conv' split: option.splits)

lemma mem_scan_fst: "map fst (mem_scan t p) = filter (prefix p) (map fst (AList.clearjunk (fst t)))"
  by (simp add: mem_scan_def filter_map o_def case_prod_unfold)

lemma mem_scan_in: "(k, r) \<in> set (mem_scan t p) \<Longrightarrow> r = mem_get t k"
proof -
  assume "(k, r) \<in> set (mem_scan t p)"
  then obtain v where "r = Inr v" "(k, v) \<in> set (AList.clearjunk (fst t))"
    by (auto simp: mem_scan_def)
  then show ?thesis
    by (metis distinct_clearjunk map_of_clearjunk map_of_eq_Some_iff mem_get_def option.simps(5))
qed

interpretation mem: badger mem_kv "\<lambda>t. set (snd t)"
proof unfold_locales
  fix t :: memtx and p :: bytes
  show "p \<noteq> [] \<Longrightarrow> set (map fst (kv_scan mem_kv t p)) = {k. prefix p k \<and> kv_get mem_kv t k \<noteq> Inl ErrKeyNotFound}"
  proof -
    have "k \<in> fst ` set (AList.clearjunk (fst t)) \<longleftrightarrow> mem_get t k \<noteq> Inl ErrKeyNotFound" for k
      using map_of_eq_None_iff [of "fst t" k] by (auto simp: mem_get_def dom_clearjunk split: option.splits)
    then show ?thesis
      by (auto simp: mem_kv_def mem_scan_fst)
  qed
  show "distinct (map fst (kv_scan mem_kv t p))"
    by (simp add: mem_kv_def mem_scan_fst)
  show "(k, r) \<in> set (kv_scan mem_kv t p) \<Longrightarrow> r = kv_get mem_kv t k" for k r
    by (simp add: mem_kv_def mem_scan_in)
qed (auto simp: mem_kv_def mem_get_def mem_set_def mem_delete_def mem_commit_def fun_eq_iff
      update_conv' delete_conv' mem_apply_lookup split: if_splits option.splits)

section \<open>Properties\<close>

text \<open>
  C31. On any database that meets badger's contract the named maps of a transaction behave as maps:
  a successful \<open>Mset\<close> is what \<open>Mget\<close> of the same map and key returns afterwards and leaves every
  other entry of every map alone, and \<open>Mkeys\<close> afterwards lists the present keys of the map, each
  exactly once, with the new key among them.
\<close>

theorem named_maps_are_maps:
  assumes "badger K pending"
    and "length m < 4294967291" and "length m' < 4294967291"
    and "bg_mset K m k v t = (Inr u, t')"
  shows "bg_mget K t' m' k' = (if m' = m \<and> k' = k then Inr v else bg_mget K t m' k') \<and>
    (\<exists>ks. bg_mkeys K t' m = Inr ks \<and> distinct ks \<and> k \<in> set ks \<and>
          set ks = {k. kv_get K t' (eMapKey m k) \<noteq> Inl ErrKeyNotFound})"
  using badger.mset_exact [OF assms] .

theorem named_maps_are_maps_witness:
  "badger mem_kv (\<lambda>t. set (snd t)) \<and>
   bg_mset mem_kv (str ''tx'') (str ''a'') (str ''1'') (kv_new mem_kv []) =
     (Inr (), [(eMapKey (str ''tx'') (str ''a''), str ''1'')], [eMapKey (str ''tx'') (str ''a'')]) \<and>
   bg_mget mem_kv ([(eMapKey (str ''tx'') (str ''a''), str ''1'')], [eMapKey (str ''tx'') (str ''a'')])
     (str ''tx'') (str ''a'') = Inr (str ''1'')"
proof -
  have run: "bg_mset mem_kv (str ''tx'') (str ''a'') (str ''1'') (kv_new mem_kv []) =
     (Inr (), [(eMapKey (str ''tx'') (str ''a''), str ''1'')], [eMapKey (str ''tx'') (str ''a'')])"
    by (simp add: bg_mset_def bg_set_def mem_defs)
  show ?thesis
    using named_maps_are_maps [OF mem.badger_axioms _ _ run, of "str ''tx''" "str ''a''"] run mem.badger_axioms
    by simp
qed

text \<open>
  \<open>Mclear\<close> empties exactly the map it names: afterwards no key of the map is present, and
  every database key that does not belong to the map reads as before.
\<close>

theorem mclear_empties_exactly_the_map:
  assumes "badger K pending"
    and "bg_mclear K m t = (Inr u, t')"
  shows "(\<forall>k. bg_mget K t' m k = Inl NotExist) \<and>
    (\<forall>x. (\<nexists>k. x = eMapKey m k) \<longrightarrow> bg_get K t' x = bg_get K t x)"
  using badger.mclear_exact [OF assms] .

theorem mclear_empties_exactly_the_map_witness:
  "\<forall>k. bg_mget mem_kv (snd (bg_mclear mem_kv (str ''tx'')
     ([(eMapKey (str ''tx'') (str ''a''), str ''1''), (str ''height'', [])], []))) (str ''tx'') k = Inl NotExist"
proof -
  let ?t = "([(eMapKey (str ''tx'') (str ''a''), str ''1''), (str ''height'', [])], []) :: memtx"
  have "bg_mclear mem_kv (str ''tx'') ?t =
      (Inr (), [(str ''height'', [])], [eMapKey (str ''tx'') (str ''a'')])"
    by (simp add: bg_mclear_def bg_del_def mem_defs monad_simps eMapKey_def str_def)
  then show ?thesis
    using mclear_empties_exactly_the_map [OF mem.badger_axioms, of "str ''tx''" ?t] by simp
qed

end
