(* ===== verification/State.thy ===== *)
theory State
  imports Blocks Store
begin

text \<open>
  Accounts: balances, nonces and frozen quotas in the state database, from
  \<open>pkg/blockchain/state.go\<close>, \<open>freeze.go\<close>, \<open>types.go\<close> and the balance part of
  \<open>blockchain.go\<close> and \<open>contract.go\<close>.

  The state database of go-ethereum is a third-party package, so its operations are a record the
  definitions take as a parameter, with the contract \<open>statedb\<close>.
\<close>

section \<open>Parameters\<close>

text \<open>\<open>runtime.Config\<close>, the fields the sources set.\<close>

record evm_cfg =
  c_ChainID :: int
  c_Difficulty :: "int option"
  c_Time :: int
  c_GasLimit :: u64
  c_GasPrice :: int
  c_Value :: int
  c_BlockNumber :: int
  c_Coinbase :: caddr
  c_Origin :: caddr

text \<open>\<open>transaction.EvmContract\<close>; the logs are kept as the bytes they are printed to.\<close>

record EvmContract =
  EthData :: bytes
  MsgHash :: bytes
  Operation :: bytes
  CreateCode :: bytes
  Origin :: caddr
  ContractAddr :: caddr
  CallInput :: bytes
  Ret :: bytes
  Status :: bool
  Logs :: "bytes list"

text \<open>
  \<open>'s\<close> is a \<open>StateDB\<close>, \<open>'d\<close> the database below it. \<open>sdb_Commit\<close> is \<open>StateDB.Commit\<close>,
  \<open>trie_Commit\<close> is \<open>TrieDB().Commit\<close>, which writes trie nodes to the database, \<open>state_New\<close> is
  \<open>state.New\<close>; \<open>vm_Create\<close> and \<open>vm_Call\<close> are \<open>runtime.Create\<close> and \<open>runtime.Call\<close>.
\<close>

record ('d, 's) sdb_ops =
  GetBalance :: "'s \<Rightarrow> caddr \<Rightarrow> int"
  SetBalance :: "caddr \<Rightarrow> int \<Rightarrow> 's \<Rightarrow> 's"
  sdb_GetNonce :: "'s \<Rightarrow> caddr \<Rightarrow> u64"
  sdb_SetNonce :: "caddr \<Rightarrow> u64 \<Rightarrow> 's \<Rightarrow> 's"
  sdb_GetCode :: "'s \<Rightarrow> caddr \<Rightarrow> bytes"
  sdb_SetCode :: "caddr \<Rightarrow> bytes \<Rightarrow> 's \<Rightarrow> 's"
  sdb_Prepare :: "chash \<Rightarrow> nat \<Rightarrow> 's \<Rightarrow> 's"
  sdb_GetLogs :: "'s \<Rightarrow> chash \<Rightarrow> chash \<Rightarrow> bytes list"
  sdb_Commit :: "bool \<Rightarrow> ('s, chash) M"
  trie_Commit :: "chash \<Rightarrow> 's \<Rightarrow> ('d, unit) M"
  state_New :: "chash \<Rightarrow> 'd \<Rightarrow> err + 's"
  vm_Create :: "evm_cfg \<Rightarrow> bytes \<Rightarrow> 's \<Rightarrow> (bytes \<times> caddr \<times> u64 \<times> err option) \<times> 's"
  vm_Call :: "evm_cfg \<Rightarrow> caddr \<Rightarrow> bytes \<Rightarrow> 's \<Rightarrow> (bytes \<times> u64 \<times> err option) \<times> 's"

text \<open>
  The environment of a chain: the environment of the codecs, the database, the state database, the
  clock, the JSON and RLP decoders of contract transactions (\<open>eth_value\<close> is the value field of
  the decoded Ethereum transaction) and the JSON decoder of a transaction index.
\<close>

record ('d, 't, 's) sys = env +
  KV :: "('d, 't) kv"
  SD :: "('d, 's) sdb_ops"
  now :: int
  json_DecodeEvm :: "bytes \<Rightarrow> err + EvmContract"
  json_EncodeEvm :: "EvmContract \<Rightarrow> err + bytes"
  eth_value :: "bytes \<Rightarrow> err + int"
  json_DecodeTxIndex :: "bytes \<Rightarrow> err + u64 \<times> u64"

text \<open>
  The documented behaviour of the state database: reads return the last write to the same account
  and a write touches one field of one account only.
\<close>

locale statedb =
  fixes S :: "('d, 't, 's, 'z) sys_scheme"
  assumes GetBalance_SetBalance:
      "GetBalance (SD S) (SetBalance (SD S) a v s) b = (if b = a then v else GetBalance (SD S) s b)"
    and GetNonce_SetBalance: "sdb_GetNonce (SD S) (SetBalance (SD S) a v s) b = sdb_GetNonce (SD S) s b"
    and GetNonce_SetNonce:
      "sdb_GetNonce (SD S) (sdb_SetNonce (SD S) a n s) b = (if b = a then n else sdb_GetNonce (SD S) s b)"
    and GetBalance_SetNonce: "GetBalance (SD S) (sdb_SetNonce (SD S) a n s) b = GetBalance (SD S) s b"

section \<open>The blockchain object\<close>

record ChainConfig =
  ChainId :: int
  NetworkId :: int
  CfgGasLimit :: u64
  CfgGasPrice :: u64

record ('d, 's) chain =
  db :: 'd
  sdb :: 's
  evm :: evm_cfg
  ChainCfg :: ChainConfig

definition SnapRootKey :: bytes where "SnapRootKey = str ''snapRoot''"
definition HeightKey :: bytes where "HeightKey = str ''height''"
definition FreezeKey :: bytes where "FreezeKey = str ''freeze''"
definition SnapRootPrefix :: bytes where "SnapRootPrefix = str ''blockSnap''"
definition HeightPrefix :: bytes where "HeightPrefix = str ''blockheight''"
definition BindingKey :: bytes where "BindingKey = str ''binding''"

definition MAXGASLIMIT :: u64 where "MAXGASLIMIT = 10000000000000"
definition MINGASLIMIT :: u64 where "MINGASLIMIT = 2100000"
definition ETHDECIMAL :: u64 where "ETHDECIMAL = 10000000"

text \<open>\<open>big.Int.Uint64\<close> and \<open>big.Int.SetUint64\<close>.\<close>

definition big_Uint64 :: "int \<Rightarrow> u64" where
  "big_Uint64 n = word_of_int n"

definition Uint64ToBigInt :: "u64 \<Rightarrow> int" where
  "Uint64ToBigInt v = uint v"

lemma big_Uint64_to_big [simp]: "big_Uint64 (Uint64ToBigInt v) = v"
  by (simp add: big_Uint64_def Uint64ToBigInt_def)

definition commonAddrToStoreAddr :: "('z) env_scheme \<Rightarrow> caddr \<Rightarrow> bytes \<Rightarrow> caddr" where
  "commonAddrToStoreAddr E a pfx = BytesToAddress E (sha1 E (pfx @ a))"

section \<open>Balances and nonces\<close>

definition setNonce :: "('d, 't, 's, 'z) sys_scheme \<Rightarrow> addr \<Rightarrow> u64 \<Rightarrow> ('s, unit) M" where
  "setNonce S addr nonce =
     bindM (liftE (NewCommonAddr S addr)) (\<lambda>coAddr. \<lambda>s.
       let sdbNonce = (if sdb_GetNonce (SD S) s coAddr = 0 then 1 else sdb_GetNonce (SD S) s coAddr)
       in if sdbNonce + 1 \<noteq> nonce then (Inl (Err ''error nonce''), s)
          else (Inr (), sdb_SetNonce (SD S) coAddr nonce s))"

definition setBalance :: "('d, 't, 's, 'z) sys_scheme \<Rightarrow> addr \<Rightarrow> int \<Rightarrow> ('s, unit) M" where
  "setBalance S addr balance =
     bindM (liftE (NewCommonAddr S addr)) (\<lambda>coAddr. modM (SetBalance (SD S) coAddr balance))"

definition getBalance :: "('d, 't, 's, 'z) sys_scheme \<Rightarrow> 's \<Rightarrow> addr \<Rightarrow> err + u64" where
  "getBalance S s addr =
     bindE (NewCommonAddr S addr) (\<lambda>coAddr. Inr (big_Uint64 (GetBalance (SD S) s coAddr)))"

definition getNonce :: "('d, 't, 's, 'z) sys_scheme \<Rightarrow> 's \<Rightarrow> addr \<Rightarrow> err + u64" where
  "getNonce S s addr =
     bindE (NewCommonAddr S addr) (\<lambda>coAddr.
       let n = sdb_GetNonce (SD S) s coAddr in Inr (if n = 0 then 1 else n))"

section \<open>Frozen quotas\<close>

definition getAllFreezeBalance :: "('d, 't, 's, 'z) sys_scheme \<Rightarrow> 's \<Rightarrow> addr \<Rightarrow> err + u64" where
  "getAllFreezeBalance S s addr =
     bindE (NewCommonAddr S addr) (\<lambda>a.
       Inr (big_Uint64 (GetBalance (SD S) s (commonAddrToStoreAddr S a FreezeKey))))"

definition getSingleFreezeBalance :: "('d, 't, 's, 'z) sys_scheme \<Rightarrow> 's \<Rightarrow> addr \<Rightarrow> addr \<Rightarrow> err + u64" where
  "getSingleFreezeBalance S s addr to =
     bindE (NewCommonAddr S addr) (\<lambda>a.
       let fromKey = commonAddrToStoreAddr S a FreezeKey
       in Inr (big_Uint64 (GetBalance (SD S) s (commonAddrToStoreAddr S fromKey to))))"

definition setSingleFreezeBalance :: "('d, 't, 's, 'z) sys_scheme \<Rightarrow> addr \<Rightarrow> addr \<Rightarrow> int \<Rightarrow> ('s, unit) M" where
  "setSingleFreezeBalance S from to freezeBal =
     bindM (liftE (NewCommonAddr S from)) (\<lambda>a.
       let fromKey = commonAddrToStoreAddr S a FreezeKey
       in modM (SetBalance (SD S) (commonAddrToStoreAddr S fromKey to) freezeBal))"

definition setAllFreezeBalance :: "('d, 't, 's, 'z) sys_scheme \<Rightarrow> addr \<Rightarrow> int \<Rightarrow> ('s, unit) M" where
  "setAllFreezeBalance S from freezeBal =
     bindM (liftE (NewCommonAddr S from)) (\<lambda>a.
       modM (SetBalance (SD S) (commonAddrToStoreAddr S a FreezeKey) freezeBal))"

definition getAvailableBalance :: "('d, 't, 's, 'z) sys_scheme \<Rightarrow> 's \<Rightarrow> addr \<Rightarrow> err + u64" where
  "getAvailableBalance S s addr =
     bindE (getBalance S s addr) (\<lambda>balance.
     bindE (getAllFreezeBalance S s addr) (\<lambda>feeBalance.
       let aviBalance = balance - feeBalance
       in if balance < feeBalance then Inl (Err ''available balance is error'')
          else if MAXUINT64 - aviBalance < feeBalance then Inl (Err ''available balance is error'')
          else Inr aviBalance))"

text \<open>
  The quotas are written before the balance is checked; the errors of the two writes and of the
  balance read are dropped, a failed read leaves a zero.
\<close>

definition setFreezeAccount ::
    "('d, 't, 's, 'z) sys_scheme \<Rightarrow> addr \<Rightarrow> addr \<Rightarrow> u64 \<Rightarrow> u64 \<Rightarrow> int \<Rightarrow> ('s, unit) M" where
  "setFreezeAccount S from to freezeBal gasUsed code =
     bindM (readM (\<lambda>s. getSingleFreezeBalance S s from to)) (\<lambda>singleFree.
     bindM (readM (\<lambda>s. getAllFreezeBalance S s from)) (\<lambda>allFree.
     bindM (readM (\<lambda>s. getAvailableBalance S s from)) (\<lambda>availableBal.
     bindM (if code = 1 then
        (let setSingFree = singleFree + freezeBal; setAllFree = allFree + freezeBal in
         thenM (failIf (availableBal + gasUsed < freezeBal) (Err ''freezeBal is too large''))
        (thenM (failIf (MAXUINT64 - singleFree - gasUsed < freezeBal) (Err ''freezeBal is too large''))
        (thenM (failIf (MAXUINT64 - allFree - gasUsed < freezeBal) (Err ''freezeBal is too large''))
         (retM (setSingFree, setAllFree)))))
       else
        (let setSingFree = singleFree - freezeBal; setAllFree = allFree - freezeBal in
         thenM (failIf (availableBal < gasUsed) (Err ''availableBal balance insufficient''))
        (thenM (failIf (singleFree < freezeBal) (Err ''unfreezing is too large''))
        (thenM (failIf (allFree < freezeBal) (Err ''unfreezing is too large''))
         (retM (setSingFree, setAllFree)))))) (\<lambda>(setSingFree, setAllFree).
     thenM (ignoreM (setSingleFreezeBalance S from to (Uint64ToBigInt setSingFree)))
    (thenM (ignoreM (setAllFreezeBalance S from (Uint64ToBigInt setAllFree)))
    (bindM (\<lambda>s. (Inr (case getBalance S s from of Inl _ \<Rightarrow> 0 | Inr b \<Rightarrow> b), s)) (\<lambda>fromBalance.
     thenM (failIf (MAXUINT64 - gasUsed < fromBalance) (Err ''freezeBal is too large''))
    (setBalance S from (Uint64ToBigInt (fromBalance - gasUsed))))))))))"

section \<open>Transfers\<close>

text \<open>The binding of an Ethereum address to an address of the chain.\<close>

definition getBindingKtoAddress :: "('d, 't, 's, 'z) sys_scheme \<Rightarrow> 't \<Rightarrow> caddr \<Rightarrow> err + addr" where
  "getBindingKtoAddress S t ethAddr = bindE (bg_mget (KV S) t BindingKey ethAddr) (\<lambda>dat. NewFromBytes dat)"

text \<open>
  \<open>setAccount\<close>. The withdrawal branch reads the binding of the sender from the committed database;
  \<open>cmaddr.Hex()\<close> is turned back to the address it came from. \<open>defaultAmount\<close> is the variadic
  parameter; \<open>defaultAmount[0]\<close> of an empty one is a run-time panic.
\<close>

definition setAccount_withdraw ::
    "('d, 't, 's, 'z) sys_scheme \<Rightarrow> FinishedTransaction \<Rightarrow> (('d, 's) chain, unit) M" where
  "setAccount_withdraw S tx =
     bindM (liftE (NewCommonAddr S (From tx))) (\<lambda>cmaddr.
     bindM (readM (\<lambda>c. getBindingKtoAddress S (kv_new (KV S) (db c)) cmaddr)) (\<lambda>kaddr.
     bindM (readM (\<lambda>c. getAvailableBalance S (sdb c) kaddr)) (\<lambda>fromBalance.
     thenM (failIf (fromBalance < Amount tx + GasUsed tx) (Err ''fromBalance insufficient''))
    (bindM (readM (\<lambda>c. getBalance S (sdb c) (To tx))) (\<lambda>toBalance.
     thenM (failIf (fromBalance < Amount tx + GasUsed tx) (Err ''not sufficient funds''))
    (let fromBalance = fromBalance - (Amount tx + GasUsed tx) in
     thenM (failIf (MAXUINT64 - toBalance - GasUsed tx < Amount tx) (Err ''amount is too large''))
    (let toBalance = toBalance + Amount tx in
     thenM (zoomM sdb (\<lambda>s. sdb_update (\<lambda>_. s)) (setBalance S kaddr (Uint64ToBigInt fromBalance)))
           (zoomM sdb (\<lambda>s. sdb_update (\<lambda>_. s)) (setBalance S (To tx) (Uint64ToBigInt toBalance))))))))))"

definition setAccount_fee :: "('d, 't, 's, 'z) sys_scheme \<Rightarrow> FinishedTransaction \<Rightarrow> ('s, unit) M" where
  "setAccount_fee S tx =
     bindM (readM (\<lambda>s. getBalance S s (From tx))) (\<lambda>fromBalance.
     thenM (failIf (fromBalance < GasUsed tx) (Err ''not sufficient funds''))
    (thenM (failIf (MAXUINT64 - fromBalance < GasUsed tx) (Err ''gas is too large''))
    (setBalance S (From tx) (Uint64ToBigInt (fromBalance - GasUsed tx)))))"

definition setAccount_break ::
    "('d, 't, 's, 'z) sys_scheme \<Rightarrow> FinishedTransaction \<Rightarrow> u64 list \<Rightarrow> ('s, unit) M" where
  "setAccount_break S tx defaultAmount =
     bindM (readM (\<lambda>s. getBalance S s (From tx))) (\<lambda>frBalance.
     thenM (failIf (Amount tx \<noteq> 0) (Err ''Amount Expected 0''))
    (case defaultAmount of [] \<Rightarrow> raiseM (Panic ''index out of range'') | amount # _ \<Rightarrow>
     thenM (failIf (frBalance < amount + GasUsed tx) (Err ''availableBalance insufficient''))
    (setBalance S (From tx) (Uint64ToBigInt (frBalance - amount - GasUsed tx)))))"

definition setAccount_transfer :: "('d, 't, 's, 'z) sys_scheme \<Rightarrow> FinishedTransaction \<Rightarrow> ('s, unit) M" where
  "setAccount_transfer S tx =
     bindM (readM (\<lambda>s. getBalance S s (From tx))) (\<lambda>fromBalance.
     bindM (readM (\<lambda>s. getBalance S s (To tx))) (\<lambda>toBalance.
     thenM (failIf (fromBalance < Amount tx + GasUsed tx) (Err ''not sufficient funds''))
    (let fromBalance = fromBalance - (Amount tx + GasUsed tx) in
     thenM (failIf (MAXUINT64 - toBalance - GasUsed tx < Amount tx) (Err ''amount is too large''))
    (let toBalance = toBalance + Amount tx in
     thenM (setBalance S (From tx) (Uint64ToBigInt fromBalance))
           (setBalance S (To tx) (Uint64ToBigInt toBalance))))))"

definition setAccount ::
    "('d, 't, 's, 'z) sys_scheme \<Rightarrow> FinishedTransaction \<Rightarrow> u64 list \<Rightarrow> (('d, 's) chain, unit) M" where
  "setAccount S tx defaultAmount =
     (if Type tx = WithdrawToEthTransaction then setAccount_withdraw S tx
      else zoomM sdb (\<lambda>s. sdb_update (\<lambda>_. s))
       (thenM (if Type tx \<noteq> PledgeTrasnaction then
                 bindM (readM (\<lambda>s. getAvailableBalance S s (From tx))) (\<lambda>availableBalance.
                   failIf (availableBalance < Amount tx + GasUsed tx) (Err ''availableBalance insufficient''))
               else retM ())
        (if From tx = To tx \<or> IsPledgeTrasnaction tx \<or> IsEvmContractTransaction tx then setAccount_fee S tx
         else if IsPledgeBreakTransaction tx then setAccount_break S tx defaultAmount
         else setAccount_transfer S tx)))"

definition setToAccount :: "('d, 't, 's, 'z) sys_scheme \<Rightarrow> 'y Transaction_scheme \<Rightarrow> ('s, unit) M" where
  "setToAccount S tx =
     bindM (readM (\<lambda>s. getBalance S s (To tx))) (\<lambda>toBalance.
     thenM (failIf (MAXUINT64 - Amount tx < toBalance) (Err ''not sufficient funds''))
           (setBalance S (To tx) (Uint64ToBigInt (toBalance + Amount tx))))"

definition setMinerFee :: "('d, 't, 's, 'z) sys_scheme \<Rightarrow> addr \<Rightarrow> u64 \<Rightarrow> ('s, unit) M" where
  "setMinerFee S to gasAmount =
     bindM (readM (\<lambda>s. getBalance S s to)) (\<lambda>toBalance.
     thenM (failIf (MAXUINT64 - toBalance < gasAmount) (Err ''amount is too large''))
           (setBalance S to (Uint64ToBigInt (toBalance + gasAmount))))"

section \<open>Commits\<close>

definition factCommit :: "('d, 't, 's, 'z) sys_scheme \<Rightarrow> bool \<Rightarrow> (('d, 's) chain, chash) M" where
  "factCommit S deleteEmptyObjects =
     bindM (zoomM sdb (\<lambda>s. sdb_update (\<lambda>_. s)) (sdb_Commit (SD S) deleteEmptyObjects)) (\<lambda>ha.
     thenM (\<lambda>c. zoomM db (\<lambda>d. db_update (\<lambda>_. d)) (trie_Commit (SD S) ha (sdb c)) c)
           (retM ha))"

text \<open>\<open>fakeCommit\<close> commits a copy: the account state of the chain is not touched.\<close>

definition fakeCommit :: "('d, 't, 's, 'z) sys_scheme \<Rightarrow> bool \<Rightarrow> (('d, 's) chain, chash) M" where
  "fakeCommit S deleteEmptyObjects = (\<lambda>c.
     case factCommit S deleteEmptyObjects c of (r, c') \<Rightarrow> (r, c'\<lparr>sdb := sdb c\<rparr>))"

definition fakeCommit1 :: "('d, 't, 's, 'z) sys_scheme \<Rightarrow> bool \<Rightarrow> (('d, 's) chain, chash) M" where
  "fakeCommit1 S deleteEmptyObjects =
     zoomM sdb (\<lambda>s. sdb_update (\<lambda>_. s)) (sdb_Commit (SD S) deleteEmptyObjects)"

definition getSnapRoot :: "('d, 't, 's, 'z) sys_scheme \<Rightarrow> 'd \<Rightarrow> err + chash" where
  "getSnapRoot S d =
     (case bgStore_Get (KV S) d SnapRootKey of
        Inl e \<Rightarrow> if e = NotExist then Inr (replicate 32 0) else Inl e
      | Inr sr \<Rightarrow> Inr (BytesToHash S sr))"

section \<open>Laws of the account operations\<close>

text \<open>The balance of an account as the number it stands for, and the money in a set of accounts.\<close>

definition bal :: "('d, 't, 's, 'z) sys_scheme \<Rightarrow> 's \<Rightarrow> caddr \<Rightarrow> nat" where
  "bal S s a = unat (big_Uint64 (GetBalance (SD S) s a))"

definition funds :: "('d, 't, 's, 'z) sys_scheme \<Rightarrow> 's \<Rightarrow> caddr set \<Rightarrow> nat" where
  "funds S s A = (\<Sum>a\<in>A. bal S s a)"

text \<open>Where the frozen quotas of an account live.\<close>

definition all_key :: "('z) env_scheme \<Rightarrow> caddr \<Rightarrow> caddr" where
  "all_key E a = commonAddrToStoreAddr E a FreezeKey"

definition single_key :: "('z) env_scheme \<Rightarrow> caddr \<Rightarrow> addr \<Rightarrow> caddr" where
  "single_key E a to = commonAddrToStoreAddr E (all_key E a) to"

lemma Uint64ToBigInt_unat: "Uint64ToBigInt v = int (unat v)"
  by (simp add: Uint64ToBigInt_def)

lemma big_plus: "unat a + unat b < 2 ^ 64 \<Longrightarrow> Uint64ToBigInt (a + b) = int (unat a + unat b)"
  by (simp add: Uint64ToBigInt_unat unat_plus_u64)

lemma big_minus: "unat b \<le> unat a \<Longrightarrow> Uint64ToBigInt (a - b) = int (unat a - unat b)"
  by (simp add: Uint64ToBigInt_unat unat_minus_u64 word_le_nat_alt)

lemma unat_big_Uint64_int [simp]: "n < 2 ^ 64 \<Longrightarrow> unat (big_Uint64 (int n)) = n"
  by (simp add: big_Uint64_def unat_of_nat_u64)

lemma bal_lt: "bal S s a < 18446744073709551616"
  by (simp add: bal_def unat_lt_u64)

lemma getBalance_iff:
  "getBalance S s a = Inr v \<longleftrightarrow> (\<exists>c. NewCommonAddr S a = Inr c \<and> v = big_Uint64 (GetBalance (SD S) s c))"
  by (auto simp: getBalance_def monad_ok)

lemma getAllFreezeBalance_iff:
  "getAllFreezeBalance S s a = Inr v \<longleftrightarrow>
     (\<exists>c. NewCommonAddr S a = Inr c \<and> v = big_Uint64 (GetBalance (SD S) s (all_key S c)))"
  by (auto simp: getAllFreezeBalance_def monad_ok all_key_def)

lemma getSingleFreezeBalance_iff:
  "getSingleFreezeBalance S s a b = Inr v \<longleftrightarrow>
     (\<exists>c. NewCommonAddr S a = Inr c \<and> v = big_Uint64 (GetBalance (SD S) s (single_key S c b)))"
  by (auto simp: getSingleFreezeBalance_def monad_ok all_key_def single_key_def Let_def)

lemma setBalance_iff:
  "setBalance S a v s = (Inr u, s') \<longleftrightarrow> (\<exists>c. NewCommonAddr S a = Inr c \<and> s' = SetBalance (SD S) c v s)"
  by (auto simp: setBalance_def monad_ok)

lemma setBalance_run: "NewCommonAddr S a = Inr c \<Longrightarrow> setBalance S a v s = (Inr (), SetBalance (SD S) c v s)"
  by (simp add: setBalance_def monad_simps)

lemma getAvailableBalance_iff:
  "getAvailableBalance S s a = Inr v \<longleftrightarrow>
     (\<exists>c. NewCommonAddr S a = Inr c \<and> bal S s (all_key S c) \<le> bal S s c \<and>
          unat v = bal S s c - bal S s (all_key S c))"
proof (cases "NewCommonAddr S a")
  case (Inr c)
  let ?b = "big_Uint64 (GetBalance (SD S) s c)" and ?f = "big_Uint64 (GetBalance (SD S) s (all_key S c))"
  have "getAvailableBalance S s a = Inr v \<longleftrightarrow> ?f \<le> ?b \<and> \<not> MAXUINT64 - (?b - ?f) < ?f \<and> v = ?b - ?f"
    using Inr by (auto simp: getAvailableBalance_def getBalance_def getAllFreezeBalance_def monad_simps Let_def
        all_key_def not_less)
  also have "\<dots> \<longleftrightarrow> ?f \<le> ?b \<and> v = ?b - ?f"
    using unat_lt_u64 [of ?b] by (auto simp: MAX_minus_less_iff unat_minus_u64 word_le_nat_alt)
  also have "\<dots> \<longleftrightarrow> unat ?f \<le> unat ?b \<and> unat v = unat ?b - unat ?f"
    by (metis unat_minus_u64 word_le_nat_alt word_unat_eq_iff)
  finally show ?thesis
    using Inr by (simp add: bal_def)
qed (simp add: getAvailableBalance_def getBalance_def monad_simps)

lemma total_le: "finite A \<Longrightarrow> a \<in> A \<Longrightarrow> bal S s a \<le> funds S s A"
  by (simp add: funds_def member_le_sum)

context statedb
begin

lemma bal_set [simp]: "bal S (SetBalance (SD S) a v s) b = (if b = a then unat (big_Uint64 v) else bal S s b)"
  by (simp add: bal_def GetBalance_SetBalance)

lemma bal_setNonce [simp]: "bal S (sdb_SetNonce (SD S) a n s) = bal S s"
  by (simp add: bal_def GetBalance_SetNonce fun_eq_iff)

lemma total_set:
  assumes "finite A" and "a \<in> A"
  shows "funds S (SetBalance (SD S) a v s) A + bal S s a = funds S s A + unat (big_Uint64 v)"
proof -
  have "(\<Sum>b\<in>A - {a}. bal S (SetBalance (SD S) a v s) b) = (\<Sum>b\<in>A - {a}. bal S s b)"
    by (rule sum.cong) auto
  then show ?thesis
    using assms by (simp add: funds_def sum.remove [of A a])
qed

lemma setMinerFee_ok:
  "setMinerFee S to gas s = (Inr u, s') \<longleftrightarrow>
     (\<exists>m. NewCommonAddr S to = Inr m \<and> bal S s m + unat gas < 2 ^ 64 \<and>
        s' = SetBalance (SD S) m (int (bal S s m + unat gas)) s)"
proof (cases "NewCommonAddr S to")
  case (Inr m)
  let ?b = "big_Uint64 (GetBalance (SD S) s m)"
  have "Uint64ToBigInt (?b + gas) = int (bal S s m + unat gas)" if "\<not> MAXUINT64 - ?b < gas"
    using that by (simp add: MAX_minus_less_iff big_plus bal_def del: of_nat_add)
  then show ?thesis
    using Inr by (auto simp: setMinerFee_def getBalance_def monad_simps monad_ok setBalance_iff failIf_run
        MAX_minus_less_iff bal_def)
qed (auto simp: setMinerFee_def getBalance_def monad_simps monad_ok)

lemma setToAccount_ok:
  "setToAccount S tx s = (Inr u, s') \<longleftrightarrow>
     (\<exists>m. NewCommonAddr S (To tx) = Inr m \<and> bal S s m + unat (Amount tx) < 2 ^ 64 \<and>
        s' = SetBalance (SD S) m (int (bal S s m + unat (Amount tx))) s)"
proof (cases "NewCommonAddr S (To tx)")
  case (Inr m)
  let ?b = "big_Uint64 (GetBalance (SD S) s m)"
  have "Uint64ToBigInt (?b + Amount tx) = int (bal S s m + unat (Amount tx))" if "\<not> MAXUINT64 - Amount tx < ?b"
    using that by (simp add: MAX_minus_less_iff big_plus bal_def del: of_nat_add)
  then show ?thesis
    using Inr by (auto simp: setToAccount_def getBalance_def monad_simps monad_ok setBalance_iff failIf_run
        MAX_minus_less_iff bal_def)
qed (auto simp: setToAccount_def getBalance_def monad_simps monad_ok)

lemma transfer_guards:
  assumes "unat tb + unat gas < 2 ^ 64"
  shows "\<not> fb < amt + gas \<and> \<not> MAXUINT64 - tb - gas < amt \<longleftrightarrow>
    unat amt + unat gas \<le> unat (fb :: u64) \<and> unat tb + unat amt + unat gas < 2 ^ 64"
proof -
  have eq: "MAXUINT64 - tb - gas = MAXUINT64 - (tb + gas)"
    by simp
  have to: "MAXUINT64 - tb - gas < amt \<longleftrightarrow> 2 ^ 64 \<le> unat tb + unat gas + unat amt"
    unfolding eq using assms by (simp add: MAX_minus_less_iff unat_plus_u64)
  show ?thesis
  proof (cases "unat amt + unat gas < 2 ^ 64")
    case True
    then have "fb < amt + gas \<longleftrightarrow> unat fb < unat amt + unat gas"
      by (simp add: word_less_nat_alt unat_plus_u64)
    with to show ?thesis by auto
  next
    case False
    with to unat_lt_u64 [of fb] show ?thesis by auto
  qed
qed

lemma setAccount_transfer_ok:
  assumes "NewCommonAddr S (From tx) = Inr f" and "NewCommonAddr S (To tx) = Inr t"
    and "bal S s t + unat (GasUsed tx) < 2 ^ 64"
  shows "setAccount_transfer S tx s = (Inr u, s') \<longleftrightarrow>
    unat (Amount tx) + unat (GasUsed tx) \<le> bal S s f \<and>
    bal S s t + unat (Amount tx) + unat (GasUsed tx) < 2 ^ 64 \<and>
    s' = SetBalance (SD S) t (int (bal S s t + unat (Amount tx)))
           (SetBalance (SD S) f (int (bal S s f - unat (Amount tx) - unat (GasUsed tx))) s)"
proof -
  let ?fb = "big_Uint64 (GetBalance (SD S) s f)" and ?tb = "big_Uint64 (GetBalance (SD S) s t)"
  let ?a = "Amount tx" and ?g = "GasUsed tx"
  have run: "setAccount_transfer S tx s = (Inr u, s') \<longleftrightarrow>
      (\<not> ?fb < ?a + ?g \<and> \<not> MAXUINT64 - ?tb - ?g < ?a) \<and>
      s' = SetBalance (SD S) t (Uint64ToBigInt (?tb + ?a)) (SetBalance (SD S) f (Uint64ToBigInt (?fb - (?a + ?g))) s)"
    using assms(1,2)
    by (auto simp: setAccount_transfer_def getBalance_def monad_simps setBalance_run Let_def)
  have vals: "Uint64ToBigInt (?tb + ?a) = int (bal S s t + unat ?a)"
      "Uint64ToBigInt (?fb - (?a + ?g)) = int (bal S s f - unat ?a - unat ?g)"
    if "unat ?a + unat ?g \<le> unat ?fb" "unat ?tb + unat ?a + unat ?g < 2 ^ 64"
    using that by (simp_all add: big_plus big_minus unat_plus_u64 bal_def del: of_nat_add)
  have "(\<not> ?fb < ?a + ?g \<and> \<not> MAXUINT64 - ?tb - ?g < ?a) \<longleftrightarrow>
      unat ?a + unat ?g \<le> unat ?fb \<and> unat ?tb + unat ?a + unat ?g < 2 ^ 64"
    by (rule transfer_guards) (use assms(3) in \<open>simp add: bal_def\<close>)
  with vals show ?thesis
    unfolding run by (auto simp: bal_def)
qed

lemma setAccount_fee_ok:
  assumes "NewCommonAddr S (From tx) = Inr f"
  shows "setAccount_fee S tx s = (Inr u, s') \<longleftrightarrow>
    unat (GasUsed tx) \<le> bal S s f \<and> bal S s f + unat (GasUsed tx) < 2 ^ 64 \<and>
    s' = SetBalance (SD S) f (int (bal S s f - unat (GasUsed tx))) s"
proof -
  let ?b = "big_Uint64 (GetBalance (SD S) s f)" and ?g = "GasUsed tx"
  have "setAccount_fee S tx s = (Inr u, s') \<longleftrightarrow> \<not> ?b < ?g \<and> \<not> MAXUINT64 - ?b < ?g \<and>
      s' = SetBalance (SD S) f (Uint64ToBigInt (?b - ?g)) s"
    using assms by (auto simp: setAccount_fee_def getBalance_def monad_simps setBalance_run)
  moreover have "\<not> ?b < ?g \<longleftrightarrow> unat ?g \<le> unat ?b" "\<not> MAXUINT64 - ?b < ?g \<longleftrightarrow> unat ?b + unat ?g < 2 ^ 64"
    by (simp_all add: word_less_nat_alt [of ?b] MAX_minus_less_iff not_less not_le)
  ultimately show ?thesis
    by (auto simp: bal_def big_minus simp del: of_nat_diff)
qed

text \<open>The types a block executes as a plain transfer between two accounts.\<close>

abbreviation plain_transfer :: "FinishedTransaction \<Rightarrow> bool" where
  "plain_transfer tx \<equiv> From tx \<noteq> To tx \<and>
     Type tx \<notin> {WithdrawToEthTransaction, PledgeTrasnaction, EvmContractTransaction, PledgeBreakTransaction}"

lemma setAccount_plain_ok:
  assumes "NewCommonAddr S (From tx) = Inr f" and "NewCommonAddr S (To tx) = Inr t"
    and "plain_transfer tx" and "bal S (sdb c) t + unat (GasUsed tx) < 2 ^ 64"
  shows "setAccount S tx da c = (Inr u, c') \<longleftrightarrow>
    bal S (sdb c) (all_key S f) + unat (Amount tx) + unat (GasUsed tx) \<le> bal S (sdb c) f \<and>
    bal S (sdb c) t + unat (Amount tx) + unat (GasUsed tx) < 2 ^ 64 \<and>
    c' = c\<lparr>sdb := SetBalance (SD S) t (int (bal S (sdb c) t + unat (Amount tx)))
           (SetBalance (SD S) f (int (bal S (sdb c) f - unat (Amount tx) - unat (GasUsed tx))) (sdb c))\<rparr>"
proof -
  let ?s = "sdb c" and ?a = "Amount tx" and ?g = "GasUsed tx"
  let ?new = "SetBalance (SD S) t (int (bal S ?s t + unat ?a)) (SetBalance (SD S) f (int (bal S ?s f - unat ?a - unat ?g)) ?s)"
  have "setAccount S tx da c = (Inr u, c') \<longleftrightarrow>
      (\<exists>v. getAvailableBalance S ?s (From tx) = Inr v \<and> \<not> v < ?a + ?g) \<and>
      (\<exists>s'. setAccount_transfer S tx ?s = (Inr u, s') \<and> c' = c\<lparr>sdb := s'\<rparr>)"
    using assms(3)
    by (auto simp: setAccount_def monad_ok is_tx_defs)
  also have "\<dots> \<longleftrightarrow>
      (\<exists>v. bal S ?s (all_key S f) \<le> bal S ?s f \<and> unat v = bal S ?s f - bal S ?s (all_key S f) \<and> \<not> v < ?a + ?g) \<and>
      unat ?a + unat ?g \<le> bal S ?s f \<and> bal S ?s t + unat ?a + unat ?g < 2 ^ 64 \<and> c' = c\<lparr>sdb := ?new\<rparr>"
    using assms(1,2) by (auto simp: getAvailableBalance_iff setAccount_transfer_ok [OF assms(1,2,4)])
  also have "\<dots> \<longleftrightarrow>
      bal S ?s (all_key S f) + unat ?a + unat ?g \<le> bal S ?s f \<and>
      bal S ?s t + unat ?a + unat ?g < 2 ^ 64 \<and> c' = c\<lparr>sdb := ?new\<rparr>"
  proof -
    have ex: "\<exists>v :: u64. unat v = bal S ?s f - bal S ?s (all_key S f)"
      using bal_lt [of S ?s f] unat_of_nat_u64 by (metis less_imp_diff_less)
    have "\<not> v < ?a + ?g \<longleftrightarrow> unat ?a + unat ?g \<le> unat v" if "unat ?a + unat ?g < 2 ^ 64" for v :: u64
      using that by (simp add: word_less_nat_alt unat_plus_u64 not_less)
    with ex show ?thesis
      by (smt (verit, best) add.assoc add.commute add_leD1 le_add_diff_inverse le_diff_conv nat_add_left_cancel_le
          order_le_less_trans le_add1 le_add2 diff_le_self le_diff_conv2)
  qed
  finally show ?thesis .
qed

end

context statedb
begin

lemma setAccount_plain_effect:
  assumes "NewCommonAddr S (From tx) = Inr f" and "NewCommonAddr S (To tx) = Inr t" and "f \<noteq> t"
    and "plain_transfer tx" and "bal S (sdb c) t + unat (GasUsed tx) < 2 ^ 64"
  shows "(\<exists>c'. setAccount S tx [] c = (Inr (), c')) \<longleftrightarrow>
      bal S (sdb c) (all_key S f) + unat (Amount tx) + unat (GasUsed tx) \<le> bal S (sdb c) f \<and>
      bal S (sdb c) t + unat (Amount tx) + unat (GasUsed tx) < 2 ^ 64"
    and "setAccount S tx [] c = (Inr (), c') \<Longrightarrow>
      bal S (sdb c') f + unat (Amount tx) + unat (GasUsed tx) = bal S (sdb c) f \<and>
      bal S (sdb c') t = bal S (sdb c) t + unat (Amount tx) \<and>
      (\<forall>a. a \<noteq> f \<and> a \<noteq> t \<longrightarrow> bal S (sdb c') a = bal S (sdb c) a) \<and>
      sdb_GetNonce (SD S) (sdb c') = sdb_GetNonce (SD S) (sdb c) \<and> db c' = db c"
proof -
  note ok = setAccount_plain_ok [OF assms(1,2,4,5)]
  show "(\<exists>c'. setAccount S tx [] c = (Inr (), c')) \<longleftrightarrow>
      bal S (sdb c) (all_key S f) + unat (Amount tx) + unat (GasUsed tx) \<le> bal S (sdb c) f \<and>
      bal S (sdb c) t + unat (Amount tx) + unat (GasUsed tx) < 2 ^ 64"
    unfolding ok by auto
  assume "setAccount S tx [] c = (Inr (), c')"
  then show "bal S (sdb c') f + unat (Amount tx) + unat (GasUsed tx) = bal S (sdb c) f \<and>
      bal S (sdb c') t = bal S (sdb c) t + unat (Amount tx) \<and>
      (\<forall>a. a \<noteq> f \<and> a \<noteq> t \<longrightarrow> bal S (sdb c') a = bal S (sdb c) a) \<and>
      sdb_GetNonce (SD S) (sdb c') = sdb_GetNonce (SD S) (sdb c) \<and> db c' = db c"
    unfolding ok using assms(3) bal_lt [of S "sdb c" f]
    by (auto simp: GetNonce_SetBalance fun_eq_iff simp del: of_nat_add of_nat_diff)
qed

lemma freeze_tail:
  assumes "NewCommonAddr S from = Inr f" and "single_key S f to \<noteq> f" and "all_key S f \<noteq> f"
  shows "thenM (ignoreM (setSingleFreezeBalance S from to v)) (thenM (ignoreM (setAllFreezeBalance S from w))
      (bindM (\<lambda>s. (Inr (case getBalance S s from of Inl _ \<Rightarrow> 0 | Inr b \<Rightarrow> b), s)) (\<lambda>fromBalance.
       thenM (failIf (MAXUINT64 - gas < fromBalance) (Err ''freezeBal is too large''))
             (setBalance S from (Uint64ToBigInt (fromBalance - gas)))))) s =
    (let b = big_Uint64 (GetBalance (SD S) s f);
         s1 = SetBalance (SD S) (all_key S f) w (SetBalance (SD S) (single_key S f to) v s)
     in if MAXUINT64 - gas < b then (Inl (Err ''freezeBal is too large''), s1)
        else (Inr (), SetBalance (SD S) f (Uint64ToBigInt (b - gas)) s1))"
  using assms
  by (simp add: monad_simps setSingleFreezeBalance_def setAllFreezeBalance_def getBalance_def setBalance_run
      all_key_def single_key_def Let_def GetBalance_SetBalance)

lemma setFreezeAccount_unlock:
  assumes "NewCommonAddr S from = Inr f" and "single_key S f to \<noteq> f" and "all_key S f \<noteq> f"
    and "code \<noteq> 1"
  shows "setFreezeAccount S from to amt gas code s = (Inr u, s') \<longleftrightarrow>
    bal S s (all_key S f) + unat gas \<le> bal S s f \<and> unat amt \<le> bal S s (single_key S f to) \<and>
    unat amt \<le> bal S s (all_key S f) \<and> bal S s f + unat gas < 2 ^ 64 \<and>
    s' = SetBalance (SD S) f (int (bal S s f - unat gas))
          (SetBalance (SD S) (all_key S f) (int (bal S s (all_key S f) - unat amt))
          (SetBalance (SD S) (single_key S f to) (int (bal S s (single_key S f to) - unat amt)) s))"
proof -
  let ?b = "\<lambda>a. big_Uint64 (GetBalance (SD S) s a)"
  let ?f = "?b f" and ?k = "?b (all_key S f)" and ?j = "?b (single_key S f to)"
  have av: "(\<exists>v. getAvailableBalance S s from = Inr v \<and> \<not> v < gas) \<longleftrightarrow> unat ?k + unat gas \<le> unat ?f"
  proof -
    have "\<exists>v :: u64. unat v = unat ?f - unat ?k"
      using unat_lt_u64 [of ?f] unat_of_nat_u64 by (metis less_imp_diff_less)
    then show ?thesis
      using assms(1) by (auto simp: getAvailableBalance_iff bal_def word_less_nat_alt not_less)
  qed
  have "setFreezeAccount S from to amt gas code s = (Inr u, s') \<longleftrightarrow>
      (\<exists>v. getAvailableBalance S s from = Inr v \<and> \<not> v < gas) \<and> \<not> ?j < amt \<and> \<not> ?k < amt \<and> \<not> MAXUINT64 - gas < ?f \<and>
      s' = SetBalance (SD S) f (Uint64ToBigInt (?f - gas))
            (SetBalance (SD S) (all_key S f) (Uint64ToBigInt (?k - amt))
            (SetBalance (SD S) (single_key S f to) (Uint64ToBigInt (?j - amt)) s))"
    using assms(1,4) unfolding setFreezeAccount_def
    by (auto simp: monad_ok getSingleFreezeBalance_iff getAllFreezeBalance_iff Let_def
        freeze_tail [OF assms(1-3), unfolded Let_def] split: if_splits)
  moreover have "\<not> MAXUINT64 - gas < ?f \<longleftrightarrow> unat ?f + unat gas < 2 ^ 64"
    by (auto simp: MAX_minus_less_iff)
  moreover have "\<not> ?j < amt \<longleftrightarrow> unat amt \<le> unat ?j" "\<not> ?k < amt \<longleftrightarrow> unat amt \<le> unat ?k"
    by (auto simp: word_less_nat_alt)
  ultimately show ?thesis
    unfolding av by (auto simp: bal_def big_minus simp del: of_nat_diff)
qed

lemma setFreezeAccount_lock:
  assumes "NewCommonAddr S from = Inr f" and "single_key S f to \<noteq> f" and "all_key S f \<noteq> f"
    and "bal S s (all_key S f) + unat amt + unat gas \<le> bal S s f"
    and "bal S s (single_key S f to) + unat amt + unat gas < 2 ^ 64" and "bal S s f + unat gas < 2 ^ 64"
  shows "setFreezeAccount S from to amt gas 1 s = (Inr (), SetBalance (SD S) f (int (bal S s f - unat gas))
          (SetBalance (SD S) (all_key S f) (int (bal S s (all_key S f) + unat amt))
          (SetBalance (SD S) (single_key S f to) (int (bal S s (single_key S f to) + unat amt)) s)))"
proof -
  let ?b = "\<lambda>a. big_Uint64 (GetBalance (SD S) s a)"
  let ?f = "?b f" and ?k = "?b (all_key S f)" and ?j = "?b (single_key S f to)"
  have lt: "unat ?f < 2 ^ 64" using unat_lt_u64 [of ?f] by simp
  have "unat ?k \<le> unat ?f" using assms(4) by (simp add: bal_def)
  then obtain v where v: "getAvailableBalance S s from = Inr v" "unat v = unat ?f - unat ?k"
    using assms(1) unat_minus_u64 [of ?k ?f] by (auto simp: getAvailableBalance_iff bal_def word_le_nat_alt)
  have le: "unat ?k + unat amt + unat gas \<le> unat ?f" "unat ?j + unat amt + unat gas < 2 ^ 64"
      "unat ?f + unat gas < 2 ^ 64"
    using assms by (simp_all add: bal_def)
  then have "unat (v + gas) = unat v + unat gas"
    using v by (intro unat_plus_u64) simp
  then have g1: "\<not> v + gas < amt"
    using v le by (simp add: word_less_nat_alt)
  have g2: "\<not> MAXUINT64 - ?j - gas < amt" "\<not> MAXUINT64 - ?k - gas < amt"
    using transfer_guards [of ?j gas MAXUINT64 amt] transfer_guards [of ?k gas MAXUINT64 amt] le lt
    by (simp_all add: unat_MAXUINT64)
  have g3: "\<not> MAXUINT64 - gas < ?f"
    using le by (simp add: MAX_minus_less_iff)
  have vals: "Uint64ToBigInt (?j + amt) = int (unat ?j + unat amt)" "Uint64ToBigInt (?k + amt) = int (unat ?k + unat amt)"
      "Uint64ToBigInt (?f - gas) = int (unat ?f - unat gas)"
    using le lt by (simp_all add: big_plus big_minus del: of_nat_add of_nat_diff)
  show ?thesis
    unfolding setFreezeAccount_def
    using assms(1) v(1) g1 g2 g3 vals
    by (auto simp: monad_ok getSingleFreezeBalance_iff getAllFreezeBalance_iff Let_def
        freeze_tail [OF assms(1-3), unfolded Let_def] bal_def simp del: of_nat_add of_nat_diff)
qed

lemma setNonce_ok:
  "setNonce S a n s = (Inr u, s') \<longleftrightarrow>
     (\<exists>c. NewCommonAddr S a = Inr c \<and> getNonce S s a = Inr (n - 1) \<and> s' = sdb_SetNonce (SD S) c n s)"
  by (cases "NewCommonAddr S a")
    (auto simp: setNonce_def getNonce_def monad_simps Let_def diff_eq_eq split: if_splits)

end

section \<open>A state database in memory\<close>

text \<open>
  An instance of the contract: balances and nonces in association lists. Its commit keeps the state
  and names it by a digest of the balances.
\<close>

type_synonym memstate = "(caddr \<times> int) list \<times> (caddr \<times> u64) list"

definition mem_sdb :: "(memdb, memstate) sdb_ops" where
  "mem_sdb = \<lparr>
     GetBalance = (\<lambda>s a. case map_of (fst s) a of None \<Rightarrow> 0 | Some v \<Rightarrow> v),
     SetBalance = (\<lambda>a v s. (AList.update a v (fst s), snd s)),
     sdb_GetNonce = (\<lambda>s a. case map_of (snd s) a of None \<Rightarrow> 0 | Some v \<Rightarrow> v),
     sdb_SetNonce = (\<lambda>a v s. (fst s, AList.update a v (snd s))),
     sdb_GetCode = (\<lambda>s a. []), sdb_SetCode = (\<lambda>a v s. s), sdb_Prepare = (\<lambda>h i s. s),
     sdb_GetLogs = (\<lambda>s t b. []),
     sdb_Commit = (\<lambda>b s. (Inr (pad_block 32 (concat (map (\<lambda>(a, v). a @ E64func (word_of_int v)) (fst s)))), s)),
     trie_Commit = (\<lambda>h s d. (Inr (), d)),
     state_New = (\<lambda>h d. Inr ([], [])),
     vm_Create = (\<lambda>cfg code s. (([], replicate 20 0, c_GasLimit cfg, None), s)),
     vm_Call = (\<lambda>cfg a inp s. (([], c_GasLimit cfg, None), s))\<rparr>"

definition demo_sys :: "(memdb, memtx, memstate) sys" where
  "demo_sys = env.extend demo_env \<lparr>KV = mem_kv, SD = mem_sdb, now = 0,
     json_DecodeEvm = (\<lambda>_. Inl (Err ''json'')), json_EncodeEvm = (\<lambda>_. Inl (Err ''json'')),
     eth_value = (\<lambda>_. Inl (Err ''rlp'')), json_DecodeTxIndex = (\<lambda>_. Inl (Err ''json''))\<rparr>"

lemma demo_sys_simps [simp]:
  "KV demo_sys = mem_kv" "SD demo_sys = mem_sdb" "network demo_sys = 1" "sha1 demo_sys = pad_block 20"
  "sha256 demo_sys = pad_block 32" "sha3_256 demo_sys = pad_block 32"
  "BytesToAddress demo_sys = BytesToAddress demo_env" "HexToAddress demo_sys = HexToAddress demo_env"
  "BytesToHash demo_sys = BytesToHash demo_env" "cbg_write demo_sys = rfc_write" "cbg_read demo_sys = rfc_read"
  by (simp_all add: demo_sys_def demo_env_def env.defs)

interpretation demo_state: statedb demo_sys
  by unfold_locales (auto simp: mem_sdb_def update_conv' split: option.splits)

interpretation demo_cbor: cbor demo_sys
  by unfold_locales (auto simp: rfc_read_write, code_simp)

section \<open>Properties\<close>

text \<open>
  C23. A transfer between two accounts is exact. With a receiver whose balance plus the gas stays
  below two to the 64, \<open>setAccount\<close> accepts a transfer precisely when the sender's balance covers
  the amount, the gas and everything the sender has frozen, and the receiver's balance does not
  overflow. It then takes amount and gas from the sender, gives the amount to the receiver, and
  leaves every other balance, every nonce and the database alone; frozen coins are never spent.
\<close>

theorem transfer_exact:
  assumes "statedb S"
    and "NewCommonAddr S (From tx) = Inr f" and "NewCommonAddr S (To tx) = Inr t" and "f \<noteq> t"
    and "From tx \<noteq> To tx" and "Type tx \<in> {TransferTransaction, MortgageTransaction, IsTokenTransaction_ty}"
    and "bal S (sdb c) t + unat (GasUsed tx) < 2 ^ 64"
  shows "((\<exists>c'. setAccount S tx [] c = (Inr (), c')) \<longleftrightarrow>
      bal S (sdb c) (all_key S f) + unat (Amount tx) + unat (GasUsed tx) \<le> bal S (sdb c) f \<and>
      bal S (sdb c) t + unat (Amount tx) + unat (GasUsed tx) < 2 ^ 64) \<and>
    (\<forall>c'. setAccount S tx [] c = (Inr (), c') \<longrightarrow>
      bal S (sdb c') f + unat (Amount tx) + unat (GasUsed tx) = bal S (sdb c) f \<and>
      bal S (sdb c') t = bal S (sdb c) t + unat (Amount tx) \<and>
      (\<forall>a. a \<noteq> f \<and> a \<noteq> t \<longrightarrow> bal S (sdb c') a = bal S (sdb c) a) \<and>
      sdb_GetNonce (SD S) (sdb c') = sdb_GetNonce (SD S) (sdb c) \<and> db c' = db c)"
proof -
  have "From tx \<noteq> To tx \<and>
      Type tx \<notin> {WithdrawToEthTransaction, PledgeTrasnaction, EvmContractTransaction, PledgeBreakTransaction}"
    using assms(5,6) by (elim insertE) (simp_all add: txtype_defs)
  from statedb.setAccount_plain_effect [OF assms(1,2,3,4) this assms(7)] show ?thesis
    by blast
qed

definition demo_chain :: "(memdb, memstate) chain" where
  "demo_chain = \<lparr>db = [], sdb = ([(replicate 20 1, 9000000)], []),
     evm = \<lparr>c_ChainID = 1, c_Difficulty = None, c_Time = 0, c_GasLimit = 0, c_GasPrice = 0, c_Value = 0,
       c_BlockNumber = 0, c_Coinbase = [], c_Origin = []\<rparr>,
     ChainCfg = \<lparr>ChainId = 1, NetworkId = 1, CfgGasLimit = 10000000, CfgGasPrice = 1\<rparr>\<rparr>"

definition demo_pay :: FinishedTransaction where
  "demo_pay = demo_tx\<lparr>To := 0 # replicate 20 2\<rparr>"

lemma demo_secp: "length b = 20 \<Longrightarrow> NewCommonAddr demo_sys (0 # b) = Inr b"
  by (simp add: NewCommonAddr_def Undef_def Protocol_def sigtype_defs demo_env_def)

lemma demo_store_key: "commonAddrToStoreAddr demo_sys a p = pad_block 20 (p @ a)"
  by (simp add: commonAddrToStoreAddr_def demo_env_def)

theorem transfer_exact_witness:
  "(\<exists>c'. setAccount demo_sys demo_pay [] demo_chain = (Inr (), c') \<and>
     bal demo_sys (sdb c') (replicate 20 2) = 500 \<and> bal demo_sys (sdb c') (replicate 20 1) = 6899500)"
proof -
  have addr: "NewCommonAddr demo_sys (From demo_pay) = Inr (replicate 20 1)"
      "NewCommonAddr demo_sys (To demo_pay) = Inr (replicate 20 2)"
    by (simp_all add: demo_pay_def demo_tx_def demo_secp)
  have ne: "replicate 20 1 \<noteq> (replicate 20 2 :: bytes)" "From demo_pay \<noteq> To demo_pay"
      "Type demo_pay \<in> {TransferTransaction, MortgageTransaction, IsTokenTransaction_ty}"
    by (code_simp, simp_all add: demo_pay_def demo_tx_def)
  have "pad_block 20 (FreezeKey @ replicate 20 1) \<noteq> replicate 20 1"
    by code_simp
  then have vals: "unat (Amount demo_pay) = 500" "unat (GasUsed demo_pay) = 2100000"
      "bal demo_sys (sdb demo_chain) (replicate 20 2) = 0" "bal demo_sys (sdb demo_chain) (replicate 20 1) = 9000000"
      "bal demo_sys (sdb demo_chain) (all_key demo_sys (replicate 20 1)) = 0"
    using ne(1) by (simp_all add: demo_store_key all_key_def demo_pay_def demo_tx_def bal_def mem_sdb_def demo_chain_def big_Uint64_def)
  show ?thesis
    using transfer_exact [OF demo_state.statedb_axioms addr ne, of demo_chain] vals by auto
qed

text \<open>
  C24. Replay protection. \<open>setNonce\<close>, which a transaction with nonce \<open>n\<close> calls with \<open>n + 1\<close>, succeeds
  exactly when \<open>n\<close> is the account's current nonce, where an account without one counts as 1. It then
  stores \<open>n + 1\<close> for that account, leaves the nonce of every other account and every balance as they
  were, and the same transaction is refused when it comes again. When it does not succeed the state is
  as before.
\<close>

theorem nonce_replay_protection:
  assumes "statedb S" and "NewCommonAddr S a = Inr c"
  shows "((\<exists>s'. setNonce S a (n + 1) s = (Inr (), s')) \<longleftrightarrow> getNonce S s a = Inr n) \<and>
    (getNonce S s a \<noteq> Inr n \<longrightarrow> setNonce S a (n + 1) s = (Inl (Err ''error nonce''), s)) \<and>
    (\<forall>s'. setNonce S a (n + 1) s = (Inr (), s') \<longrightarrow>
       (\<forall>c'. sdb_GetNonce (SD S) s' c' = (if c' = c then n + 1 else sdb_GetNonce (SD S) s c')) \<and> bal S s' = bal S s \<and>
       setNonce S a (n + 1) s' = (Inl (Err ''error nonce''), s'))"
proof -
  have run: "setNonce S a (n + 1) s = (if getNonce S s a = Inr n then (Inr (), sdb_SetNonce (SD S) c (n + 1) s)
      else (Inl (Err ''error nonce''), s))" for s
    using assms(2) by (simp add: setNonce_def getNonce_def monad_simps Let_def)
  have "getNonce S (sdb_SetNonce (SD S) c (n + 1) s) a = Inr (if n + 1 = 0 then 1 else n + 1)"
    using assms by (simp add: getNonce_def monad_simps statedb.GetNonce_SetNonce)
  then have again: "getNonce S (sdb_SetNonce (SD S) c (n + 1) s) a \<noteq> Inr n"
    by (auto split: if_splits)
  show ?thesis
    using again assms(1) by (simp add: run statedb.bal_setNonce statedb.GetNonce_SetNonce)
qed

theorem nonce_replay_protection_witness:
  "\<exists>s'. setNonce demo_sys (0 # replicate 20 1) 2 ([], []) = (Inr (), s') \<and> sdb_GetNonce (SD demo_sys) s' (replicate 20 1) = 2 \<and>
     setNonce demo_sys (0 # replicate 20 1) 2 s' = (Inl (Err ''error nonce''), s')"
proof -
  have c: "NewCommonAddr demo_sys (0 # replicate 20 1) = Inr (replicate 20 1)"
    by (simp add: demo_secp)
  have run: "setNonce demo_sys (0 # replicate 20 1) (1 + 1) ([], []) = (Inr (), [], [(replicate 20 1, 2)])"
    by (simp add: setNonce_def demo_secp monad_simps mem_sdb_def)
  show ?thesis
    using nonce_replay_protection [OF demo_state.statedb_axioms c, of 1 "([], [])"] run by simp
qed

text \<open>
  C29. Releasing frozen coins. An unlock succeeds exactly when the free balance covers the gas and
  neither quota (the one for this notary and the total) is smaller than the amount; it lowers both
  quotas by the amount and the balance by the gas, exactly, and changes no other account. What is
  available to the sender grows by the amount and shrinks by the gas.
\<close>

theorem unlock_exact:
  assumes "statedb S" and "NewCommonAddr S from = Inr f"
    and "distinct [f, all_key S f, single_key S f to]"
  shows "((\<exists>s'. setFreezeAccount S from to amt gas 0 s = (Inr (), s')) \<longleftrightarrow>
      bal S s (all_key S f) + unat gas \<le> bal S s f \<and> unat amt \<le> bal S s (single_key S f to) \<and>
      unat amt \<le> bal S s (all_key S f) \<and> bal S s f + unat gas < 2 ^ 64) \<and>
    (\<forall>s'. setFreezeAccount S from to amt gas 0 s = (Inr (), s') \<longrightarrow>
      bal S s' (single_key S f to) + unat amt = bal S s (single_key S f to) \<and>
      bal S s' (all_key S f) + unat amt = bal S s (all_key S f) \<and>
      bal S s' f + unat gas = bal S s f \<and>
      (\<forall>a. a \<notin> {f, all_key S f, single_key S f to} \<longrightarrow> bal S s' a = bal S s a) \<and>
      (\<exists>v v'. getAvailableBalance S s from = Inr v \<and> getAvailableBalance S s' from = Inr v' \<and>
         unat v' + unat gas = unat v + unat amt))"
proof -
  have ne: "single_key S f to \<noteq> f" "all_key S f \<noteq> f" "(0 :: int) \<noteq> 1"
    using assms(3) by auto
  note ok = statedb.setFreezeAccount_unlock [OF assms(1,2) ne]
  have "bal S s' (single_key S f to) + unat amt = bal S s (single_key S f to) \<and>
      bal S s' (all_key S f) + unat amt = bal S s (all_key S f) \<and>
      bal S s' f + unat gas = bal S s f \<and>
      (\<forall>a. a \<notin> {f, all_key S f, single_key S f to} \<longrightarrow> bal S s' a = bal S s a) \<and>
      (\<exists>v v'. getAvailableBalance S s from = Inr v \<and> getAvailableBalance S s' from = Inr v' \<and>
         unat v' + unat gas = unat v + unat amt)" if "setFreezeAccount S from to amt gas 0 s = (Inr (), s')" for s'
  proof -
    note run = that [unfolded ok]
    have b: "bal S s' (single_key S f to) = bal S s (single_key S f to) - unat amt"
        "bal S s' (all_key S f) = bal S s (all_key S f) - unat amt" "bal S s' f = bal S s f - unat gas"
      using run assms(1,3) bal_lt [of S s f] bal_lt [of S s "all_key S f"] bal_lt [of S s "single_key S f to"]
      by (auto simp: statedb.bal_set simp del: of_nat_diff)
    have o: "\<forall>a. a \<notin> {f, all_key S f, single_key S f to} \<longrightarrow> bal S s' a = bal S s a"
      using run assms(1) by (simp add: statedb.bal_set)
    have le: "bal S s (all_key S f) + unat gas \<le> bal S s f" "unat amt \<le> bal S s (all_key S f)"
        "unat amt \<le> bal S s (single_key S f to)"
      using run by auto
    obtain v :: u64 where v: "unat v = bal S s f - bal S s (all_key S f)"
      using unat_of_nat_u64 bal_lt [of S s f] by (metis less_imp_diff_less)
    obtain v' :: u64 where v': "unat v' = bal S s' f - bal S s' (all_key S f)"
      using unat_of_nat_u64 bal_lt [of S s' f] by (metis less_imp_diff_less)
    have "getAvailableBalance S s from = Inr v" "getAvailableBalance S s' from = Inr v'"
      using assms(2) v v' le b by (auto simp: getAvailableBalance_iff)
    then show ?thesis
      using b o le v v' by auto
  qed
  then show ?thesis
    unfolding ok by blast
qed

text \<open>A sender with 5000000 coins, 300 of them frozen for the notary \<open>replicate 20 2\<close>.\<close>

definition demo_frozen :: memstate where
  "demo_frozen = ([(replicate 20 1, 5000000), (pad_block 20 (FreezeKey @ replicate 20 1), 300),
     (pad_block 20 ((0 # replicate 20 2) @ pad_block 20 (FreezeKey @ replicate 20 1)), 300)], [])"

lemma demo_keys:
  "all_key demo_sys (replicate 20 1) = pad_block 20 (FreezeKey @ replicate 20 1)"
  "single_key demo_sys (replicate 20 1) (0 # replicate 20 2) =
     pad_block 20 ((0 # replicate 20 2) @ pad_block 20 (FreezeKey @ replicate 20 1))"
  by (simp_all add: demo_store_key all_key_def single_key_def)

lemma demo_keys_distinct:
  "distinct [replicate 20 1, pad_block 20 (FreezeKey @ replicate 20 1),
     pad_block 20 ((0 # replicate 20 2) @ pad_block 20 (FreezeKey @ replicate 20 1))]"
  by code_simp

lemma demo_frozen_bal:
  "bal demo_sys demo_frozen (replicate 20 1) = 5000000"
  "bal demo_sys demo_frozen (pad_block 20 (FreezeKey @ replicate 20 1)) = 300"
  "bal demo_sys demo_frozen (pad_block 20 ((0 # replicate 20 2) @ pad_block 20 (FreezeKey @ replicate 20 1))) = 300"
  using demo_keys_distinct by (auto simp: bal_def mem_sdb_def demo_frozen_def big_Uint64_def)

theorem unlock_exact_witness:
  "\<exists>s'. setFreezeAccount demo_sys (0 # replicate 20 1) (0 # replicate 20 2) 100 2100000 0 demo_frozen = (Inr (), s') \<and>
     bal demo_sys s' (all_key demo_sys (replicate 20 1)) = 200"
  using unlock_exact [OF demo_state.statedb_axioms, of "0 # replicate 20 1" "replicate 20 1" "0 # replicate 20 2" 100 2100000 demo_frozen]
    demo_keys_distinct demo_frozen_bal
  by (auto simp: demo_secp demo_keys)

text \<open>
  Freezing coins that the sender has: when the free balance covers the amount and the gas, a
  lock succeeds, raises both quotas by the amount and takes only the gas from the balance, so that
  the sender keeps the coins but can no longer spend them.
\<close>

theorem lock_exact:
  assumes "statedb S" and "NewCommonAddr S from = Inr f"
    and "distinct [f, all_key S f, single_key S f to]"
    and "bal S s (all_key S f) + unat amt + unat gas \<le> bal S s f"
    and "bal S s (single_key S f to) + unat amt + unat gas < 2 ^ 64" and "bal S s f + unat gas < 2 ^ 64"
  shows "\<exists>s'. setFreezeAccount S from to amt gas 1 s = (Inr (), s') \<and>
      bal S s' (single_key S f to) = bal S s (single_key S f to) + unat amt \<and>
      bal S s' (all_key S f) = bal S s (all_key S f) + unat amt \<and>
      bal S s' f + unat gas = bal S s f \<and>
      (\<forall>a. a \<notin> {f, all_key S f, single_key S f to} \<longrightarrow> bal S s' a = bal S s a)"
proof -
  have ne: "single_key S f to \<noteq> f" "all_key S f \<noteq> f"
    using assms(3) by auto
  from statedb.setFreezeAccount_lock [OF assms(1,2) ne assms(4,5,6)] show ?thesis
    using assms bal_lt [of S s f] by (auto simp: statedb.bal_set simp del: of_nat_add of_nat_diff)
qed

theorem lock_exact_witness:
  "\<exists>s'. setFreezeAccount demo_sys (0 # replicate 20 1) (0 # replicate 20 2) 100 2100000 1 demo_frozen = (Inr (), s') \<and>
     bal demo_sys s' (all_key demo_sys (replicate 20 1)) = 400"
  using lock_exact [OF demo_state.statedb_axioms, of "0 # replicate 20 1" "replicate 20 1" "0 # replicate 20 2" demo_frozen 100 2100000]
    demo_keys_distinct demo_frozen_bal
  by (auto simp: demo_secp demo_keys)

text \<open>
  A lock does not check that the sender can pay its gas: for an account with no coins and
  nothing frozen, locking zero coins with a positive gas succeeds and leaves the account with two to
  the 64 minus the gas.
\<close>

theorem lock_without_funds_mints:
  assumes "statedb S" and "NewCommonAddr S from = Inr f"
    and "distinct [f, all_key S f, single_key S f to]"
    and "bal S s f = 0" and "bal S s (all_key S f) = 0" and "bal S s (single_key S f to) = 0" and "0 < gas"
  shows "\<exists>s'. setFreezeAccount S from to 0 gas 1 s = (Inr (), s') \<and> bal S s' f = 2 ^ 64 - unat gas"
proof -
  have ne: "single_key S f to \<noteq> f" "all_key S f \<noteq> f"
    using assms(3) by auto
  have z: "big_Uint64 (GetBalance (SD S) s f) = 0" "big_Uint64 (GetBalance (SD S) s (all_key S f)) = 0"
      "big_Uint64 (GetBalance (SD S) s (single_key S f to)) = 0"
    using assms(4-6) by (simp_all add: bal_def unat_eq_zero)
  have av: "getAvailableBalance S s from = Inr 0"
    using assms(2,4,5) by (simp add: getAvailableBalance_iff)
  have "setFreezeAccount S from to 0 gas 1 s = (Inr (), SetBalance (SD S) f (Uint64ToBigInt (0 - gas))
      (SetBalance (SD S) (all_key S f) (Uint64ToBigInt 0) (SetBalance (SD S) (single_key S f to) (Uint64ToBigInt 0) s)))"
    unfolding setFreezeAccount_def using assms(2) av z
    by (auto simp: monad_ok getSingleFreezeBalance_iff getAllFreezeBalance_iff Let_def
        statedb.freeze_tail [OF assms(1,2) ne, unfolded Let_def])
  moreover have "unat (0 - gas) = 2 ^ 64 - unat gas"
    using assms(7) by (simp add: unat_sub_if_size [of 0] word_size word_less_nat_alt del: diff_0)
  ultimately show ?thesis
    using assms(1) by (simp add: statedb.bal_set)
qed

theorem lock_without_funds_mints_witness:
  "\<exists>s'. setFreezeAccount demo_sys (0 # replicate 20 1) (0 # replicate 20 2) 0 2100000 1 ([], []) = (Inr (), s') \<and>
     bal demo_sys s' (replicate 20 1) = 18446744073707451616"
proof -
  have "bal demo_sys ([], []) a = 0" for a
    by (simp add: bal_def mem_sdb_def big_Uint64_def)
  then show ?thesis
    using lock_without_funds_mints [OF demo_state.statedb_axioms, of "0 # replicate 20 1" "replicate 20 1"
        "0 # replicate 20 2" "([], [])" 2100000] demo_keys_distinct
    by (auto simp: demo_secp demo_keys)
qed

text \<open>
  The two forms of one account. An ed25519 address and the 20-byte address that is the digest of
  its text share one account of the state database, but \<open>setAccount\<close> compares the addresses as
  byte strings. A transfer from the one to the other passes as a transfer between two accounts: the
  debit is overwritten by the credit, and the account ends with its old balance plus the amount.
\<close>

theorem transfer_to_own_alias_mints:
  assumes "statedb S" and "length a = 32" and "prefixSet (network S) \<noteq> None"
    and "\<And>x. length (sha1 S x) = 20"
    and "\<And>x. length x = 20 \<Longrightarrow> HexToAddress S (hex_EncodeToString x) = x \<and> BytesToAddress S x = x"
    and "From tx = a" and "\<exists>text_form. Address_String S a = Inr text_form \<and> To tx = TypeSecp256k1 # sha1 S text_form"
    and "Type tx = TransferTransaction" and "NewCommonAddr S a = Inr f"
    and "bal S (sdb c) (all_key S f) + unat (Amount tx) + unat (GasUsed tx) \<le> bal S (sdb c) f"
    and "bal S (sdb c) f + unat (Amount tx) + unat (GasUsed tx) < 2 ^ 64"
  shows "\<exists>c'. setAccount S tx [] c = (Inr (), c') \<and> bal S (sdb c') f = bal S (sdb c) f + unat (Amount tx)"
proof -
  have p: "Protocol a = TypeED25519" "a \<noteq> Undef"
    using assms(2) by (auto simp: Protocol_def Undef_def)
  obtain text_form where text_form: "Address_String S a = Inr text_form" "To tx = TypeSecp256k1 # sha1 S text_form"
    using assms(7) by blast
  have q: "Protocol (To tx) = TypeSecp256k1" "To tx \<noteq> Undef" "length (To tx) = 21"
    using assms(4) text_form by (auto simp: Protocol_def Undef_def)
  have "NewCommonAddr S a = Inr (sha1 S text_form)"
    using p text_form(1) assms(4,5) by (simp add: NewCommonAddr_def monad_simps sigtype_defs)
  then have f: "f = sha1 S text_form"
    using assms(9) by simp
  moreover have "NewCommonAddr S (To tx) = Inr (sha1 S text_form)"
    using q text_form(2) assms(4,5) by (simp add: NewCommonAddr_def sigtype_defs)
  ultimately have t: "NewCommonAddr S (From tx) = Inr f" "NewCommonAddr S (To tx) = Inr f"
    using assms(6,9) by auto
  have "From tx \<noteq> To tx"
    using assms(2,6) q(3) by auto
  then have "From tx \<noteq> To tx \<and>
      Type tx \<notin> {WithdrawToEthTransaction, PledgeTrasnaction, EvmContractTransaction, PledgeBreakTransaction}"
    using assms(8) by (simp add: txtype_defs)
  from statedb.setAccount_plain_ok [OF assms(1) t this, of c "[]"] assms(10,11) show ?thesis
    using assms(1) by (auto simp: statedb.bal_set simp del: of_nat_add)
qed

definition demo_alias :: FinishedTransaction where
  "demo_alias = demo_tx\<lparr>From := replicate 32 5, To := 0 # take 20 (str ''otK'' @ EncodeAddr (replicate 32 5))\<rparr>"

definition demo_rich :: "(memdb, memstate) chain" where
  "demo_rich = demo_chain\<lparr>sdb := ([(take 20 (str ''otK'' @ EncodeAddr (replicate 32 5)), 3000000)], [])\<rparr>"

theorem transfer_to_own_alias_mints_witness:
  "\<exists>c'. setAccount demo_sys demo_alias [] demo_rich = (Inr (), c') \<and>
     bal demo_sys (sdb c') (take 20 (str ''otK'' @ EncodeAddr (replicate 32 5))) = 3000500"
proof -
  let ?text_form = "str ''otK'' @ EncodeAddr (replicate 32 5)"
  have len: "length ?text_form = 47"
    by (simp add: length_EncodeAddr)
  have text_form: "Address_String demo_sys (replicate 32 5) = Inr ?text_form"
    by (simp add: Address_String_def encode_def Undef_def Protocol_def sigtype_defs prefixSet_def Mainnet_def Testnet_def)
  have pad: "pad_block 20 x = take 20 x" if "20 \<le> length x" for x
    using that by (simp add: pad_block_def)
  have f: "NewCommonAddr demo_sys (replicate 32 5) = Inr (take 20 ?text_form)"
    using text_form len by (simp add: NewCommonAddr_def Undef_def Protocol_def sigtype_defs monad_simps demo_env_def pad)
  have hyp: "HexToAddress demo_sys (hex_EncodeToString x) = x \<and> BytesToAddress demo_sys x = x" if "length x = 20" for x
    using that by (simp add: demo_env_def pad)
  have "all_key demo_sys (take 20 ?text_form) ! 0 = 102" "take 20 ?text_form ! 0 = 111"
    by (simp_all add: all_key_def demo_store_key pad_block_def FreezeKey_def str_def)
  then have k: "all_key demo_sys (take 20 ?text_form) \<noteq> take 20 ?text_form"
    by auto
  have b: "bal demo_sys (sdb demo_rich) (all_key demo_sys (take 20 ?text_form)) = 0"
      "bal demo_sys (sdb demo_rich) (take 20 ?text_form) = 3000000"
    using k by (simp_all add: bal_def mem_sdb_def demo_rich_def demo_chain_def big_Uint64_def)
  show ?thesis
    using transfer_to_own_alias_mints [OF demo_state.statedb_axioms, of "replicate 32 5" demo_alias "take 20 ?text_form" demo_rich]
      text_form f hyp b pad len
    by (simp add: demo_alias_def demo_tx_def prefixSet_def Mainnet_def Testnet_def sigtype_defs)
qed

text \<open>
  Block execution calls \<open>setAccount\<close> without a default amount. For a pledge-break transaction
  with amount zero from a sender that can pay its gas, the call does not return an error but
  panics: the node that executes such a block crashes.
\<close>

theorem pledge_break_panics:
  assumes "IsPledgeBreakTransaction tx" and "From tx \<noteq> To tx" and "Amount tx = 0"
    and "getAvailableBalance S (sdb c) (From tx) = Inr v" and "GasUsed tx \<le> v"
  shows "setAccount S tx [] c = (Inl (Panic ''index out of range''), c)"
proof -
  obtain f where f: "NewCommonAddr S (From tx) = Inr f"
    using assms(4) by (auto simp: getAvailableBalance_iff)
  have ty: "Type tx = 10"
    using assms(1) by (simp add: is_tx_defs txtype_defs)
  show ?thesis
    using assms f ty
    by (simp add: setAccount_def setAccount_break_def getBalance_def monad_simps is_tx_defs txtype_defs not_less)
qed

theorem pledge_break_panics_witness:
  "setAccount demo_sys (demo_pay\<lparr>Type := PledgeBreakTransaction, Amount := 0\<rparr>) [] demo_chain =
     (Inl (Panic ''index out of range''), demo_chain)"
proof -
  have "pad_block 20 (FreezeKey @ replicate 20 1) \<noteq> replicate 20 1"
    by code_simp
  then have "getAvailableBalance demo_sys (sdb demo_chain) (From demo_pay) = Inr 9000000"
    by (simp add: getAvailableBalance_iff demo_pay_def demo_tx_def demo_secp demo_keys bal_def mem_sdb_def demo_chain_def
        big_Uint64_def)
  then show ?thesis
    by (intro pledge_break_panics [where v = 9000000])
      (simp_all add: demo_pay_def demo_tx_def is_tx_defs)
qed

end
