(* ===== verification/Chain.thy ===== *)
theory Chain
  imports State
begin

text \<open>
  The chain: the index of the database (height, hashes, transactions by hash and by address), the
  execution of a block's transactions and the three ways a block enters the chain, from
  \<open>pkg/blockchain/blockchain.go\<close>, \<open>addAndDel.go\<close>, \<open>syncblock.go\<close>, \<open>contract.go\<close> and
  \<open>pkg/contract/evm/evm.go\<close>.
\<close>

section \<open>Reading the index\<close>

definition InitHeight :: u64 where "InitHeight = 60350422"

definition heightKeyOf :: "u64 \<Rightarrow> bytes" where
  "heightKeyOf h = HeightPrefix @ E64func h"

definition snapKeyOf :: "u64 \<Rightarrow> bytes" where
  "snapKeyOf h = SnapRootPrefix @ E64func h"

definition getMaxBlockHeight_tx :: "('d, 't, 's, 'z) sys_scheme \<Rightarrow> 't \<Rightarrow> err + u64" where
  "getMaxBlockHeight_tx S t =
     (case bg_get (KV S) t HeightKey of
        Inl e \<Rightarrow> if e = NotExist then Inr 0 else Inl e
      | Inr heightBytes \<Rightarrow> D64func heightBytes)"

definition getMaxBlockHeight :: "('d, 't, 's, 'z) sys_scheme \<Rightarrow> 'd \<Rightarrow> err + u64" where
  "getMaxBlockHeight S d =
     (case bgStore_Get (KV S) d HeightKey of
        Inl e \<Rightarrow> if e = NotExist then Inr 0 else Inl e
      | Inr heightBytes \<Rightarrow> D64func heightBytes)"

definition getHash :: "('d, 't, 's, 'z) sys_scheme \<Rightarrow> 'd \<Rightarrow> u64 \<Rightarrow> err + bytes" where
  "getHash S d height = bgStore_Get (KV S) d (heightKeyOf height)"

definition getBlockByHash :: "('d, 't, 's, 'z) sys_scheme \<Rightarrow> 'd \<Rightarrow> bytes \<Rightarrow> err + Block" where
  "getBlockByHash S d hash = bindE (bgStore_Get (KV S) d hash) (\<lambda>blockData. Deserialize S blockData)"

definition getBlockByHeight :: "('d, 't, 's, 'z) sys_scheme \<Rightarrow> 'd \<Rightarrow> u64 \<Rightarrow> err + Block" where
  "getBlockByHeight S d height =
     (if height < 1 then Inl (Err ''parameter error'')
      else bindE (bgStore_Get (KV S) d (heightKeyOf height)) (\<lambda>hash.
           bindE (bgStore_Get (KV S) d hash) (\<lambda>blockData. Deserialize S blockData)))"

definition getBlockByHeight_tx :: "('d, 't, 's, 'z) sys_scheme \<Rightarrow> 't \<Rightarrow> u64 \<Rightarrow> err + Block" where
  "getBlockByHeight_tx S t height =
     (if height < 1 then Inl (Err ''parameter error'')
      else bindE (bg_get (KV S) t (heightKeyOf height)) (\<lambda>hash.
           bindE (bg_get (KV S) t hash) (\<lambda>blockData. Deserialize S blockData)))"

definition Tip :: "('d, 't, 's, 'z) sys_scheme \<Rightarrow> 'd \<Rightarrow> err + Block" where
  "Tip S d =
     bindE (getMaxBlockHeight S d) (\<lambda>h.
     bindE (getHash S d h) (\<lambda>hash.
     bindE (bgStore_Get (KV S) d hash) (\<lambda>blockData. Deserialize S blockData)))"

definition IsMainChainBlock :: "('d, 't, 's, 'z) sys_scheme \<Rightarrow> 'd \<Rightarrow> bytes \<Rightarrow> err + bool" where
  "IsMainChainBlock S d hash =
     bindE (getBlockByHash S d hash) (\<lambda>block.
     bindE (getHash S d (Height block)) (\<lambda>mainChainHash. Inr (hash = mainChainHash)))"

text \<open>
  \<open>FindChainBranch\<close> follows the previous hashes without a bound; \<open>fuel\<close> is the number of blocks it
  may visit, \<open>None\<close> means that it is still running.
\<close>

fun FindChainBranch :: "nat \<Rightarrow> ('d, 't, 's, 'z) sys_scheme \<Rightarrow> 'd \<Rightarrow> bytes \<Rightarrow> (err + Block) option" where
  "FindChainBranch 0 S d hash = None"
| "FindChainBranch (Suc fuel) S d hash =
     (case IsMainChainBlock S d hash of
        Inl e \<Rightarrow> Some (Inl e)
      | Inr True \<Rightarrow> Some (getBlockByHash S d hash)
      | Inr False \<Rightarrow>
          (case getBlockByHash S d hash of
             Inl e \<Rightarrow> Some (Inl e)
           | Inr block \<Rightarrow> FindChainBranch fuel S d (PrevHash block)))"

definition getTransactionByHash :: "('d, 't, 's, 'z) sys_scheme \<Rightarrow> 'd \<Rightarrow> bytes \<Rightarrow> err + FinishedTransaction" where
  "getTransactionByHash S d hash =
     bindE (bgStore_Get (KV S) d hash) (\<lambda>hi.
     bindE (json_DecodeTxIndex S hi) (\<lambda>(height, index).
     bindE (getBlockByHeight S d height) (\<lambda>b.
       if length (Transactions b) \<le> unat index then Inl (Panic ''index out of range'')
       else Inr ((Transactions b ! unat index)\<lparr>BlockNum := Height b\<rparr>))))"

section \<open>Transactions in the index\<close>

text \<open>\<open>json.Marshal\<close> of a \<open>TxIndex\<close>.\<close>

definition dec_string :: "u64 \<Rightarrow> bytes" where
  "dec_string n = (if n = 0 then [48] else map (\<lambda>d. 48 + word_of_nat d) (rev (digits_le 10 (unat n))))"

definition TxIndex_Marshal :: "u64 \<Rightarrow> u64 \<Rightarrow> bytes" where
  "TxIndex_Marshal height index =
     [123, 34] @ str ''Height'' @ [34, 58] @ dec_string height @ [44, 34] @ str ''Index'' @ [34, 58] @
     dec_string index @ [125]"

text \<open>The errors of both writes are dropped.\<close>

definition setTxbyaddrKV :: "('d, 't, 's, 'z) sys_scheme \<Rightarrow> bytes \<Rightarrow> bytes \<Rightarrow> u64 \<Rightarrow> u64 \<Rightarrow> ('t, unit) M" where
  "setTxbyaddrKV S addr hash height index =
     thenM (ignoreM (bg_mset (KV S) addr hash []))
           (ignoreM (bg_set (KV S) hash (TxIndex_Marshal height index)))"

definition deleteTxbyaddrKV :: "('d, 't, 's, 'z) sys_scheme \<Rightarrow> bytes \<Rightarrow> 'y Transaction_scheme \<Rightarrow> u64 \<Rightarrow> ('t, unit) M" where
  "deleteTxbyaddrKV S addr tx index =
     thenM (bg_mdel (KV S) addr (Transaction_Hash S tx)) (bg_del (KV S) (Transaction_Hash S tx))"

section \<open>The virtual machine\<close>

definition setDefaults :: "int \<Rightarrow> int \<Rightarrow> u64 \<Rightarrow> u64 \<Rightarrow> evm_cfg" where
  "setDefaults nw chainId gasLimit gasPrice =
     \<lparr>c_ChainID = chainId, c_Difficulty = Some 0, c_Time = nw, c_GasLimit = gasLimit,
      c_GasPrice = sint gasPrice, c_Value = 0, c_BlockNumber = 0, c_Coinbase = replicate 20 0,
      c_Origin = replicate 20 0\<rparr>"

definition NewEvm :: "('d, 't, 's, 'z) sys_scheme \<Rightarrow> ('d, 's) chain \<Rightarrow> ('d, 's) chain" where
  "NewEvm S c =
     c\<lparr>evm := setDefaults (now S) (ChainId (ChainCfg c)) (CfgGasLimit (ChainCfg c)) (CfgGasPrice (ChainCfg c))\<rparr>"

definition SetBlockInfo :: "u64 \<Rightarrow> u64 \<Rightarrow> caddr \<Rightarrow> int option \<Rightarrow> ('d, 's) chain \<Rightarrow> ('d, 's) chain" where
  "SetBlockInfo num tm miner difficulty c =
     c\<lparr>evm := (evm c)\<lparr>c_BlockNumber := uint num, c_Coinbase := miner, c_Time := uint tm, c_Difficulty := difficulty\<rparr>\<rparr>"

definition SetConfig :: "int \<Rightarrow> int \<Rightarrow> u64 \<Rightarrow> caddr \<Rightarrow> ('d, 's) chain \<Rightarrow> ('d, 's) chain" where
  "SetConfig val price limit origin c =
     c\<lparr>evm := (evm c)\<lparr>c_Value := val, c_GasPrice := price, c_GasLimit := limit, c_Origin := origin\<rparr>\<rparr>"

definition evm_Create :: "('d, 't, 's, 'z) sys_scheme \<Rightarrow> bytes \<Rightarrow> (('d, 's) chain, bytes \<times> caddr \<times> u64 \<times> err option) M" where
  "evm_Create S code = (\<lambda>c. case vm_Create (SD S) (evm c) code (sdb c) of (r, s) \<Rightarrow> (Inr r, c\<lparr>sdb := s\<rparr>))"

definition evm_Call :: "('d, 't, 's, 'z) sys_scheme \<Rightarrow> caddr \<Rightarrow> bytes \<Rightarrow> (('d, 's) chain, bytes \<times> u64 \<times> err option) M" where
  "evm_Call S contAddr inputCode = (\<lambda>c.
     let s = sdb_SetCode (SD S) contAddr (sdb_GetCode (SD S) (sdb c) contAddr) (sdb c)
     in case vm_Call (SD S) (evm c) contAddr inputCode s of (r, s') \<Rightarrow> (Inr r, c\<lparr>sdb := s'\<rparr>))"

definition evm_finish ::
    "('d, 't, 's, 'z) sys_scheme \<Rightarrow> Block \<Rightarrow> FinishedTransaction \<Rightarrow> u64 \<Rightarrow> EvmContract \<Rightarrow>
     (('d, 's) chain, u64 \<times> bytes option) M" where
  "evm_finish S block tx gasLeft evmC = (\<lambda>c.
     case json_EncodeEvm S (evmC\<lparr>Status := True,
            Logs := sdb_GetLogs (SD S) (sdb c) (BytesToHash S (Transaction_Hash S tx)) (BytesToHash S (Hash block))\<rparr>) of
       Inl _ \<Rightarrow> (Inr (gasLeft, None), c)
     | Inr input \<Rightarrow> (Inr (gasLeft, Some input), c))"

text \<open>
  The result is the gas left and, when the contract ran, the new input of the transaction. A
  failing execution is not an error of the handler; an operation it does not know executes nothing.
\<close>

definition handleContractTransaction ::
    "('d, 't, 's, 'z) sys_scheme \<Rightarrow> Block \<Rightarrow> FinishedTransaction \<Rightarrow> nat \<Rightarrow> (('d, 's) chain, u64 \<times> bytes option) M" where
  "handleContractTransaction S block tx index =
     (let gasLimit = (if GasLimit tx * GasPrice tx = 0 then MAXGASLIMIT else GasLimit tx * GasPrice tx);
          atLeast = (\<lambda>left. if left < MINGASLIMIT then MINGASLIMIT else left);
          finish = evm_finish S block tx
      in
      bindM (liftE (json_DecodeEvm S (Input tx))) (\<lambda>evmC.
      bindM (liftE (eth_value S (EthData evmC))) (\<lambda>value.
      thenM (modM (SetConfig (value div Uint64ToBigInt ETHDECIMAL) (Uint64ToBigInt (GasPrice tx)) gasLimit (Origin evmC)))
     (thenM (modM (\<lambda>c. c\<lparr>sdb := sdb_Prepare (SD S) (BytesToHash S (Transaction_Hash S tx)) index (sdb c)\<rparr>))
     (if Operation evmC \<in> {str ''create'', str ''Create''} then
        thenM (modM (\<lambda>c. c\<lparr>sdb := sdb_SetNonce (SD S) (Origin evmC) (Nonce tx) (sdb c)\<rparr>))
       (bindM (evm_Create S (CreateCode evmC)) (\<lambda>(ret, contractAddr, left, err).
          case err of Some _ \<Rightarrow> retM (atLeast left, None)
          | None \<Rightarrow> finish (atLeast left) (evmC\<lparr>ContractAddr := contractAddr\<rparr>)))
      else if Operation evmC \<in> {str ''call'', str ''Call''} then
        thenM (modM (\<lambda>c. c\<lparr>sdb := sdb_SetNonce (SD S) (Origin evmC) (Nonce tx + 1) (sdb c)\<rparr>))
       (bindM (evm_Call S (ContractAddr evmC) (CallInput evmC)) (\<lambda>(ret, left, err).
          case err of Some _ \<Rightarrow> retM (atLeast left, None)
          | None \<Rightarrow> finish (atLeast left) (evmC\<lparr>Ret := hex_EncodeToString ret\<rparr>)))
      else finish 0 evmC)))))"

section \<open>Executing a block\<close>

text \<open>
  What \<open>AddBlock\<close> and its variants work on: the chain, the open database transaction and the block,
  whose transactions they complete in place.
\<close>

record ('d, 't, 's) run =
  r_chain :: "('d, 's) chain"
  r_tx :: 't
  r_block :: Block

definition onChain :: "(('d, 's) chain, 'a) M \<Rightarrow> (('d, 't, 's) run, 'a) M" where
  "onChain m = zoomM r_chain (\<lambda>c. r_chain_update (\<lambda>_. c)) m"

definition onSdb :: "('s, 'a) M \<Rightarrow> (('d, 't, 's) run, 'a) M" where
  "onSdb m = onChain (zoomM sdb (\<lambda>s. sdb_update (\<lambda>_. s)) m)"

definition onTx :: "('t, 'a) M \<Rightarrow> (('d, 't, 's) run, 'a) M" where
  "onTx m = zoomM r_tx (\<lambda>t. r_tx_update (\<lambda>_. t)) m"

definition modTx :: "nat \<Rightarrow> (FinishedTransaction \<Rightarrow> FinishedTransaction) \<Rightarrow> (('d, 't, 's) run, unit) M" where
  "modTx i f = modM (\<lambda>r. r\<lparr>r_block := (r_block r)\<lparr>Transactions :=
     (Transactions (r_block r))[i := f (Transactions (r_block r) ! i)]\<rparr>\<rparr>)"

text \<open>One round of the loop: the gas that the transaction used.\<close>

definition exec_coinbase :: "('d, 't, 's, 'z) sys_scheme \<Rightarrow> u64 \<Rightarrow> nat \<Rightarrow> FinishedTransaction \<Rightarrow> addr \<Rightarrow> (('d, 't, 's) run, u64) M" where
  "exec_coinbase S height index tx miner =
     (let gas = GasLimit tx * GasPrice tx in
      thenM (onTx (setTxbyaddrKV S (To tx) (Transaction_Hash S tx) height (word_of_nat index)))
     (thenM (modTx index (GasUsed_update (\<lambda>_. gas)))
     (thenM (onSdb (setMinerFee S miner gas))
     (thenM (onSdb (setToAccount S tx))
     (retM gas)))))"

definition exec_lock :: "('d, 't, 's, 'z) sys_scheme \<Rightarrow> u64 \<Rightarrow> nat \<Rightarrow> FinishedTransaction \<Rightarrow> addr \<Rightarrow> (('d, 't, 's) run, u64) M" where
  "exec_lock S height index tx miner =
     (let gas = GasLimit tx * GasPrice tx in
      thenM (onTx (setTxbyaddrKV S (From tx) (Transaction_Hash S tx) height (word_of_nat index)))
     (thenM (onTx (setTxbyaddrKV S (To tx) (Transaction_Hash S tx) height (word_of_nat index)))
     (thenM (onSdb (setNonce S (From tx) (Nonce tx + 1)))
     (thenM (modTx index (GasUsed_update (\<lambda>_. gas)))
     (thenM (onSdb (setMinerFee S miner gas))
     (thenM (onSdb (setFreezeAccount S (From tx) (To tx) (Amount tx) gas (if IsLockTransaction tx then 1 else 0)))
     (retM gas)))))))"

definition exec_contract :: "('d, 't, 's, 'z) sys_scheme \<Rightarrow> u64 \<Rightarrow> nat \<Rightarrow> FinishedTransaction \<Rightarrow> Block \<Rightarrow> (('d, 't, 's) run, u64) M" where
  "exec_contract S height index tx block =
      thenM (onTx (setTxbyaddrKV S (From tx) (Transaction_Hash S tx) height (word_of_nat index)))
     (bindM (onChain (handleContractTransaction S block tx index)) (\<lambda>(gasLeft, input).
      thenM (case input of None \<Rightarrow> retM () | Some i \<Rightarrow> modTx index (Input_update (\<lambda>_. i)))
     (bindM (readM (\<lambda>r. Inr (c_GasLimit (evm (r_chain r))))) (\<lambda>limit.
      thenM (failIf (limit < gasLeft) (Err ''evm gaslimit < gasLeft''))
     (let gas = limit - gasLeft in
      thenM (modTx index (GasUsed_update (\<lambda>_. gas)))
     (thenM (onSdb (setMinerFee S (Miner block) gas))
     (thenM (onChain (setAccount S (tx\<lparr>GasUsed := gas\<rparr>) []))
     (retM gas))))))))"

definition exec_transfer :: "('d, 't, 's, 'z) sys_scheme \<Rightarrow> u64 \<Rightarrow> nat \<Rightarrow> FinishedTransaction \<Rightarrow> addr \<Rightarrow> (('d, 't, 's) run, u64) M" where
  "exec_transfer S height index tx miner =
     (let gas = GasLimit tx * GasPrice tx in
      thenM (onTx (setTxbyaddrKV S (From tx) (Transaction_Hash S tx) height (word_of_nat index)))
     (thenM (onTx (setTxbyaddrKV S (To tx) (Transaction_Hash S tx) height (word_of_nat index)))
     (thenM (onSdb (setNonce S (From tx) (Nonce tx + 1)))
     (thenM (modTx index (GasUsed_update (\<lambda>_. gas)))
     (thenM (onSdb (setMinerFee S miner gas))
     (thenM (onChain (setAccount S (tx\<lparr>GasUsed := gas\<rparr>) []))
     (retM gas)))))))"

definition exec_tx :: "('d, 't, 's, 'z) sys_scheme \<Rightarrow> u64 \<Rightarrow> nat \<Rightarrow> FinishedTransaction \<Rightarrow> Block \<Rightarrow> (('d, 't, 's) run, u64) M" where
  "exec_tx S height index tx block =
     (if IsCoinBaseTransaction tx then exec_coinbase S height index tx (Miner block)
      else if IsLockTransaction tx \<or> IsUnlockTransaction tx then exec_lock S height index tx (Miner block)
      else if IsEvmContractTransaction tx then exec_contract S height index tx block
      else exec_transfer S height index tx (Miner block))"

fun exec_txs :: "('d, 't, 's, 'z) sys_scheme \<Rightarrow> u64 \<Rightarrow> nat \<Rightarrow> FinishedTransaction list \<Rightarrow> Block \<Rightarrow> (('d, 't, 's) run, u64) M" where
  "exec_txs S height index [] block = retM 0"
| "exec_txs S height index (tx # txs) block =
     bindM (exec_tx S height index tx block) (\<lambda>gas.
     bindM (exec_txs S height (Suc index) txs block) (\<lambda>rest. retM (gas + rest)))"

section \<open>Adding a block\<close>

definition updateNewStateByRoot :: "('d, 't, 's, 'z) sys_scheme \<Rightarrow> ('d, 's) chain \<Rightarrow> chash \<Rightarrow> err + 's" where
  "updateNewStateByRoot S c root = state_New (SD S) root (db c)"

definition rollState :: "('d, 't, 's, 'z) sys_scheme \<Rightarrow> chash \<Rightarrow> (('d, 's) chain, unit) M" where
  "rollState S rollroot =
     bindM (readM (\<lambda>c. updateNewStateByRoot S c rollroot)) (\<lambda>s.
     modM (\<lambda>c. NewEvm S (c\<lparr>sdb := s\<rparr>)))"

text \<open>\<open>Commit\<close> of the database transaction into the database of the chain.\<close>

definition commitTx :: "('d, 't, 's, 'z) sys_scheme \<Rightarrow> (('d, 't, 's) run, unit) M" where
  "commitTx S = (\<lambda>r. onChain (zoomM db (\<lambda>d. db_update (\<lambda>_. d)) (kv_commit (KV S) (r_tx r))) r)"

text \<open>The check that the state is the one the index names: the old root must be the current one.\<close>

definition checkStartRoot :: "('d, 't, 's, 'z) sys_scheme \<Rightarrow> (('d, 's) chain, chash) M \<Rightarrow> (('d, 't, 's) run, bool) M" where
  "checkStartRoot S commit =
     bindM (readM (\<lambda>r. bg_get (KV S) (r_tx r) SnapRootKey)) (\<lambda>snapRoothash.
     bindM (onChain commit) (\<lambda>startHash. retM (snapRoothash = startHash)))"

text \<open>
  The snapshot root of the block: a block that still carries the old root gets the new one, any
  other must carry the new root.
\<close>

definition settleSnapRoot :: "('d, 't, 's, 'z) sys_scheme \<Rightarrow> chash \<Rightarrow> (('d, 't, 's) run, unit) M" where
  "settleSnapRoot S comHash =
     bindM (readM (\<lambda>r. bg_get (KV S) (r_tx r) SnapRootKey)) (\<lambda>oldSnapRootkey. \<lambda>r.
       if oldSnapRootkey = SnapRoot (r_block r) then (Inr (), r\<lparr>r_block := (r_block r)\<lparr>SnapRoot := comHash\<rparr>\<rparr>)
       else if comHash \<noteq> SnapRoot (r_block r) then (Inl (Err ''SnapRoot not equal''), r)
       else (Inr (), r))"

definition setSnapRoot :: "chash \<Rightarrow> (('d, 't, 's) run, unit) M" where
  "setSnapRoot comHash = modM (\<lambda>r. r\<lparr>r_block := (r_block r)\<lparr>SnapRoot := comHash\<rparr>\<rparr>)"

definition storeBlock :: "('d, 't, 's, 'z) sys_scheme \<Rightarrow> bytes \<Rightarrow> u64 \<Rightarrow> (('d, 't, 's) run, unit) M" where
  "storeBlock S hash blockGasU =
     thenM (modM (\<lambda>r. r\<lparr>r_block := (r_block r)\<lparr>b_GasUsed := blockGasU\<rparr>\<rparr>))
    (bindM (readM (\<lambda>r. Serialize S (r_block r))) (\<lambda>dat. onTx (bg_set (KV S) hash dat)))"

text \<open>The account of the miner; the error of the conversion is dropped and leaves the zero address.\<close>

definition commonOrZero :: "('z) env_scheme \<Rightarrow> addr \<Rightarrow> caddr" where
  "commonOrZero E a = (case NewCommonAddr E a of Inl _ \<Rightarrow> replicate 20 0 | Inr c \<Rightarrow> c)"

text \<open>
  The body of \<open>AddBlock\<close> in two parts, around the two writes whose errors the code drops: up to the hash of
  the height, and from the execution of the transactions up to the state root of the height.
\<close>

definition AddBlock_open :: "('d, 't, 's, 'z) sys_scheme \<Rightarrow> Block \<Rightarrow> (('d, 't, 's) run, u64) M" where
  "AddBlock_open S block =
     bindM (readM (\<lambda>r. getMaxBlockHeight S (db (r_chain r)))) (\<lambda>prevHeight.
     thenM (if InitHeight + 1 < Height block then
              bindM (checkStartRoot S (factCommit S True)) (\<lambda>same.
              failIf (\<not> same) (Err ''snaproot not equal''))
            else retM ())
    (let height = prevHeight + 1 in
     thenM (failIf (Height block \<noteq> height) (Err ''height error''))
    (thenM (onTx (bg_set (KV S) (heightKeyOf height) (Hash block)))
    (retM height))))"

definition AddBlock_fill :: "('d, 't, 's, 'z) sys_scheme \<Rightarrow> Block \<Rightarrow> u64 \<Rightarrow> (('d, 't, 's) run, chash) M" where
  "AddBlock_fill S block height =
     thenM (onChain (modM (\<lambda>c. SetBlockInfo (Height block) (Timestamp block) (commonOrZero S (Miner block))
               (Difficulty block) (NewEvm S c))))
    (bindM (exec_txs S height 0 (Transactions block) block) (\<lambda>blockGasU.
     bindM (onChain (factCommit S True)) (\<lambda>comHash.
     thenM (if InitHeight + 1 < Height block then settleSnapRoot S comHash
            else if Height block = InitHeight + 1 then setSnapRoot comHash
            else raiseM (Err ''block.height < initheight''))
    (thenM (storeBlock S (Hash block) blockGasU)
    (thenM (onTx (bg_set (KV S) (snapKeyOf height) comHash))
    (retM comHash))))))"

definition AddBlock_body :: "('d, 't, 's, 'z) sys_scheme \<Rightarrow> Block \<Rightarrow> (('d, 't, 's) run, unit) M" where
  "AddBlock_body S block =
     bindM (AddBlock_open S block) (\<lambda>height.
     thenM (onTx (ignoreM (bg_set (KV S) HeightKey (E64func height))))
    (bindM (AddBlock_fill S block height) (\<lambda>comHash.
     thenM (onTx (ignoreM (bg_set (KV S) SnapRootKey comHash)))
    (commitTx S))))"

text \<open>
  \<open>AddBlock\<close>: an error after the first read reloads the state from the old root (a failure to do so
  is only logged); the database transaction is discarded. A panic leaves the function without the
  reload.
\<close>

definition AddBlock :: "('d, 't, 's, 'z) sys_scheme \<Rightarrow> (('d, 's) chain \<times> Block, unit) M" where
  "AddBlock S = (\<lambda>(c, block).
     case getSnapRoot S (db c) of
       Inl e \<Rightarrow> (Inl e, (c, block))
     | Inr rollroot \<Rightarrow>
        (case AddBlock_body S block \<lparr>r_chain = c, r_tx = kv_new (KV S) (db c), r_block = block\<rparr> of
           (Inr _, r) \<Rightarrow> (Inr (), (r_chain r, r_block r))
         | (Inl e, r) \<Rightarrow>
             (Inl e, (if is_panic e then r_chain r else snd (rollState S rollroot (r_chain r)), r_block r))))"

text \<open>
  The database may refuse any write, because a transaction has grown too big, say, and the code drops the
  errors of two of them: of the height and of the current state root. \<open>AddBlock_noted S c b\<close> tells of one
  run, \<open>AddBlock\<close> of \<open>b\<close> on \<open>c\<close>, that the database took these two writes; a run that does not get so far
  counts as one that did. It says nothing of any other write.
\<close>

definition accepts :: "('d, 't, 's, 'z) sys_scheme \<Rightarrow> bytes \<Rightarrow> bytes \<Rightarrow> ('d, 't, 's) run \<Rightarrow> bool" where
  "accepts S k v r = (case bg_set (KV S) k v (r_tx r) of (Inr _, _) \<Rightarrow> True | (Inl _, _) \<Rightarrow> False)"

definition AddBlock_noted :: "('d, 't, 's, 'z) sys_scheme \<Rightarrow> ('d, 's) chain \<Rightarrow> Block \<Rightarrow> bool" where
  "AddBlock_noted S c block =
     (case AddBlock_open S block \<lparr>r_chain = c, r_tx = kv_new (KV S) (db c), r_block = block\<rparr> of
        (Inl _, _) \<Rightarrow> True
      | (Inr height, r) \<Rightarrow> accepts S HeightKey (E64func height) r \<and>
         (case AddBlock_fill S block height (snd (onTx (ignoreM (bg_set (KV S) HeightKey (E64func height))) r)) of
            (Inl _, _) \<Rightarrow> True
          | (Inr comHash, r') \<Rightarrow> accepts S SnapRootKey comHash r'))"

text \<open>
  \<open>AddTempBlock\<close> works in the caller's database transaction. When the state is not the one the index
  names it returns the error variable of the successful call before, that is, no error.
\<close>

definition AddTempBlock :: "('d, 't, 's, 'z) sys_scheme \<Rightarrow> Block \<Rightarrow> (('d, 't, 's) run, unit) M" where
  "AddTempBlock S block =
     bindM (if Height block \<noteq> 1 then checkStartRoot S (factCommit S True) else retM True) (\<lambda>same.
     if \<not> same then retM () else
     bindM (readM (\<lambda>r. getMaxBlockHeight_tx S (r_tx r))) (\<lambda>prevHeight.
     let height = prevHeight + 1; hash = Hash block in
     thenM (failIf (Height block \<noteq> height) (Err ''height error''))
    (thenM (onTx (bg_set (KV S) (heightKeyOf height) hash))
    (thenM (onTx (ignoreM (bg_del (KV S) HeightKey)))
    (thenM (onTx (ignoreM (bg_set (KV S) HeightKey (E64func height))))
    (thenM (onChain (modM (\<lambda>c. SetBlockInfo (Height block) (Timestamp block) (commonOrZero S (Miner block))
               (Difficulty block) (NewEvm S c))))
    (bindM (exec_txs S height 0 (Transactions block) block) (\<lambda>blockGasU.
     bindM (onChain (factCommit S True)) (\<lambda>comHash.
     thenM (if Height block \<noteq> 1 then settleSnapRoot S comHash else setSnapRoot comHash)
    (thenM (storeBlock S hash blockGasU)
    (bindM (onChain (factCommit S True)) (\<lambda>comHashWrite.
     thenM (onTx (bg_set (KV S) (snapKeyOf height) comHashWrite))
    (thenM (onTx (ignoreM (bg_del (KV S) SnapRootKey)))
           (onTx (ignoreM (bg_set (KV S) SnapRootKey comHashWrite))))))))))))))))"

definition AddSmallBlock :: "('d, 't, 's, 'z) sys_scheme \<Rightarrow> Block \<Rightarrow> (('d, 't, 's) run, unit) M" where
  "AddSmallBlock S block =
     bindM (readM (\<lambda>r. getMaxBlockHeight_tx S (r_tx r))) (\<lambda>prevHeight.
     thenM (if InitHeight + 1 < Height block then
              bindM (checkStartRoot S (fakeCommit1 S True)) (\<lambda>same.
              failIf (\<not> same) (Err ''snaproot not equal''))
            else retM ())
    (let height = prevHeight + 1; hash = Hash block in
     thenM (failIf (Height block \<noteq> height) (Err ''height error''))
    (thenM (onTx (bg_set (KV S) (heightKeyOf height) hash))
    (thenM (onTx (bg_set (KV S) HeightKey (E64func height)))
    (thenM (onChain (modM (NewEvm S)))
    (thenM (if 0 < prevHeight then
              bindM (readM (\<lambda>r. getBlockByHeight_tx S (r_tx r) prevHeight)) (\<lambda>cuurB.
              onChain (modM (SetBlockInfo (Height cuurB) (Timestamp cuurB) (commonOrZero S (Miner cuurB)) (Difficulty cuurB))))
            else retM ())
    (bindM (exec_txs S height 0 (Transactions block) block) (\<lambda>blockGasU.
     bindM (onChain (fakeCommit1 S True)) (\<lambda>comHash.
     thenM (if InitHeight + 1 < Height block then settleSnapRoot S comHash
            else if Height block = InitHeight + 1 then setSnapRoot comHash
            else raiseM (Err ''block.height < initheight''))
    (thenM (storeBlock S hash blockGasU)
    (thenM (onTx (bg_set (KV S) (snapKeyOf height) comHash))
           (onTx (bg_set (KV S) SnapRootKey comHash)))))))))))))"

text \<open>
  \<open>AddBlocks\<close> adds a list of blocks in one database transaction: the state is written once and the
  transaction committed at the end. The loop leaves the completed block in \<open>r_block\<close>.
\<close>

fun AddSmallBlocks :: "('d, 't, 's, 'z) sys_scheme \<Rightarrow> Block list \<Rightarrow> (('d, 't, 's) run, unit) M" where
  "AddSmallBlocks S [] = retM ()"
| "AddSmallBlocks S (b # bs) =
     thenM (modM (\<lambda>r. r\<lparr>r_block := b\<rparr>)) (thenM (AddSmallBlock S b) (AddSmallBlocks S bs))"

definition zeroBlock :: Block where
  "zeroBlock = \<lparr>Height = 0, PrevHash = [], Hash = [], Transactions = [], Root = [], SnapRoot = [], b_Version = 0,
     Timestamp = 0, UsedTime = 0, Miner = Undef, Difficulty = None, GlobalDifficulty = None, b_Nonce = 0,
     b_GasLimit = 0, b_GasUsed = 0\<rparr>"

text \<open>When the commit fails, the message for the log names the last block of the list, which must not be empty.\<close>

definition commitBlocks :: "('d, 't, 's, 'z) sys_scheme \<Rightarrow> Block list \<Rightarrow> (('d, 't, 's) run, unit) M" where
  "commitBlocks S blocks = (\<lambda>r. case commitTx S r of
       (Inl e, r') \<Rightarrow> (Inl (if blocks = [] then Panic ''index out of range'' else e), r')
     | (Inr u, r') \<Rightarrow> (Inr u, r'))"

lemma commitBlocks_ok: "commitBlocks S blocks r = (Inr u, r') \<longleftrightarrow> commitTx S r = (Inr u, r')"
  by (auto simp: commitBlocks_def split: prod.splits sum.splits)

definition AddBlocks :: "('d, 't, 's, 'z) sys_scheme \<Rightarrow> Block list \<Rightarrow> (('d, 's) chain, unit) M" where
  "AddBlocks S blocks = (\<lambda>c.
     case getSnapRoot S (db c) of
       Inl e \<Rightarrow> (Inl e, c)
     | Inr rollroot \<Rightarrow>
        (case thenM (AddSmallBlocks S blocks) (thenM (onChain (factCommit S True)) (commitBlocks S blocks))
               \<lparr>r_chain = c, r_tx = kv_new (KV S) (db c), r_block = zeroBlock\<rparr> of
           (Inr _, r) \<Rightarrow> (Inr (), r_chain r)
         | (Inl e, r) \<Rightarrow> (Inl e, if is_panic e then r_chain r else snd (rollState S rollroot (r_chain r)))))"

section \<open>The contract of the database and the state together\<close>

text \<open>
  The trie writes its nodes, codes and preimages under keys of at least 32 bytes, and a state root
  has 32 bytes.
\<close>

locale chain_sys = badger "KV S" pending + statedb S
  for S :: "('d, 't, 's, 'z) sys_scheme" and pending :: "'t \<Rightarrow> bytes set" +
  assumes trie_frame: "trie_Commit (SD S) h s d = (r, d') \<Longrightarrow> length k < 32 \<Longrightarrow>
      kv_get (KV S) (kv_new (KV S) d') k = kv_get (KV S) (kv_new (KV S) d) k"
    and root_length: "sdb_Commit (SD S) b s = (Inr h, s') \<Longrightarrow> length h = 32"
    and hash_length: "length (sha256 S x) = 32"

text \<open>The keys of the index that a block changes, and the index as the short keys of the database.\<close>

definition short_view :: "('d, 't, 's, 'z) sys_scheme \<Rightarrow> 'd \<Rightarrow> bytes \<rightharpoonup> err + bytes" where
  "short_view S d = (\<lambda>k. if length k < 32 then Some (bgStore_Get (KV S) d k) else None)"

lemma key_lengths [simp]:
  "length HeightKey = 6" "length SnapRootKey = 8" "length (heightKeyOf h) = 19" "length (snapKeyOf h) = 17"
  by (simp_all add: HeightKey_def SnapRootKey_def heightKeyOf_def snapKeyOf_def HeightPrefix_def SnapRootPrefix_def)

lemma length_eMapKey [simp]: "length (eMapKey m k) = 6 + length m + length k"
  by (simp add: eMapKey_def)

lemma index_keys_distinct [simp]:
  "HeightKey \<noteq> SnapRootKey" "HeightKey \<noteq> heightKeyOf h" "HeightKey \<noteq> snapKeyOf h"
  "SnapRootKey \<noteq> heightKeyOf h" "SnapRootKey \<noteq> snapKeyOf h" "heightKeyOf h \<noteq> snapKeyOf h'"
  "heightKeyOf h \<noteq> HeightKey" "snapKeyOf h \<noteq> HeightKey" "heightKeyOf h \<noteq> SnapRootKey" "snapKeyOf h \<noteq> SnapRootKey"
  "SnapRootKey \<noteq> HeightKey" "snapKeyOf h' \<noteq> heightKeyOf h"
  by (auto dest: arg_cong [where f = length])

lemma heightKeyOf_inj [simp]: "heightKeyOf h = heightKeyOf h' \<longleftrightarrow> h = h'"
  by (simp add: heightKeyOf_def)

lemma keepsM_onTx: "keepsM g m \<Longrightarrow> keepsM (\<lambda>r. g (r_tx r)) (onTx m)"
  unfolding onTx_def by (rule keepsM_zoom_on [where g = g]) auto

lemma keepsM_onTx_chain: "keepsM (\<lambda>r. g (r_chain r)) (onTx m)"
  unfolding onTx_def by (rule keepsM_zoom) simp

lemma keepsM_onChain_tx: "keepsM (\<lambda>r. g (r_tx r)) (onChain m)"
  unfolding onChain_def by (rule keepsM_zoom) simp

lemma keepsM_onChain: "keepsM g m \<Longrightarrow> keepsM (\<lambda>r. g (r_chain r)) (onChain m)"
  unfolding onChain_def by (rule keepsM_zoom_on [where g = g]) auto

lemma keepsM_sdb_zoom: "keepsM (\<lambda>c. g (db c)) (zoomM sdb (\<lambda>s. sdb_update (\<lambda>_. s)) m)"
  by (rule keepsM_zoom) simp

lemma keepsM_onSdb_tx: "keepsM (\<lambda>r. g (r_tx r)) (onSdb m)"
  unfolding onSdb_def by (rule keepsM_onChain_tx)

lemma keepsM_onSdb_db: "keepsM (\<lambda>r. g (db (r_chain r))) (onSdb m)"
  unfolding onSdb_def by (rule keepsM_onChain [OF keepsM_sdb_zoom])

lemma keepsM_modTx_tx: "keepsM (\<lambda>r. g (r_tx r)) (modTx i f)"
  unfolding modTx_def by (rule keepsM_mod) simp

lemma keepsM_modTx_chain: "keepsM (\<lambda>r. g (r_chain r)) (modTx i f)"
  unfolding modTx_def by (rule keepsM_mod) simp

lemmas run_frames =
  keepsM_onTx_chain keepsM_onChain_tx keepsM_onSdb_tx keepsM_onSdb_db keepsM_modTx_tx keepsM_modTx_chain
  keepsM_ret keepsM_raise keepsM_fail keepsM_read keepsM_lift keepsM_case_option keepsM_case_prod

text \<open>Execution of transactions never touches the database itself, only the open transaction.\<close>

lemma setAccount_db: "keepsM (\<lambda>c. g (db c)) (setAccount S tx da)"
  unfolding setAccount_def setAccount_withdraw_def
  by (auto simp: Let_def intro!: keeps_rules keepsM_sdb_zoom)

lemma evm_db:
  "keepsM (\<lambda>c. g (db c)) (evm_Create S code)" "keepsM (\<lambda>c. g (db c)) (evm_Call S a inp)"
  "keepsM (\<lambda>c. g (db c)) (evm_finish S block tx gasLeft evmC)"
  by (simp_all add: keepsM_def evm_Create_def evm_Call_def evm_finish_def Let_def split: prod.splits sum.splits)

lemma handleContract_db: "keepsM (\<lambda>c. g (db c)) (handleContractTransaction S block tx index)"
  unfolding handleContractTransaction_def Let_def
  by (intro keeps_rules evm_db) (simp_all add: SetConfig_def)

lemma exec_txs_db: "keepsM (\<lambda>r. g (db (r_chain r))) (exec_txs S height i txs block)"
proof (induction txs arbitrary: i)
  case (Cons tx txs)
  have "keepsM (\<lambda>r. g (db (r_chain r))) (exec_tx S height i tx block)"
    unfolding exec_tx_def exec_coinbase_def exec_lock_def exec_contract_def exec_transfer_def Let_def
    by (intro keepsM_if keepsM_then keepsM_bind run_frames keepsM_onChain [OF setAccount_db]
        keepsM_onChain [OF handleContract_db])
  then show ?case
    by (auto intro!: keeps_rules Cons.IH)
qed (auto intro: keeps_rules)

context chain_sys
begin

text \<open>
  What an open transaction says about the short keys: whether it has written the key, and its value.
\<close>

definition tview :: "'t \<Rightarrow> bytes \<rightharpoonup> bool \<times> (err + bytes)" where
  "tview t = (\<lambda>k. if length k < 32 then Some (k \<in> pending t, bg_get (KV S) t k) else None)"

lemma tview_set:
  assumes "bg_set (KV S) k v t = (Inr u, t')"
  shows "tview t' = (if length k < 32 then (tview t)(k \<mapsto> (True, Inr v)) else tview t)"
proof -
  have "pending t' = insert k (pending t)" "bg_get (KV S) t' = (bg_get (KV S) t)(k := Inr v)"
    using set_ok assms plain.Set_ok [OF assms] by (auto simp: bg_set_def)
  then show ?thesis by (auto simp: tview_def fun_eq_iff)
qed

lemma tview_set_err: "bg_set (KV S) k v t = (Inl e, t') \<Longrightarrow> tview t' = tview t"
  using set_err plain.Set_err by (auto simp: tview_def bg_set_def fun_eq_iff)

lemma tview_set_long: "32 \<le> length k \<Longrightarrow> keepsM tview (bg_set (KV S) k v)"
proof (rule keepsM_I)
  fix t r t' assume "32 \<le> length k" and "bg_set (KV S) k v t = (r, t')"
  then show "tview t' = tview t"
    by (cases r) (auto dest: tview_set tview_set_err)
qed

lemma tview_setTx: "keepsM tview (setTxbyaddrKV S a (Transaction_Hash S tx) h i)"
  unfolding setTxbyaddrKV_def bg_mset_def
  by (intro keepsM_then keepsM_ignore tview_set_long) (simp_all add: Transaction_Hash_def hash_length)

lemma exec_txs_tview: "keepsM (\<lambda>r. tview (r_tx r)) (exec_txs S height i txs block)"
proof (induction txs arbitrary: i)
  case (Cons tx txs)
  have "keepsM (\<lambda>r. tview (r_tx r)) (exec_tx S height i tx block)"
    unfolding exec_tx_def exec_coinbase_def exec_lock_def exec_contract_def exec_transfer_def Let_def
    by (intro keepsM_if keepsM_then keepsM_bind run_frames keepsM_onTx [OF tview_setTx])
  then show ?case
    by (auto intro!: keeps_rules Cons.IH)
qed (auto intro: keeps_rules)

lemma short_view_trie: "keepsM (short_view S) (trie_Commit (SD S) h s)"
  by (rule keepsM_I) (auto simp: short_view_def fun_eq_iff bgStore_Get_def bg_get_def dest: trie_frame)

lemma factCommit_view: "keepsM (\<lambda>c. short_view S (db c)) (factCommit S b)"
proof -
  have "keepsM (\<lambda>c. short_view S (db c))
      (\<lambda>c. zoomM db (\<lambda>d. db_update (\<lambda>_. d)) (trie_Commit (SD S) ha (sdb c)) c)" for ha
    using short_view_trie by (auto simp: keepsM_def zoomM_def split: prod.splits) (metis snd_conv)
  then show ?thesis
    unfolding factCommit_def by (intro keepsM_bind keepsM_then keepsM_ret keepsM_sdb_zoom)
qed

lemma factCommit_root: "factCommit S b c = (Inr h, c') \<Longrightarrow> length h = 32"
  by (auto simp: factCommit_def monad_ok dest: root_length)

text \<open>Everything before the commit leaves the index of the database as it is.\<close>

lemmas db_frames =
  keepsM_onTx_chain [where g = "\<lambda>c. short_view S (db c)"] keepsM_onChain [OF factCommit_view]
  exec_txs_db [where g = "short_view S"] keepsM_ret keepsM_raise keepsM_fail keepsM_read keepsM_lift

lemma body_parts_view:
  "keepsM (\<lambda>r. short_view S (db (r_chain r))) (checkStartRoot S (factCommit S True))"
  "keepsM (\<lambda>r. short_view S (db (r_chain r))) (settleSnapRoot S h)"
  "keepsM (\<lambda>r. short_view S (db (r_chain r))) (setSnapRoot h)"
  "keepsM (\<lambda>r. short_view S (db (r_chain r))) (storeBlock S hash g)"
  "keepsM (\<lambda>r. short_view S (db (r_chain r))) (onChain (modM (\<lambda>c. SetBlockInfo a b m d (NewEvm S c))))"
proof -
  show "keepsM (\<lambda>r. short_view S (db (r_chain r))) (checkStartRoot S (factCommit S True))"
    unfolding checkStartRoot_def by (intro keepsM_bind db_frames)
  show "keepsM (\<lambda>r. short_view S (db (r_chain r))) (settleSnapRoot S h)"
    unfolding settleSnapRoot_def by (intro keepsM_bind db_frames) (simp add: keepsM_def)
  show "keepsM (\<lambda>r. short_view S (db (r_chain r))) (setSnapRoot h)"
    unfolding setSnapRoot_def by (intro keepsM_mod) simp
  show "keepsM (\<lambda>r. short_view S (db (r_chain r))) (storeBlock S hash g)"
    unfolding storeBlock_def by (intro keepsM_bind keepsM_then db_frames keepsM_mod) simp
  show "keepsM (\<lambda>r. short_view S (db (r_chain r))) (onChain (modM (\<lambda>c. SetBlockInfo a b m d (NewEvm S c))))"
    by (rule keepsM_onChain [where g = "\<lambda>c. short_view S (db c)"], rule keepsM_mod)
      (simp add: SetBlockInfo_def NewEvm_def)
qed

lemma body_parts_tview:
  "keepsM (\<lambda>r. tview (r_tx r)) (checkStartRoot S m)"
  "keepsM (\<lambda>r. tview (r_tx r)) (settleSnapRoot S h)"
  "keepsM (\<lambda>r. tview (r_tx r)) (setSnapRoot h)"
  "32 \<le> length hash \<Longrightarrow> keepsM (\<lambda>r. tview (r_tx r)) (storeBlock S hash g)"
proof -
  show "keepsM (\<lambda>r. tview (r_tx r)) (checkStartRoot S m)"
    unfolding checkStartRoot_def by (intro keepsM_bind run_frames)
  show "keepsM (\<lambda>r. tview (r_tx r)) (settleSnapRoot S h)"
    unfolding settleSnapRoot_def by (intro keepsM_bind run_frames) (simp add: keepsM_def)
  show "keepsM (\<lambda>r. tview (r_tx r)) (setSnapRoot h)"
    unfolding setSnapRoot_def by (intro keepsM_mod) simp
  show "32 \<le> length hash \<Longrightarrow> keepsM (\<lambda>r. tview (r_tx r)) (storeBlock S hash g)"
    unfolding storeBlock_def by (intro keepsM_bind keepsM_then run_frames keepsM_mod keepsM_onTx tview_set_long) auto
qed

lemma tview_new: "tview (kv_new (KV S) d) k = (if length k < 32 then Some (False, bgStore_Get (KV S) d k) else None)"
  by (simp add: tview_def new_pending bgStore_Get_def)

lemma accepts_iff: "accepts S k v r \<longleftrightarrow> (\<exists>t'. bg_set (KV S) k v (r_tx r) = (Inr (), t'))"
  by (auto simp: accepts_def split: prod.splits sum.splits)

text \<open>A write whose error is dropped: only its own key may change, and it does when the write was taken.\<close>

lemma onTx_ignored:
  assumes "onTx (ignoreM (bg_set (KV S) k v)) r = (x, r')"
  shows "r_chain r' = r_chain r" and "r_block r' = r_block r"
    and "k' \<noteq> k \<Longrightarrow> bg_get (KV S) (r_tx r') k' = bg_get (KV S) (r_tx r) k'"
    and "pending (r_tx r) \<subseteq> pending (r_tx r')" and "tracks d (r_tx r) \<Longrightarrow> tracks d (r_tx r')"
    and "accepts S k v r \<Longrightarrow> bg_get (KV S) (r_tx r') = (bg_get (KV S) (r_tx r))(k := Inr v)"
proof -
  obtain y t where t: "bg_set (KV S) k v (r_tx r) = (y, t)" by (metis surj_pair)
  then have r: "r' = r\<lparr>r_tx := t\<rparr>"
    using assms by (auto simp: onTx_def monad_simps split: sum.splits)
  show "r_chain r' = r_chain r" "r_block r' = r_block r"
    by (simp_all add: r)
  show "k' \<noteq> k \<Longrightarrow> bg_get (KV S) (r_tx r') k' = bg_get (KV S) (r_tx r) k'"
    using plain.Set_other [OF t] by (simp add: r)
  show "pending (r_tx r) \<subseteq> pending (r_tx r')"
    using t set_ok set_err by (cases y) (auto simp: r bg_set_def)
  show "tracks d (r_tx r) \<Longrightarrow> tracks d (r_tx r')"
    using tracks_set [OF _ t] by (simp add: r)
  show "accepts S k v r \<Longrightarrow> bg_get (KV S) (r_tx r') = (bg_get (KV S) (r_tx r))(k := Inr v)"
    using t plain.Set_ok [of k v "r_tx r"] by (auto simp: r accepts_iff)
qed

lemma tview_ignored_set:
  assumes "accepts S k v r" and "length k < 32" and "onTx (ignoreM (bg_set (KV S) k v)) r = (x, r')"
  shows "tview (r_tx r') = (tview (r_tx r))(k \<mapsto> (True, Inr v)) \<and> r_chain r' = r_chain r \<and> r_block r' = r_block r"
  using assms by (auto simp: onTx_def monad_simps tview_set accepts_iff)

lemma onTx_set_ok:
  assumes "onTx (bg_set (KV S) k v) r = (Inr u, r')"
  shows "tview (r_tx r') = (if length k < 32 then (tview (r_tx r))(k \<mapsto> (True, Inr v)) else tview (r_tx r)) \<and>
    bg_get (KV S) (r_tx r') = (bg_get (KV S) (r_tx r))(k := Inr v) \<and> pending (r_tx r') = insert k (pending (r_tx r)) \<and>
    r_chain r' = r_chain r \<and> r_block r' = r_block r"
  using assms set_ok by (auto simp: onTx_def monad_ok bg_set_def tview_set plain.Set_ok)

text \<open>The commit makes what the transaction says about the short keys true of the database.\<close>

lemma commitTx_ok:
  assumes "commitTx S r = (Inr u, r')"
  shows "short_view S (db (r_chain r')) =
      (\<lambda>k. case tview (r_tx r) k of Some (True, v) \<Rightarrow> Some v | _ \<Rightarrow> short_view S (db (r_chain r)) k) \<and>
    (\<forall>k. k \<in> pending (r_tx r) \<longrightarrow> bgStore_Get (KV S) (db (r_chain r')) k = bg_get (KV S) (r_tx r) k) \<and>
    sdb (r_chain r') = sdb (r_chain r) \<and> r_block r' = r_block r"
proof -
  obtain d' where d: "kv_commit (KV S) (r_tx r) (db (r_chain r)) = (Inr u, d')"
      "r' = r\<lparr>r_chain := (r_chain r)\<lparr>db := d'\<rparr>\<rparr>"
    using assms by (auto simp: commitTx_def onChain_def monad_ok)
  then show ?thesis
    using commit_get [OF d(1)] by (auto simp: short_view_def tview_def fun_eq_iff)
qed

lemma storeBlock_ok:
  assumes "storeBlock S hash g r = (Inr u, r')"
  shows "r_block r' = (r_block r)\<lparr>b_GasUsed := g\<rparr> \<and> hash \<in> pending (r_tx r') \<and> r_chain r' = r_chain r \<and>
    Serialize S (r_block r') = bg_get (KV S) (r_tx r') hash"
  using assms by (auto simp: storeBlock_def monad_ok dest!: onTx_set_ok)

text \<open>The two parts of the body around the writes whose errors are dropped.\<close>

lemma AddBlock_body_parts:
  assumes "AddBlock_body S b r0 = (Inr (), r)"
  obtains h r2 u1 r3 root r9 u2 r10 where
    "AddBlock_open S b r0 = (Inr h, r2)" "onTx (ignoreM (bg_set (KV S) HeightKey (E64func h))) r2 = (Inr u1, r3)"
    "AddBlock_fill S b h r3 = (Inr root, r9)" "onTx (ignoreM (bg_set (KV S) SnapRootKey root)) r9 = (Inr u2, r10)"
    "commitTx S r10 = (Inr (), r)"
  using assms unfolding AddBlock_body_def bindM_ok thenM_ok by (elim exE conjE) (rule that)

text \<open>The chain at the start of the execution: the check of the root commits the state first.\<close>

definition AddBlock_base :: "('d, 's) chain \<Rightarrow> Block \<Rightarrow> ('d, 's) chain" where
  "AddBlock_base c b = (if InitHeight + 1 < Height b then snd (factCommit S True c) else c)"

lemma checkStartRoot_ok:
  assumes "bindM (checkStartRoot S m) (\<lambda>same. failIf (\<not> same) e) r = (Inr u, r')"
  shows "m (r_chain r) = (bg_get (KV S) (r_tx r) SnapRootKey, r_chain r')" "r_tx r' = r_tx r" "r_block r' = r_block r"
  using assms by (auto simp: checkStartRoot_def onChain_def monad_ok)

lemma AddBlock_open_ok:
  assumes "AddBlock_open S b \<lparr>r_chain = c, r_tx = kv_new (KV S) (db c), r_block = b\<rparr> = (Inr h, r)"
  shows "getMaxBlockHeight S (db c) = Inr (h - 1)" and "h = Height b" and "r_chain r = AddBlock_base c b" and "r_block r = b"
    and "InitHeight + 1 < Height b \<Longrightarrow> fst (factCommit S True c) = bgStore_Get (KV S) (db c) SnapRootKey"
    and "tview (r_tx r) = (tview (kv_new (KV S) (db c)))(heightKeyOf h \<mapsto> (True, Inr (Hash b)))"
proof -
  let ?r0 = "\<lparr>r_chain = c, r_tx = kv_new (KV S) (db c), r_block = b\<rparr>"
  obtain prev u1 r1 u2 where s: "getMaxBlockHeight S (db c) = Inr prev" "Height b = prev + 1" "h = prev + 1"
    "(if InitHeight + 1 < Height b then
       bindM (checkStartRoot S (factCommit S True)) (\<lambda>same. failIf (\<not> same) (Err ''snaproot not equal'')) else retM ()) ?r0 = (Inr u1, r1)"
    "onTx (bg_set (KV S) (heightKeyOf h) (Hash b)) r1 = (Inr u2, r)"
    using assms by (auto simp: AddBlock_open_def Let_def bindM_ok thenM_ok readM_ok failIf_ok retM_ok)
  have r1: "r_chain r1 = AddBlock_base c b \<and> r_tx r1 = kv_new (KV S) (db c) \<and> r_block r1 = b \<and>
    (InitHeight + 1 < Height b \<longrightarrow> fst (factCommit S True c) = bgStore_Get (KV S) (db c) SnapRootKey)"
  proof (cases "InitHeight + 1 < Height b")
    case True
    with s(4) checkStartRoot_ok [of "factCommit S True" "Err ''snaproot not equal''" ?r0 u1 r1] show ?thesis
      by (simp add: AddBlock_base_def bgStore_Get_def)
  next
    case False
    with s(4) show ?thesis by (simp add: AddBlock_base_def retM_ok)
  qed
  note w = onTx_set_ok [OF s(5)]
  show "getMaxBlockHeight S (db c) = Inr (h - 1)" "h = Height b" using s by simp_all
  show "r_chain r = AddBlock_base c b" "r_block r = b" using w r1 by simp_all
  show "InitHeight + 1 < Height b \<Longrightarrow> fst (factCommit S True c) = bgStore_Get (KV S) (db c) SnapRootKey" using r1 by simp
  show "tview (r_tx r) = (tview (kv_new (KV S) (db c)))(heightKeyOf h \<mapsto> (True, Inr (Hash b)))" using w r1 by simp
qed

lemma AddBlock_base_view: "short_view S (db (AddBlock_base c b)) = short_view S (db c)"
  using keepsM_run [OF factCommit_view, of True c "fst (factCommit S True c)" "snd (factCommit S True c)"]
  by (simp add: AddBlock_base_def)

text \<open>Whichever way the root of the block is settled, it is the new one.\<close>

lemma settle_ok:
  assumes "(if InitHeight + 1 < h then settleSnapRoot S root
      else if h = InitHeight + 1 then setSnapRoot root
      else raiseM (Err ''block.height < initheight'')) r = (Inr u, r')"
  shows "r' = r\<lparr>r_block := (r_block r)\<lparr>SnapRoot := root\<rparr>\<rparr>" and "InitHeight < h"
proof -
  show "r' = r\<lparr>r_block := (r_block r)\<lparr>SnapRoot := root\<rparr>\<rparr>"
    using assms by (auto simp: settleSnapRoot_def setSnapRoot_def monad_ok split: if_splits)
  show "InitHeight < h"
    using assms by (auto simp: InitHeight_def monad_ok word_less_nat_alt split: if_splits)
qed

lemma AddBlock_fill_ok:
  assumes "AddBlock_fill S b h r = (Inr root, r')" and "length (Hash b) = 32"
  obtains gas re ce where
    "exec_txs S h 0 (Transactions b) b (r\<lparr>r_chain := SetBlockInfo (Height b) (Timestamp b) (commonOrZero S (Miner b)) (Difficulty b) (NewEvm S (r_chain r))\<rparr>) = (Inr gas, re)"
    "factCommit S True (r_chain re) = (Inr root, ce)" "r_chain r' = ce" "InitHeight < Height b"
    "r_block r' = (r_block re)\<lparr>SnapRoot := root, b_GasUsed := gas\<rparr>"
    "short_view S (db ce) = short_view S (db (r_chain r))"
    "tview (r_tx r') = (tview (r_tx r))(snapKeyOf h \<mapsto> (True, Inr root))"
    "Hash b \<in> pending (r_tx r')" "Serialize S (r_block r') = bg_get (KV S) (r_tx r') (Hash b)"
proof -
  let ?r1 = "r\<lparr>r_chain := SetBlockInfo (Height b) (Timestamp b) (commonOrZero S (Miner b)) (Difficulty b) (NewEvm S (r_chain r))\<rparr>"
  obtain gas re r3 u3 r4 r5 u5 where e: "exec_txs S h 0 (Transactions b) b ?r1 = (Inr gas, re)"
    and f: "onChain (factCommit S True) re = (Inr root, r3)"
    and s: "(if InitHeight + 1 < Height b then settleSnapRoot S root
      else if Height b = InitHeight + 1 then setSnapRoot root
      else raiseM (Err ''block.height < initheight'')) r3 = (Inr u3, r4)"
    and st: "storeBlock S (Hash b) gas r4 = (Inr (), r5)"
    and w: "onTx (bg_set (KV S) (snapKeyOf h) root) r5 = (Inr u5, r')"
  proof -
    have m: "onChain (modM (\<lambda>c. SetBlockInfo (Height b) (Timestamp b) (commonOrZero S (Miner b)) (Difficulty b) (NewEvm S c))) r = (Inr (), ?r1)"
      by (simp add: onChain_def monad_simps)
    from assms(1) show thesis
      unfolding AddBlock_fill_def bindM_ok thenM_ok retM_ok m by (elim exE conjE) (simp, hypsubst, rule that, assumption+)
  qed
  have v1: "short_view S (db (r_chain ?r1)) = short_view S (db (r_chain r))" by (simp add: SetBlockInfo_def NewEvm_def)
  have ve: "short_view S (db (r_chain re)) = short_view S (db (r_chain r))" "tview (r_tx re) = tview (r_tx r)"
    using keepsM_run [OF exec_txs_db [where g = "short_view S"] e] keepsM_run [OF exec_txs_tview e] v1 by simp_all
  have fc: "factCommit S True (r_chain re) = (Inr root, r_chain r3)" "r_tx r3 = r_tx re" "r_block r3 = r_block re"
    using f by (auto simp: onChain_def monad_ok)
  note r4 = settle_ok [OF s] and r5 = storeBlock_ok [OF st] and r' = onTx_set_ok [OF w]
  have t5: "tview (r_tx r5) = tview (r_tx r4)"
    using keepsM_run [OF body_parts_tview(4) st] assms(2) by simp
  have ne: "Hash b \<noteq> snapKeyOf h" using assms(2) by (auto dest: arg_cong [where f = length])
  show thesis
  proof (rule that [OF e fc(1)])
    show "short_view S (db (r_chain r3)) = short_view S (db (r_chain r))"
      using keepsM_run [OF factCommit_view fc(1)] ve by simp
    show "tview (r_tx r') = (tview (r_tx r))(snapKeyOf h \<mapsto> (True, Inr root))"
      using r' t5 r4(1) fc ve by simp
    show "Serialize S (r_block r') = bg_get (KV S) (r_tx r') (Hash b)"
      using r' r5 ne by (metis fun_upd_other)
  qed (use r4 r5 r' fc in auto)
qed

text \<open>What a successful run does, in terms of the state of the execution of its transactions.\<close>

definition AddBlock_effect :: "('d, 's) chain \<Rightarrow> Block \<Rightarrow> chash \<Rightarrow> ('d, 's) chain \<Rightarrow> Block \<Rightarrow> bool" where
  "AddBlock_effect c b root c' b' \<longleftrightarrow> (\<exists>t gas r ce d'.
     exec_txs S (Height b) 0 (Transactions b) b
       \<lparr>r_chain = SetBlockInfo (Height b) (Timestamp b) (commonOrZero S (Miner b)) (Difficulty b) (NewEvm S (AddBlock_base c b)),
        r_tx = t, r_block = b\<rparr> = (Inr gas, r) \<and>
     factCommit S True (r_chain r) = (Inr root, ce) \<and> c' = ce\<lparr>db := d'\<rparr> \<and>
     b' = (r_block r)\<lparr>SnapRoot := root, b_GasUsed := gas\<rparr>)"

lemma AddBlock_body_index:
  assumes "AddBlock_body S b \<lparr>r_chain = c, r_tx = kv_new (KV S) (db c), r_block = b\<rparr> = (Inr (), r)"
    and "AddBlock_noted S c b" and len: "length (Hash b) = 32"
  shows "\<exists>root. AddBlock_effect c b root (r_chain r) (r_block r) \<and>
    getMaxBlockHeight S (db c) = Inr (Height b - 1) \<and> InitHeight < Height b \<and>
    (InitHeight + 1 < Height b \<longrightarrow> fst (factCommit S True c) = bgStore_Get (KV S) (db c) SnapRootKey) \<and>
    short_view S (db (r_chain r)) = (short_view S (db c))(heightKeyOf (Height b) \<mapsto> Inr (Hash b),
      HeightKey \<mapsto> Inr (E64func (Height b)), snapKeyOf (Height b) \<mapsto> Inr root, SnapRootKey \<mapsto> Inr root) \<and>
    bgStore_Get (KV S) (db (r_chain r)) (Hash b) = Serialize S (r_block r)"
proof -
  obtain h r2 u1 r3 root r9 u2 r10 where o: "AddBlock_open S b \<lparr>r_chain = c, r_tx = kv_new (KV S) (db c), r_block = b\<rparr> = (Inr h, r2)"
    and i1: "onTx (ignoreM (bg_set (KV S) HeightKey (E64func h))) r2 = (Inr u1, r3)"
    and f: "AddBlock_fill S b h r3 = (Inr root, r9)"
    and i2: "onTx (ignoreM (bg_set (KV S) SnapRootKey root)) r9 = (Inr u2, r10)" and com: "commitTx S r10 = (Inr (), r)"
    using AddBlock_body_parts [OF assms(1)] .
  have acc: "accepts S HeightKey (E64func h) r2" "accepts S SnapRootKey root r9"
    using assms(2) o f i1 by (simp_all add: AddBlock_noted_def)
  note o = AddBlock_open_ok [OF o]
  note t3 = tview_ignored_set [OF acc(1) _ i1] and t10 = tview_ignored_set [OF acc(2) _ i2] and i2 = onTx_ignored [OF i2]
  obtain gas re ce where e: "exec_txs S h 0 (Transactions b) b (r3\<lparr>r_chain := SetBlockInfo (Height b) (Timestamp b) (commonOrZero S (Miner b)) (Difficulty b) (NewEvm S (r_chain r3))\<rparr>) = (Inr gas, re)"
    and fill: "factCommit S True (r_chain re) = (Inr root, ce)" "r_chain r9 = ce" "InitHeight < Height b"
    "r_block r9 = (r_block re)\<lparr>SnapRoot := root, b_GasUsed := gas\<rparr>" "short_view S (db ce) = short_view S (db (r_chain r3))"
    "tview (r_tx r9) = (tview (r_tx r3))(snapKeyOf h \<mapsto> (True, Inr root))"
    "Hash b \<in> pending (r_tx r9)" "Serialize S (r_block r9) = bg_get (KV S) (r_tx r9) (Hash b)"
    using AddBlock_fill_ok [OF f len] .
  have r3: "r3\<lparr>r_chain := x\<rparr> = \<lparr>r_chain = x, r_tx = r_tx r3, r_block = b\<rparr>" "r_chain r3 = AddBlock_base c b" for x
    using t3 o by simp_all
  note cm = commitTx_ok [OF com]
  have "Hash b \<noteq> SnapRootKey" using len by (auto dest: arg_cong [where f = length])
  then have "bgStore_Get (KV S) (db (r_chain r)) (Hash b) = bg_get (KV S) (r_tx r9) (Hash b)"
    using cm fill(7) i2(3,4) by (metis subsetD)
  then have "bgStore_Get (KV S) (db (r_chain r)) (Hash b) = Serialize S (r_block r)"
    using fill(8) cm t10 by simp
  moreover have "short_view S (db (r_chain r)) = (short_view S (db c))(heightKeyOf h \<mapsto> Inr (Hash b),
      HeightKey \<mapsto> Inr (E64func h), snapKeyOf h \<mapsto> Inr root, SnapRootKey \<mapsto> Inr root)"
    using cm t10 t3 fill o r3(2) by (auto simp: fun_eq_iff tview_new AddBlock_base_view split: option.splits)
  moreover have "AddBlock_effect c b root (r_chain r) (r_block r)"
  proof -
    obtain d' where "r = r10\<lparr>r_chain := (r_chain r10)\<lparr>db := d'\<rparr>\<rparr>"
      using com by (auto simp: commitTx_def onChain_def monad_ok)
    then have "r_chain r = ce\<lparr>db := d'\<rparr>" "r_block r = (r_block re)\<lparr>SnapRoot := root, b_GasUsed := gas\<rparr>"
      using fill(2,4) t10 by simp_all
    with e fill(1) show ?thesis unfolding AddBlock_effect_def r3 o(2) by blast
  qed
  ultimately show ?thesis using o fill(3) by blast
qed

lemma AddBlock_cases:
  assumes "AddBlock S (c, b) = (x, (c', b'))" and "getSnapRoot S (db c) = Inr root"
  obtains r where "AddBlock_body S b \<lparr>r_chain = c, r_tx = kv_new (KV S) (db c), r_block = b\<rparr> = (x, r)" "b' = r_block r"
    "c' = (case x of Inr _ \<Rightarrow> r_chain r | Inl e \<Rightarrow> if is_panic e then r_chain r else snd (rollState S root (r_chain r)))"
proof -
  obtain y r where y: "AddBlock_body S b \<lparr>r_chain = c, r_tx = kv_new (KV S) (db c), r_block = b\<rparr> = (y, r)"
    by (metis surj_pair)
  show thesis
  proof (cases y)
    case (Inl e)
    then have "AddBlock S (c, b) = (Inl e, (if is_panic e then r_chain r else snd (rollState S root (r_chain r)), r_block r))"
      using assms(2) y by (simp add: AddBlock_def)
    with assms(1) have "x = Inl e" "b' = r_block r"
        "c' = (if is_panic e then r_chain r else snd (rollState S root (r_chain r)))"
      by simp_all
    with y Inl that [of r] show ?thesis by simp
  next
    case (Inr u)
    then have "AddBlock S (c, b) = (Inr (), (r_chain r, r_block r))"
      using assms(2) y by (simp add: AddBlock_def)
    with assms(1) have "x = Inr ()" "b' = r_block r" "c' = r_chain r"
      by simp_all
    with y Inr that [of r] show ?thesis by simp
  qed
qed

lemma AddBlock_ok:
  assumes "AddBlock S (c, b) = (Inr (), (c', b'))" and "AddBlock_noted S c b" and "length (Hash b) = 32"
  shows "\<exists>root. AddBlock_effect c b root c' b' \<and>
    getMaxBlockHeight S (db c) = Inr (Height b - 1) \<and> InitHeight < Height b \<and>
    (InitHeight + 1 < Height b \<longrightarrow> fst (factCommit S True c) = bgStore_Get (KV S) (db c) SnapRootKey) \<and>
    short_view S (db c') = (short_view S (db c))(heightKeyOf (Height b) \<mapsto> Inr (Hash b),
      HeightKey \<mapsto> Inr (E64func (Height b)), snapKeyOf (Height b) \<mapsto> Inr root, SnapRootKey \<mapsto> Inr root) \<and>
    bgStore_Get (KV S) (db c') (Hash b) = Serialize S b'"
proof -
  obtain root where "getSnapRoot S (db c) = Inr root"
    using assms(1) by (cases "getSnapRoot S (db c)") (simp_all add: AddBlock_def)
  with assms(1) obtain r where r: "AddBlock_body S b \<lparr>r_chain = c, r_tx = kv_new (KV S) (db c), r_block = b\<rparr> = (Inr (), r)"
      "c' = r_chain r" "b' = r_block r"
    by (elim AddBlock_cases) auto
  show ?thesis
    using AddBlock_body_index [OF r(1) assms(2,3)] r by simp
qed

text \<open>A failing body never changes the index: its last step is the commit, which fails without effect.\<close>

lemma commitTx_err: "commitTx S r = (Inl e, r') \<Longrightarrow> short_view S (db (r_chain r')) = short_view S (db (r_chain r))"
  by (auto simp: commitTx_def onChain_def monad_simps short_view_def fun_eq_iff split: prod.splits dest: commit_get_err)

definition failKeeps :: "('y \<Rightarrow> 'x) \<Rightarrow> ('y, 'a) M \<Rightarrow> bool" where
  "failKeeps f m \<longleftrightarrow> (\<forall>s e t. m s = (Inl e, t) \<longrightarrow> f t = f s)"

lemma failKeeps_keeps: "keepsM f m \<Longrightarrow> failKeeps f m"
  by (auto simp: failKeeps_def dest: keepsM_run)

lemma failKeeps_bind: "keepsM f m \<Longrightarrow> (\<And>a. failKeeps f (k a)) \<Longrightarrow> failKeeps f (bindM m k)"
  unfolding failKeeps_def bindM_def by (auto split: prod.splits sum.splits) (metis keepsM_run)+

lemma failKeeps_then: "keepsM f m \<Longrightarrow> failKeeps f k \<Longrightarrow> failKeeps f (thenM m k)"
  unfolding thenM_def by (rule failKeeps_bind)

lemma failKeeps_commit: "failKeeps (\<lambda>r. short_view S (db (r_chain r))) (commitTx S)"
  by (auto simp: failKeeps_def dest: commitTx_err)

lemma AddBlock_body_fail: "failKeeps (\<lambda>r. short_view S (db (r_chain r))) (AddBlock_body S b)"
  unfolding AddBlock_body_def AddBlock_open_def AddBlock_fill_def Let_def
  by (intro failKeeps_bind failKeeps_then failKeeps_commit keepsM_if keepsM_bind keepsM_then db_frames body_parts_view)

lemma rollState_db: "db (snd (rollState S root c)) = db c"
  by (simp add: rollState_def monad_simps updateNewStateByRoot_def NewEvm_def split: sum.splits)

lemma AddBlock_err:
  assumes "AddBlock S (c, b) = (Inl e, (c', b'))"
  shows "short_view S (db c') = short_view S (db c)"
proof (cases "getSnapRoot S (db c)")
  case (Inr rollroot)
  with assms obtain r where r: "AddBlock_body S b \<lparr>r_chain = c, r_tx = kv_new (KV S) (db c), r_block = b\<rparr> = (Inl e, r)"
      "c' = (if is_panic e then r_chain r else snd (rollState S rollroot (r_chain r)))"
    by (elim AddBlock_cases) auto
  have "short_view S (db (r_chain r)) = short_view S (db c)"
    using AddBlock_body_fail [unfolded failKeeps_def, rule_format, OF r(1)] by simp
  then show ?thesis
    using r(2) by (simp add: rollState_db)
qed (use assms in \<open>simp add: AddBlock_def\<close>)

lemma AddBlock_err_state:
  assumes "AddBlock S (c, b) = (Inl e, (c', b'))" and "\<not> is_panic e" and "getSnapRoot S (db c) = Inr root"
    and "state_New (SD S) root (db c') = Inr s"
  shows "sdb c' = s"
proof (rule AddBlock_cases [OF assms(1,3)])
  fix r assume "c' = (case Inl e of Inr _ \<Rightarrow> r_chain r | Inl e \<Rightarrow> if is_panic e then r_chain r
      else snd (rollState S root (r_chain r)))"
  then have r: "c' = snd (rollState S root (r_chain r))"
    using assms(2) by simp
  then have "db c' = db (r_chain r)"
    by (simp add: rollState_db)
  with r assms(4) show "sdb c' = s"
    by (simp add: rollState_def monad_simps updateNewStateByRoot_def NewEvm_def)
qed

end

section \<open>The instance in memory\<close>

interpretation demo_chain_sys: chain_sys demo_sys "\<lambda>t. set (snd t)"
  by (intro chain_sys.intro chain_sys_axioms.intro)
    (auto simp: mem.badger_axioms demo_state.statedb_axioms mem_sdb_def)

lemma demo_accepts: "accepts demo_sys k v r \<longleftrightarrow> k \<noteq> []"
  by (simp add: accepts_def bg_set_def mem_kv_def mem_set_def)

lemma demo_noted: "AddBlock_noted demo_sys c b"
proof -
  have "HeightKey \<noteq> []" "SnapRootKey \<noteq> []" by (auto dest: arg_cong [where f = length])
  then show ?thesis by (simp add: AddBlock_noted_def demo_accepts split: prod.splits sum.splits)
qed

section \<open>Properties\<close>

text \<open>
  C1. What a successful \<open>AddBlock\<close> does. The block extends the chain: its height is one above the old one and
  above the initial height. From its second height on, the state committed at the start has the root that
  the index names. The transactions of the block are executed on that state, in the machine set up for the
  block; the root of the state they leave is the new root, the chain keeps that state, and the block its
  caller holds is the executed one with that root and the gas used. Afterwards the index names the block's
  hash for its height and the new root for the height, the block is stored under its hash in the form its
  caller holds, and, the database having taken the two writes whose errors are dropped, the height is
  the block's and the current root the new one; no other entry under a key of less than 32 bytes (no
  earlier height, no earlier root) has changed.
\<close>

theorem AddBlock_extends_index:
  assumes "chain_sys S pending" and "AddBlock_noted S c b" and "length (Hash b) = 32"
    and "AddBlock S (c, b) = (Inr (), (c', b'))"
    and c1: "c1 = (if InitHeight + 1 < Height b then snd (factCommit S True c) else c)"
  shows "\<exists>root t gas r ce d'. getMaxBlockHeight S (db c) = Inr (Height b - 1) \<and> InitHeight < Height b \<and>
    (InitHeight + 1 < Height b \<longrightarrow> fst (factCommit S True c) = bgStore_Get (KV S) (db c) SnapRootKey) \<and>
    exec_txs S (Height b) 0 (Transactions b) b
      \<lparr>r_chain = SetBlockInfo (Height b) (Timestamp b) (commonOrZero S (Miner b)) (Difficulty b) (NewEvm S c1),
       r_tx = t, r_block = b\<rparr> = (Inr gas, r) \<and>
    factCommit S True (r_chain r) = (Inr root, ce) \<and> c' = ce\<lparr>db := d'\<rparr> \<and>
    b' = (r_block r)\<lparr>SnapRoot := root, b_GasUsed := gas\<rparr> \<and>
    getMaxBlockHeight S (db c') = Inr (Height b) \<and> getHash S (db c') (Height b) = Inr (Hash b) \<and>
    bgStore_Get (KV S) (db c') (Hash b) = Serialize S b' \<and>
    bgStore_Get (KV S) (db c') (snapKeyOf (Height b)) = Inr root \<and>
    bgStore_Get (KV S) (db c') SnapRootKey = Inr root \<and>
    (\<forall>k. length k < 32 \<longrightarrow> k \<notin> {heightKeyOf (Height b), HeightKey, snapKeyOf (Height b), SnapRootKey} \<longrightarrow>
       bgStore_Get (KV S) (db c') k = bgStore_Get (KV S) (db c) k)"
proof -
  obtain root where eff: "chain_sys.AddBlock_effect S c b root c' b'"
      and root: "getMaxBlockHeight S (db c) = Inr (Height b - 1)" "InitHeight < Height b"
      "InitHeight + 1 < Height b \<longrightarrow> fst (factCommit S True c) = bgStore_Get (KV S) (db c) SnapRootKey"
      "bgStore_Get (KV S) (db c') (Hash b) = Serialize S b'"
      and view: "short_view S (db c') = (short_view S (db c))(heightKeyOf (Height b) \<mapsto> Inr (Hash b),
      HeightKey \<mapsto> Inr (E64func (Height b)), snapKeyOf (Height b) \<mapsto> Inr root, SnapRootKey \<mapsto> Inr root)"
    using chain_sys.AddBlock_ok [OF assms(1,4,2,3)] by blast
  have get: "length k < 32 \<Longrightarrow> Some (bgStore_Get (KV S) (db c') k) = short_view S (db c') k"
      "length k < 32 \<Longrightarrow> Some (bgStore_Get (KV S) (db c) k) = short_view S (db c) k" for k
    by (simp_all add: short_view_def)
  have i: "getMaxBlockHeight S (db c') = Inr (Height b)" "getHash S (db c') (Height b) = Inr (Hash b)"
      "bgStore_Get (KV S) (db c') (snapKeyOf (Height b)) = Inr root" "bgStore_Get (KV S) (db c') SnapRootKey = Inr root"
    using get(1) [of HeightKey] get(1) [of "heightKeyOf (Height b)"] get(1) [of "snapKeyOf (Height b)"]
      get(1) [of SnapRootKey] view by (simp_all add: getMaxBlockHeight_def getHash_def)
  have "bgStore_Get (KV S) (db c') k = bgStore_Get (KV S) (db c) k"
    if "length k < 32" "k \<notin> {heightKeyOf (Height b), HeightKey, snapKeyOf (Height b), SnapRootKey}" for k
    using get [OF that(1)] view that(2) by (simp, metis option.inject)
  with i root eff show ?thesis
    unfolding chain_sys.AddBlock_effect_def [OF assms(1)] chain_sys.AddBlock_base_def [OF assms(1)] c1 by blast
qed

text \<open>A database at the initial height and a block with no transactions on top of it.\<close>

definition demo_start :: "(memdb, memstate) chain" where
  "demo_start = demo_chain\<lparr>db := [(HeightKey, E64func 60350422)]\<rparr>"

definition demo_next :: Block where
  "demo_next = demo_block\<lparr>Transactions := []\<rparr>"

lemma demo_next_run: "\<exists>c' b'. AddBlock demo_sys (demo_start, demo_next) = (Inr (), (c', b'))"
proof -
  have keys: "heightKeyOf h \<noteq> []" "snapKeyOf h \<noteq> []" "HeightKey \<noteq> []" "SnapRootKey \<noteq> []" for h
    by (auto dest: arg_cong [where f = length])
  have h: "getMaxBlockHeight demo_sys [(HeightKey, E64func 60350422)] = Inr 60350422"
    by (simp add: getMaxBlockHeight_def bgStore_Get_def bg_get_def mem_kv_def mem_get_def)
  have root: "getSnapRoot demo_sys [(HeightKey, E64func 60350422)] = Inr (replicate 32 0)"
    by (simp add: getSnapRoot_def bgStore_Get_def bg_get_def mem_kv_def mem_get_def ErrKeyNotFound_def)
  have ser: "\<exists>dat. Serialize demo_sys (demo_next\<lparr>SnapRoot := x, b_GasUsed := y\<rparr>) = Inr dat" for x y
    by (simp add: Serialize_def Block_MarshalCBOR_def demo_next_def demo_block_def)
  have b: "Height demo_next = 60350423" "Transactions demo_next = []" "Hash demo_next = replicate 32 1"
    by (simp_all add: demo_next_def demo_block_def)
  obtain dat where "Serialize demo_sys (demo_next\<lparr>SnapRoot := pad_block 32 (replicate 20 1 @ E64func (word_of_int 9000000)), b_GasUsed := 0\<rparr>) = Inr dat"
    using ser by blast
  then show ?thesis
    using keys h root b
    by (simp add: AddBlock_def AddBlock_body_def AddBlock_open_def AddBlock_fill_def demo_start_def monad_simps InitHeight_def Let_def onTx_def onChain_def
        factCommit_def setSnapRoot_def storeBlock_def commitTx_def bg_set_def mem_kv_def mem_set_def mem_commit_def
        mem_sdb_def SetBlockInfo_def NewEvm_def demo_chain_def)
qed

theorem AddBlock_extends_index_witness:
  "\<exists>c' b' root. AddBlock demo_sys (demo_start, demo_next) = (Inr (), (c', b')) \<and> SnapRoot b' = root \<and>
     getMaxBlockHeight demo_sys (db c') = Inr 60350423 \<and> getHash demo_sys (db c') 60350423 = Inr (replicate 32 1) \<and>
     bgStore_Get (KV demo_sys) (db c') SnapRootKey = Inr root"
proof -
  have b: "length (Hash demo_next) = 32" "Height demo_next = 60350423" "Hash demo_next = replicate 32 1"
    by (simp_all add: demo_next_def demo_block_def)
  obtain c' b' where run: "AddBlock demo_sys (demo_start, demo_next) = (Inr (), (c', b'))"
    using demo_next_run by blast
  show ?thesis
    using AddBlock_extends_index [OF demo_chain_sys.chain_sys_axioms demo_noted b(1) run refl] run b by auto
qed

text \<open>
  C9. A failing \<open>AddBlock\<close> rolls back. Whatever the error and however far the block was executed,
  every entry of the index reads as before, and unless the code panicked the account state is the one
  loaded from the old state root, so that nothing the block did to balances or nonces survives.
\<close>

theorem AddBlock_failure_rolls_back:
  assumes "chain_sys S pending" and "AddBlock S (c, b) = (Inl e, (c', b'))"
  shows "(\<forall>k. length k < 32 \<longrightarrow> bgStore_Get (KV S) (db c') k = bgStore_Get (KV S) (db c) k) \<and>
    (\<forall>root s. \<not> is_panic e \<longrightarrow> getSnapRoot S (db c) = Inr root \<longrightarrow> state_New (SD S) root (db c') = Inr s \<longrightarrow> sdb c' = s)"
proof -
  have "short_view S (db c') = short_view S (db c)"
    by (rule chain_sys.AddBlock_err [OF assms])
  then have "bgStore_Get (KV S) (db c') k = bgStore_Get (KV S) (db c) k" if "length k < 32" for k
    using that by (auto simp: short_view_def fun_eq_iff) (metis option.inject)
  then show ?thesis
    using chain_sys.AddBlock_err_state [OF assms] by blast
qed

theorem AddBlock_failure_rolls_back_witness:
  "\<exists>c' b'. AddBlock demo_sys (demo_start, demo_next\<lparr>Height := 5\<rparr>) = (Inl (Err ''height error''), (c', b')) \<and>
     bgStore_Get mem_kv (db c') HeightKey = bgStore_Get mem_kv (db demo_start) HeightKey \<and> sdb c' = ([], [])"
proof -
  have root: "getSnapRoot demo_sys (db demo_start) = Inr (replicate 32 0)"
    by (simp add: demo_start_def getSnapRoot_def bgStore_Get_def bg_get_def mem_kv_def mem_get_def ErrKeyNotFound_def)
  have h: "getMaxBlockHeight demo_sys (db demo_start) = Inr 60350422"
    by (simp add: demo_start_def getMaxBlockHeight_def bgStore_Get_def bg_get_def mem_kv_def mem_get_def)
  obtain c' b' where run: "AddBlock demo_sys (demo_start, demo_next\<lparr>Height := 5\<rparr>) = (Inl (Err ''height error''), (c', b'))"
    using root h by (simp add: AddBlock_def AddBlock_body_def AddBlock_open_def monad_simps InitHeight_def Let_def)
  have new: "state_New (SD demo_sys) (replicate 32 0) (db c') = Inr ([], [])"
    by (simp add: mem_sdb_def)
  show ?thesis
    using AddBlock_failure_rolls_back [OF demo_chain_sys.chain_sys_axioms run] run root new by auto
qed

end
