(* ===== verification/Ledger.thy ===== *)
theory Ledger
  imports Chain
begin

text \<open>
  The money in the accounts across the execution of a block: fees and transfers move it, only
  coinbase transactions create it.
\<close>

text \<open>
  A payment within a set of accounts: a coinbase transaction, or a transfer between two different
  accounts, whose accounts all lie in the set.
\<close>

definition payment_in :: "('d, 't, 's, 'z) sys_scheme \<Rightarrow> caddr set \<Rightarrow> FinishedTransaction \<Rightarrow> bool" where
  "payment_in S A tx \<longleftrightarrow>
     (\<exists>t. NewCommonAddr S (To tx) = Inr t \<and> t \<in> A \<and>
        (IsCoinBaseTransaction tx \<or>
         Type tx \<in> {TransferTransaction, MortgageTransaction, IsTokenTransaction_ty} \<and> From tx \<noteq> To tx \<and>
         (\<exists>f. NewCommonAddr S (From tx) = Inr f \<and> f \<in> A \<and> f \<noteq> t)))"

text \<open>What a transaction creates: the reward and the fee of a coinbase transaction.\<close>

definition minted :: "FinishedTransaction \<Rightarrow> nat" where
  "minted tx = (if IsCoinBaseTransaction tx then unat (Amount tx) + unat (GasCap tx) else 0)"

context statedb
begin

lemma total_mono_set:
  assumes "finite A" and "a \<in> A" and "bal S s a + n < 2 ^ 64"
  shows "funds S (SetBalance (SD S) a (int (bal S s a + n)) s) A = funds S s A + n"
  using total_set [OF assms(1,2), of "int (bal S s a + n)" s] assms(3)
  by (simp del: of_nat_add)

lemma total_setNonce [simp]: "funds S (sdb_SetNonce (SD S) a n s) A = funds S s A"
  by (simp add: funds_def)

lemma setMinerFee_total:
  assumes "setMinerFee S miner gas s = (Inr u, s')" and "NewCommonAddr S miner = Inr m" and "finite A" and "m \<in> A"
  shows "funds S s' A = funds S s A + unat gas"
  using assms total_mono_set [of A m s "unat gas"] by (auto simp: setMinerFee_ok)

lemma setToAccount_total:
  assumes "setToAccount S tx s = (Inr u, s')" and "NewCommonAddr S (To tx) = Inr t" and "finite A" and "t \<in> A"
  shows "funds S s' A = funds S s A + unat (Amount tx)"
  using assms total_mono_set [of A t s "unat (Amount tx)"] by (auto simp: setToAccount_ok)

lemma setAccount_total:
  assumes "setAccount S tx [] c = (Inr u, c')"
    and "NewCommonAddr S (From tx) = Inr f" and "NewCommonAddr S (To tx) = Inr t" and "f \<noteq> t"
    and "plain_transfer tx" and "finite A" and "f \<in> A" and "t \<in> A"
    and "funds S (sdb c) A + unat (GasUsed tx) < 2 ^ 64"
  shows "funds S (sdb c') A + unat (GasUsed tx) = funds S (sdb c) A"
proof -
  let ?s = "sdb c" and ?a = "unat (Amount tx)" and ?g = "unat (GasUsed tx)"
  have "bal S ?s t + ?g < 2 ^ 64"
    using total_le [OF assms(6,8), of S ?s] assms(9) by simp
  from setAccount_plain_ok [OF assms(2,3,5) this, of "[]" u c'] assms(1)
  have le: "bal S ?s (all_key S f) + ?a + ?g \<le> bal S ?s f" "bal S ?s t + ?a + ?g < 2 ^ 64"
    and c': "sdb c' = SetBalance (SD S) t (int (bal S ?s t + ?a)) (SetBalance (SD S) f (int (bal S ?s f - ?a - ?g)) ?s)"
    by (auto simp del: of_nat_add of_nat_diff)
  let ?s1 = "SetBalance (SD S) f (int (bal S ?s f - ?a - ?g)) ?s"
  have "funds S ?s1 A + bal S ?s f = funds S ?s A + (bal S ?s f - ?a - ?g)"
    using total_set [OF assms(6,7), of "int (bal S ?s f - ?a - ?g)" ?s] bal_lt [of S ?s f]
    by (simp del: of_nat_diff)
  moreover have "bal S ?s1 t = bal S ?s t"
    using assms(4) by simp
  moreover have "funds S (SetBalance (SD S) t (int (bal S ?s1 t + ?a)) ?s1) A = funds S ?s1 A + ?a"
    using le assms(4,6,8) by (intro total_mono_set) simp_all
  ultimately show ?thesis
    using le c' by simp
qed

lemma exec_coinbase_total:
  assumes "exec_coinbase S h i tx miner r = (Inr g, r')" and "NewCommonAddr S miner = Inr m" and "m \<in> A"
    and "NewCommonAddr S (To tx) = Inr t" and "t \<in> A" and "finite A"
  shows "funds S (sdb (r_chain r')) A = funds S (sdb (r_chain r)) A + unat (Amount tx) + unat (GasCap tx)"
proof -
  obtain r1 r2 s3 s4 u v where
    r1: "onTx (setTxbyaddrKV S (To tx) (Transaction_Hash S tx) h (word_of_nat i)) r = (Inr (), r1)"
    and r2: "modTx i (GasUsed_update (\<lambda>_. GasLimit tx * GasPrice tx)) r1 = (Inr (), r2)"
    and s3: "setMinerFee S miner (GasLimit tx * GasPrice tx) (sdb (r_chain r2)) = (Inr u, s3)"
    and s4: "setToAccount S tx s3 = (Inr v, s4)" and r': "sdb (r_chain r') = s4"
    using assms(1) by (auto simp: exec_coinbase_def Let_def monad_ok onSdb_def onChain_def)
  have "r_chain r2 = r_chain r"
    using keepsM_run [OF keepsM_onTx_chain [where g = id] r1] keepsM_run [OF keepsM_modTx_chain [where g = id] r2]
    by simp
  then show ?thesis
    using setMinerFee_total [OF s3 assms(2,6,3)] setToAccount_total [OF s4 assms(4,6,5)] r'
    by (simp add: GasCap_def)
qed

lemma exec_transfer_total:
  assumes "exec_transfer S h i tx miner r = (Inr g, r')" and "NewCommonAddr S miner = Inr m" and "m \<in> A"
    and "NewCommonAddr S (From tx) = Inr f" and "f \<in> A" and "NewCommonAddr S (To tx) = Inr t" and "t \<in> A"
    and "f \<noteq> t" and "plain_transfer tx" and "finite A"
    and "funds S (sdb (r_chain r)) A + 2 * unat (GasCap tx) < 2 ^ 64"
  shows "funds S (sdb (r_chain r')) A = funds S (sdb (r_chain r)) A"
proof -
  let ?gas = "GasLimit tx * GasPrice tx"
  obtain r1 r2 s3 r4 s5 u v c c' w where
    r1: "onTx (setTxbyaddrKV S (From tx) (Transaction_Hash S tx) h (word_of_nat i)) r = (Inr (), r1)"
    and r2: "onTx (setTxbyaddrKV S (To tx) (Transaction_Hash S tx) h (word_of_nat i)) r1 = (Inr (), r2)"
    and s3: "setNonce S (From tx) (Nonce tx + 1) (sdb (r_chain r2)) = (Inr u, s3)"
    and r4: "modTx i (GasUsed_update (\<lambda>_. ?gas)) (r2\<lparr>r_chain := (r_chain r2)\<lparr>sdb := s3\<rparr>\<rparr>) = (Inr (), r4)"
    and s5: "setMinerFee S miner ?gas (sdb (r_chain r4)) = (Inr v, s5)"
    and c: "c = (r_chain r4)\<lparr>sdb := s5\<rparr>"
    and c': "setAccount S (tx\<lparr>GasUsed := ?gas\<rparr>) [] c = (Inr w, c')" and r': "r_chain r' = c'"
    using assms(1) by (auto simp: exec_transfer_def Let_def monad_ok onSdb_def onChain_def)
  have eq: "r_chain r2 = r_chain r" "sdb (r_chain r4) = s3"
    using keepsM_run [OF keepsM_onTx_chain [where g = id] r1] keepsM_run [OF keepsM_onTx_chain [where g = id] r2]
      keepsM_run [OF keepsM_modTx_chain [where g = id] r4]
    by simp_all
  have n: "funds S s3 A = funds S (sdb (r_chain r)) A"
    using s3 eq(1) by (auto simp: setNonce_ok)
  have fee: "funds S (sdb c) A = funds S s3 A + unat ?gas"
    using setMinerFee_total [OF s5 assms(2,10,3)] eq(2) c by simp
  have "funds S (sdb c') A + unat ?gas = funds S (sdb c) A"
  proof -
    have "funds S (sdb c) A + unat (GasUsed (tx\<lparr>GasUsed := ?gas\<rparr>)) < 2 ^ 64"
      using assms(11) fee n by (simp add: GasCap_def)
    from setAccount_total [OF c' _ _ assms(8) _ assms(10,5,7) this] show ?thesis
      using assms(4,6,9) by simp
  qed
  with fee n r' show ?thesis by simp
qed

lemma exec_txs_total:
  assumes "exec_txs S h i txs block r = (Inr g, r')" and "NewCommonAddr S (Miner block) = Inr m" and "m \<in> A" and "finite A"
    and "\<forall>tx \<in> set txs. payment_in S A tx \<and> unat (GasCap tx) \<le> G"
    and "funds S (sdb (r_chain r)) A + sum_list (map minted txs) + 2 * G < 2 ^ 64"
  shows "funds S (sdb (r_chain r')) A = funds S (sdb (r_chain r)) A + sum_list (map minted txs)"
  using assms(1,5,6)
proof (induction txs arbitrary: i r g)
  case Nil
  then show ?case by (simp add: monad_simps)
next
  case (Cons tx txs)
  obtain g1 r1 g2 where r1: "exec_tx S h i tx block r = (Inr g1, r1)"
    and rest: "exec_txs S h (Suc i) txs block r1 = (Inr g2, r')"
    using Cons.prems(1) by (auto simp: monad_ok)
  obtain t where t: "NewCommonAddr S (To tx) = Inr t" "t \<in> A"
    using Cons.prems(2) by (auto simp: payment_in_def)
  have "funds S (sdb (r_chain r1)) A = funds S (sdb (r_chain r)) A + minted tx"
  proof (cases "IsCoinBaseTransaction tx")
    case True
    then have "exec_coinbase S h i tx (Miner block) r = (Inr g1, r1)"
      using r1 by (simp add: exec_tx_def)
    from exec_coinbase_total [OF this assms(2,3) t assms(4)] True show ?thesis
      by (simp add: minted_def)
  next
    case False
    then obtain f where f: "NewCommonAddr S (From tx) = Inr f" "f \<in> A" "f \<noteq> t" "From tx \<noteq> To tx"
        and ty: "Type tx \<in> {TransferTransaction, MortgageTransaction, IsTokenTransaction_ty}"
      using Cons.prems(2) t by (auto simp: payment_in_def)
    have plain: "plain_transfer tx" "\<not> (IsLockTransaction tx \<or> IsUnlockTransaction tx)" "\<not> IsEvmContractTransaction tx"
      using ty f(4) by (elim insertE; simp add: txtype_defs is_tx_defs)+
    then have run: "exec_transfer S h i tx (Miner block) r = (Inr g1, r1)"
      using r1 False by (simp add: exec_tx_def)
    have "funds S (sdb (r_chain r)) A + 2 * unat (GasCap tx) < 2 ^ 64"
      using Cons.prems(2,3) by (auto simp: minted_def)
    from exec_transfer_total [OF run assms(2,3) f(1,2) t f(3) plain(1) assms(4) this] False show ?thesis
      by (simp add: minted_def)
  qed
  moreover from this have "funds S (sdb (r_chain r')) A = funds S (sdb (r_chain r1)) A + sum_list (map minted txs)"
    using Cons.prems by (intro Cons.IH [OF rest]) auto
  ultimately show ?case by simp
qed

end

text \<open>
  C2. Money is conserved. When a block of transfers and coinbase transactions is executed, the money
  in any finite set of accounts that contains the miner and everyone the block pays or charges grows
  by exactly what the coinbase transactions create; fees and transfers only move it. (The supply
  and twice the largest fee must fit 64 bits.)
\<close>

theorem block_execution_conserves_money:
  assumes "statedb S" and "exec_txs S h i txs block r = (Inr g, r')"
    and "NewCommonAddr S (Miner block) = Inr m" and "m \<in> A" and "finite A"
    and "\<forall>tx \<in> set txs. payment_in S A tx \<and> unat (GasCap tx) \<le> G"
    and "funds S (sdb (r_chain r)) A + sum_list (map minted txs) + 2 * G < 2 ^ 64"
  shows "funds S (sdb (r_chain r')) A = funds S (sdb (r_chain r)) A + sum_list (map minted txs)"
  using statedb.exec_txs_total [OF assms] .

text \<open>A payment of 500 with 2100000 gas and the reward of the miner, executed on the chain of the examples.\<close>

definition demo_reward :: FinishedTransaction where
  "demo_reward = demo_tx\<lparr>Type := CoinBaseTransaction, To := 0 # replicate 20 9, Amount := 70, GasLimit := 0\<rparr>"

definition demo_run :: "(memdb, memtx, memstate) run" where
  "demo_run = \<lparr>r_chain = demo_chain, r_tx = ([], []), r_block = demo_block\<lparr>Transactions := [demo_pay, demo_reward]\<rparr>\<rparr>"

lemma demo_run_exec:
  "\<exists>g r'. exec_txs demo_sys 60350423 0 [demo_pay, demo_reward] demo_block demo_run = (Inr g, r')"
proof -
  have k: "pad_block 20 (FreezeKey @ replicate 20 1) \<noteq> replicate 20 1" "pad_block 20 (FreezeKey @ replicate 20 1) \<noteq> replicate 20 9"
      "replicate 20 1 \<noteq> (replicate 20 2 :: bytes)" "replicate 20 1 \<noteq> (replicate 20 9 :: bytes)"
      "replicate 20 2 \<noteq> (replicate 20 9 :: bytes)"
    by code_simp+
  show ?thesis
    using k k [symmetric]
    by (simp add: exec_tx_def exec_transfer_def exec_coinbase_def demo_run_def demo_pay_def demo_reward_def demo_tx_def
        demo_block_def demo_chain_def is_tx_defs txtype_defs monad_simps onTx_def onSdb_def onChain_def modTx_def
        setTxbyaddrKV_def setNonce_def setMinerFee_def setToAccount_def setAccount_def setAccount_transfer_def
        getBalance_def getAvailableBalance_def getAllFreezeBalance_def setBalance_def demo_secp demo_store_key
        mem_sdb_def big_Uint64_def Uint64ToBigInt_def MAXUINT64_def Let_def)
qed

theorem block_execution_conserves_money_witness:
  "\<exists>g r'. exec_txs demo_sys 60350423 0 [demo_pay, demo_reward] demo_block demo_run = (Inr g, r') \<and>
     funds demo_sys (sdb (r_chain r')) {replicate 20 1, replicate 20 2, replicate 20 9} = 9000070"
proof -
  let ?A = "{replicate 20 1, replicate 20 2, replicate 20 9} :: caddr set"
  obtain g r' where run: "exec_txs demo_sys 60350423 0 [demo_pay, demo_reward] demo_block demo_run = (Inr g, r')"
    using demo_run_exec by blast
  have ne: "replicate 20 1 \<noteq> (replicate 20 2 :: bytes)" "replicate 20 1 \<noteq> (replicate 20 9 :: bytes)"
      "replicate 20 2 \<noteq> (replicate 20 9 :: bytes)"
    by code_simp+
  have m: "NewCommonAddr demo_sys (Miner demo_block) = Inr (replicate 20 9)"
    by (simp add: demo_block_def demo_secp)
  have pay: "\<forall>tx \<in> set [demo_pay, demo_reward]. payment_in demo_sys ?A tx \<and> unat (GasCap tx) \<le> 2100000"
    using ne by (simp add: payment_in_def demo_pay_def demo_reward_def demo_tx_def demo_secp is_tx_defs txtype_defs GasCap_def)
  have mint: "sum_list (map minted [demo_pay, demo_reward]) = 70"
    by (simp add: minted_def demo_pay_def demo_reward_def demo_tx_def is_tx_defs txtype_defs GasCap_def)
  have tot: "funds demo_sys (sdb (r_chain demo_run)) ?A = 9000000"
    using ne by (simp add: funds_def bal_def demo_run_def demo_chain_def mem_sdb_def big_Uint64_def)
  show ?thesis
    using block_execution_conserves_money [OF demo_state.statedb_axioms run m _ _ pay] tot mint run by simp
qed

end
