(* ===== verification/Reward.thy ===== *)
theory Reward
  imports Chain
begin

text \<open>
  The money the chain creates: the block reward (\<open>GetMinerAmount\<close> of \<open>pkg/blockchain/types.go\<close>),
  the supply as the node reports it and the base pledge derived from it
  (\<open>pkg/blockchain/blockchain.go\<close>), and the coinbase transaction of a new block.
\<close>

section \<open>The block reward\<close>

definition newChantotal0 :: u64 where
  "newChantotal0 =
     (let ktoTotal = 8848000000000000000; oldPhase1 = 31536000 * 49460000000;
          oldPhase2 = (60350422 - 31536000) * 8 div 10 * 49460000000;
          newChainBalance = 1000000000000000000 + oldPhase1 + oldPhase2
      in ktoTotal - newChainBalance)"

fun miner_loop :: "nat \<Rightarrow> u64 \<Rightarrow> u64 \<Rightarrow> u64" where
  "miner_loop 0 newChantotal tot = tot"
| "miner_loop (Suc x) newChantotal tot =
     (let newChantotal = newChantotal - 3153600 * tot
      in miner_loop x newChantotal (newChantotal div 3153600 div 10))"

definition GetMinerAmount :: "u64 \<Rightarrow> err + u64" where
  "GetMinerAmount height =
     (if height < InitHeight then Inl (Panic ''error height < newChainHeight'')
      else let h = height - InitHeight
           in Inr (miner_loop (unat (h div 3153600)) newChantotal0 (newChantotal0 div 3153600 div 10)))"

text \<open>\<open>distr\<close>: the reward is appended as a coinbase transaction from the genesis address.\<close>

definition distr :: "('z) env_scheme \<Rightarrow> SignedTransaction list \<Rightarrow> addr \<Rightarrow> u64 \<Rightarrow> err + SignedTransaction list" where
  "distr E txs minaddr height =
     bindE (GetMinerAmount height) (\<lambda>tot.
       let genesis = (case NewAddrFromString E (GenesisAddress (network E)) of Inl _ \<Rightarrow> Undef | Inr a \<Rightarrow> a)
       in Inr (txs @ [\<lparr>Version = 0, Type = CoinBaseTransaction, From = genesis, To = minaddr, Amount = tot,
                      Nonce = height, GasLimit = 0, GasFeeCap = 0, GasPrice = 0, Input = [],
                      Sig = \<lparr>SigType = 0, Data = []\<rparr>\<rparr>]))"

section \<open>The reported supply\<close>

fun network_loop :: "nat \<Rightarrow> u64 \<Rightarrow> u64 \<Rightarrow> u64 \<times> u64" where
  "network_loop 0 acc tot = (acc, tot)"
| "network_loop (Suc n) acc tot = network_loop n (acc + tot * 3153600) (tot * 5 div 10)"

definition getWholeNetworkNum :: "('d, 't, 's, 'z) sys_scheme \<Rightarrow> 't \<Rightarrow> err + u64" where
  "getWholeNetworkNum S t =
     bindE (getMaxBlockHeight_tx S t) (\<lambda>h.
       let (acc, tot) = network_loop (unat (h div 3153600)) 0 100000000000
       in Inr (acc + (tot * (h mod 3153600) + 10000000000000666666)))"

definition getWholeNetworkPledgeAndNum :: "('d, 't, 's, 'z) sys_scheme \<Rightarrow> 't \<Rightarrow> err + u64 \<times> u64" where
  "getWholeNetworkPledgeAndNum S t = bindE (getWholeNetworkNum S t) (\<lambda>num. Inr (num, 0))"

definition getBasePledge :: "('d, 't, 's, 'z) sys_scheme \<Rightarrow> 't \<Rightarrow> err + u64" where
  "getBasePledge S t =
     bindE (getWholeNetworkPledgeAndNum S t) (\<lambda>(tot, pledgeTotal).
       let bigTotal = Uint64ToBigInt tot; bigPledgeTotal = Uint64ToBigInt pledgeTotal;
           rate = (if bigTotal \<noteq> 0 then big_Uint64 (bigPledgeTotal * 100 div bigTotal) else 0);
           maxPledge = 1200000000000000
       in if 100 < rate then Inl (Err ''rate is not in the range of 0~100'')
          else Inr (maxPledge * (100 - rate) div 100))"

section \<open>The reward in numbers\<close>

text \<open>The coins left at the start of each period of 3153600 blocks; a period pays a tenth of them.\<close>

fun pot :: "nat \<Rightarrow> nat" where
  "pot 0 = unat newChantotal0"
| "pot (Suc k) = pot k - 3153600 * (pot k div 31536000)"

lemma newChantotal0_value: "newChantotal0 = 5148100419980000000"
  by (simp add: newChantotal0_def)

lemma pot_step: "3153600 * (pot k div 31536000) \<le> pot k"
proof -
  have "3153600 * (pot k div 31536000) \<le> 31536000 * (pot k div 31536000)" by simp
  also have "\<dots> \<le> pot k" by simp
  finally show ?thesis .
qed

lemma pot_antimono: "k \<le> k' \<Longrightarrow> pot k' \<le> pot k"
proof (induction k' rule: dec_induct)
  case (step n)
  then show ?case by simp
qed simp

lemma miner_loop_pot:
  "unat t = pot k \<Longrightarrow> unat (miner_loop n t (t div 3153600 div 10)) = pot (k + n) div 31536000"
proof (induction n arbitrary: k t)
  case 0
  then show ?case by (simp add: unat_div div_mult2_eq [symmetric])
next
  case (Suc n)
  let ?q = "t div 3153600 div 10"
  have q: "unat ?q = pot k div 31536000"
    using Suc.prems by (simp add: unat_div div_mult2_eq [symmetric])
  have "3153600 * unat ?q < 2 ^ 64"
    using pot_step [of k] q Suc.prems unat_lt_u64 [of t] by simp
  then have m: "unat (3153600 * ?q) = 3153600 * (pot k div 31536000)"
    using q by (simp add: unat_word_ariths)
  then have "unat (t - 3153600 * ?q) = pot (Suc k)"
    using pot_step [of k] Suc.prems by (simp add: unat_minus_u64 word_le_nat_alt)
  from Suc.IH [OF this] show ?case
    by (simp add: Let_def)
qed

definition reward :: "nat \<Rightarrow> nat" where
  "reward n = pot (n div 3153600) div 31536000"

lemma GetMinerAmount_reward:
  "InitHeight \<le> h \<Longrightarrow> \<exists>a. GetMinerAmount h = Inr a \<and> unat a = reward (unat h - unat InitHeight)"
  using miner_loop_pot [of newChantotal0 0 "unat ((h - InitHeight) div 3153600)"]
  by (simp add: GetMinerAmount_def Let_def reward_def unat_div unat_minus_u64)

lemma reward_antimono: "m \<le> n \<Longrightarrow> reward n \<le> reward m"
  unfolding reward_def by (intro div_le_mono pot_antimono) simp

lemma reward_sum: "(\<Sum>i<n. reward i) + pot (n div 3153600) = unat newChantotal0 + (n mod 3153600) * reward n"
proof (induction n)
  case 0
  then show ?case by simp
next
  case (Suc n)
  show ?case
  proof (cases "Suc (n mod 3153600) = 3153600")
    case True
    then have d: "Suc n mod 3153600 = 0" "Suc n div 3153600 = Suc (n div 3153600)" "n mod 3153600 = 3153599"
      by (simp_all add: mod_Suc div_Suc)
    then show ?thesis
      using Suc pot_step [of "n div 3153600"] by (simp add: reward_def)
  next
    case False
    then have d: "Suc n mod 3153600 = Suc (n mod 3153600)" "Suc n div 3153600 = n div 3153600"
      by (simp_all add: mod_Suc div_Suc)
    then show ?thesis
      using Suc by (simp add: reward_def)
  qed
qed

lemma reward_sum_le: "(\<Sum>i<n. reward i) \<le> unat newChantotal0"
proof -
  have "(n mod 3153600) * reward n \<le> 3153600 * reward n"
    by (intro mult_le_mono1) (simp add: less_imp_le)
  also have "\<dots> \<le> pot (n div 3153600)"
    using pot_step by (simp add: reward_def)
  finally show ?thesis
    using reward_sum [of n] by simp
qed

text \<open>
  C20. The block rewards never exceed the supply. For every height from the initial one on the reward is
  defined and is, as a number, the one computed with unbounded arithmetic: the pot of the height's period
  over 31536000, where the pot starts with the coins for mining and every period takes its rewards from it,
  never more than it holds. So no operation of the 64-bit loop wraps around. The reward never rises with
  the height, and the rewards of any number of blocks together stay within the 5148100419980000000 units
  that the 64-bit constants leave of the total supply.
\<close>

theorem reward_emission_capped:
  assumes "InitHeight \<le> h" and "h \<le> h'"
  shows "\<exists>a a'. GetMinerAmount h = Inr a \<and> GetMinerAmount h' = Inr a' \<and> a' \<le> a \<and>
    unat a = pot ((unat h - unat InitHeight) div 3153600) div 31536000 \<and>
    (\<forall>k. 3153600 * (pot k div 31536000) \<le> pot k) \<and>
    (\<Sum>i < unat h' - unat InitHeight. unat (projr (GetMinerAmount (InitHeight + word_of_nat i)))) \<le> 5148100419980000000"
proof -
  obtain a a' where a: "GetMinerAmount h = Inr a" "unat a = reward (unat h - unat InitHeight)"
      "GetMinerAmount h' = Inr a'" "unat a' = reward (unat h' - unat InitHeight)"
    using GetMinerAmount_reward assms by (meson order.trans)
  have le: "unat InitHeight \<le> unat h" "unat h \<le> unat h'"
    using assms by (simp_all add: word_le_nat_alt)
  then have "a' \<le> a"
    using a reward_antimono [of "unat h - unat InitHeight" "unat h' - unat InitHeight"]
    by (simp add: word_le_nat_alt)
  moreover have "unat (projr (GetMinerAmount (InitHeight + word_of_nat i))) = reward i"
    if "i < unat h' - unat InitHeight" for i
  proof -
    have i: "unat (word_of_nat i :: u64) = i" "unat InitHeight + i < 2 ^ 64"
      using that unat_lt_u64 [of h'] by (simp_all add: unat_of_nat_u64)
    then have "unat (InitHeight + word_of_nat i) = unat InitHeight + i"
      by (simp add: unat_plus_u64)
    moreover from this have "InitHeight \<le> InitHeight + word_of_nat i"
      by (simp add: word_le_nat_alt)
    ultimately show ?thesis
      using GetMinerAmount_reward [of "InitHeight + word_of_nat i"] by auto
  qed
  then have "(\<Sum>i < unat h' - unat InitHeight. unat (projr (GetMinerAmount (InitHeight + word_of_nat i)))) =
      (\<Sum>i < unat h' - unat InitHeight. reward i)"
    by (intro sum.cong) auto
  ultimately show ?thesis
    using a reward_sum_le [of "unat h' - unat InitHeight"] pot_step by (simp add: newChantotal0_value reward_def [of "unat h - unat InitHeight"])
qed

theorem reward_emission_capped_witness:
  "GetMinerAmount 60350422 = Inr 163245193429 \<and>
   (\<exists>a'. GetMinerAmount 70000000 = Inr a' \<and> a' \<le> 163245193429)"
proof -
  have z: "GetMinerAmount 60350422 = Inr 163245193429"
    by (simp add: GetMinerAmount_def InitHeight_def newChantotal0_value)
  have "InitHeight \<le> 60350422" "(60350422 :: u64) \<le> 70000000"
    by (simp_all add: InitHeight_def)
  from reward_emission_capped [OF this] z show ?thesis by auto
qed

section \<open>The supply in numbers\<close>

lemma network_loop_bound:
  assumes "unat tot \<le> 100000000000" and "unat acc + 2 * 3153600 * unat tot \<le> B" and "B < 2 ^ 64"
    and "network_loop n acc tot = (acc', tot')"
  shows "unat acc' + 2 * 3153600 * unat tot' \<le> B \<and> unat acc \<le> unat acc' \<and> unat tot' \<le> unat tot"
  using assms
proof (induction n arbitrary: acc tot)
  case (Suc n)
  have m: "unat (tot * 3153600) = unat tot * 3153600" "unat (tot * 5) = unat tot * 5"
    using Suc.prems(1) by (simp_all add: unat_word_ariths)
  have t: "unat (tot * 5 div 10) = unat tot div 2"
    using m by (simp add: unat_div)
  have s: "unat (acc + tot * 3153600) = unat acc + unat tot * 3153600"
    using m Suc.prems(2,3) by (simp add: unat_plus_u64)
  have "unat (acc + tot * 3153600) + 2 * 3153600 * unat (tot * 5 div 10) \<le> B"
    using s t Suc.prems(2) by simp
  from Suc.IH [OF _ this Suc.prems(3)] Suc.prems(1,4) s t show ?case
    by fastforce
qed simp

text \<open>
  The supply the node reports never wraps around: for every height it lies between the old
  supply of 10000000000000666666 and that plus twice the first period's reward, and the base pledge
  derived from it is the maximal pledge at every height, since the pledged acc is reported as zero.
\<close>

theorem network_supply_bounds:
  assumes "getMaxBlockHeight_tx S t = Inr h"
  shows "\<exists>n. getWholeNetworkNum S t = Inr n \<and> 10000000000000666666 \<le> unat n \<and> unat n \<le> 10630720000000666666 \<and>
    getBasePledge S t = Inr 1200000000000000"
proof -
  obtain acc tot where l: "network_loop (unat (h div 3153600)) 0 100000000000 = (acc, tot)"
    by fastforce
  from network_loop_bound [OF _ _ _ l, of 630720000000000000]
  have b: "unat acc + 2 * 3153600 * unat tot \<le> 630720000000000000" "unat tot \<le> 100000000000"
    by simp_all
  have r: "unat (h mod 3153600) < 3153600"
    by (simp add: unat_mod)
  define p where "p = unat tot * unat (h mod 3153600)"
  have m: "p \<le> unat tot * 3153600"
    using r unfolding p_def by (intro mult_le_mono2) simp
  then have lt: "p < 18446744073709551616" "p + 10000000000000666666 < 18446744073709551616"
    using b by simp_all
  then have p: "unat (tot * (h mod 3153600)) = p"
    unfolding p_def by (intro unat_mult_lem [THEN iffD1]) simp
  have q: "unat (tot * (h mod 3153600) + 10000000000000666666) = p + 10000000000000666666"
    using p lt by (subst unat_plus_u64) simp_all
  let ?n = "acc + (tot * (h mod 3153600) + 10000000000000666666)"
  have n: "unat ?n = unat acc + p + 10000000000000666666"
    using q m b by (subst unat_plus_u64) simp_all
  have num: "getWholeNetworkNum S t = Inr ?n"
    using assms l by (simp add: getWholeNetworkNum_def monad_simps)
  moreover have "getBasePledge S t = Inr 1200000000000000"
    using num by (simp add: getBasePledge_def getWholeNetworkPledgeAndNum_def monad_simps Let_def Uint64ToBigInt_def big_Uint64_def)
  ultimately show ?thesis
    using n m b by auto
qed

theorem network_supply_bounds_witness:
  "getBasePledge demo_sys (kv_new mem_kv []) = Inr 1200000000000000"
proof -
  have "getMaxBlockHeight_tx demo_sys (kv_new mem_kv []) = Inr 0"
    by (simp add: getMaxBlockHeight_tx_def bg_get_def mem_defs ErrKeyNotFound_def)
  from network_supply_bounds [OF this] show ?thesis by blast
qed

end
