(* ===== verification/Floats.thy ===== *)
theory Floats
  imports Complex_Main
begin

text \<open>
  The floating-point arithmetic of Go's \<open>math/big\<close> as the code uses it: a \<open>big.Float\<close> of
  precision \<open>p\<close> is a rational number with a mantissa of \<open>p\<close> bits, and every operation rounds its
  exact result to the nearest such number, ties to even. The exponents stay far inside the range
  of \<open>big.Float\<close>, so that overflow and underflow do not arise. The lemmas say that rounding cannot
  cross a number that already fits, and that its relative error is at most one in \<open>2 ^ p\<close>.
\<close>

fun log2n :: "nat \<Rightarrow> nat" where
  "log2n n = (if n < 2 then 0 else Suc (log2n (n div 2)))"

declare log2n.simps [simp del]

lemma log2n_le: "0 < n \<Longrightarrow> 2 ^ log2n n \<le> n"
proof (induction n rule: log2n.induct)
  case (1 n)
  then show ?case
    by (cases "n < 2") (simp_all add: log2n.simps [of n])
qed

lemma log2n_lt: "n < 2 ^ Suc (log2n n)"
proof (induction n rule: log2n.induct)
  case (1 n)
  then show ?case
    by (cases "n < 2") (simp_all add: log2n.simps [of n])
qed

text \<open>The exponent of the leading bit of a positive number.\<close>

definition ilog2 :: "rat \<Rightarrow> int" where
  "ilog2 q = (if 1 \<le> q then int (log2n (nat \<lfloor>q\<rfloor>)) else - int (Suc (log2n (nat (\<lceil>1 / q\<rceil> - 1)))))"

definition scale :: "nat \<Rightarrow> rat \<Rightarrow> int" where
  "scale p q = ilog2 q - int p + 1"

definition half_even :: "rat \<Rightarrow> int" where
  "half_even x = (let f = \<lfloor>x\<rfloor>; d = x - of_int f
                  in if d < 1 / 2 then f else if d > 1 / 2 then f + 1 else if even f then f else f + 1)"

definition pow2 :: "int \<Rightarrow> rat" where
  "pow2 e = (if 0 \<le> e then 2 ^ nat e else 1 / 2 ^ nat (- e))"

definition round_to :: "nat \<Rightarrow> rat \<Rightarrow> rat" where
  "round_to p q = (if q \<le> 0 then 0 else of_int (half_even (q / pow2 (scale p q))) * pow2 (scale p q))"

text \<open>Rounding of numbers of either sign, and \<open>Float.Int\<close>, which truncates towards zero.\<close>

definition fround :: "nat \<Rightarrow> rat \<Rightarrow> rat" where
  "fround p q = (if q < 0 then - round_to p (- q) else round_to p q)"

definition Float_Int :: "rat \<Rightarrow> int" where
  "Float_Int q = (if q < 0 then \<lceil>q\<rceil> else \<lfloor>q\<rfloor>)"

lemma pow2_powi: "pow2 e = 2 powi e"
  by (simp add: pow2_def power_int_def inverse_eq_divide power_one_over)

lemma ilog2_le: "0 < q \<Longrightarrow> pow2 (ilog2 q) \<le> q"
proof (cases "1 \<le> q")
  case True
  then have "0 < nat \<lfloor>q\<rfloor>" by simp
  then have "(2 :: nat) ^ log2n (nat \<lfloor>q\<rfloor>) \<le> nat \<lfloor>q\<rfloor>" by (rule log2n_le)
  then have "(2 :: rat) ^ log2n (nat \<lfloor>q\<rfloor>) \<le> of_nat (nat \<lfloor>q\<rfloor>)"
    by (metis of_nat_le_iff of_nat_numeral of_nat_power)
  also have "\<dots> \<le> q" using True by simp
  finally show ?thesis using True by (simp add: ilog2_def pow2_def)
next
  case False
  assume q: "0 < q"
  define c where "c = nat (\<lceil>1 / q\<rceil> - 1)"
  have c: "1 / q \<le> of_nat (Suc c)"
  proof -
    have "1 \<le> \<lceil>1 / q\<rceil>" using q by simp
    then have "of_nat (Suc c) = (of_int \<lceil>1 / q\<rceil> :: rat)" by (simp add: c_def)
    then show ?thesis by (simp only: le_of_int_ceiling)
  qed
  have "Suc c \<le> 2 ^ Suc (log2n c)" using log2n_lt [of c] by (simp only: Suc_le_eq)
  then have "(of_nat (Suc c) :: rat) \<le> 2 ^ Suc (log2n c)"
    by (metis of_nat_le_iff of_nat_numeral of_nat_power)
  with c have "1 / q \<le> 2 ^ Suc (log2n c)" by (rule order_trans)
  then have "1 / 2 ^ Suc (log2n c) \<le> q" using q by (simp add: field_simps)
  with False show ?thesis
    by (simp add: ilog2_def pow2_def c_def nat_add_distrib)
qed

lemma half_even_bounds:
  fixes x :: rat
  shows "x \<le> of_int m \<Longrightarrow> half_even x \<le> m" and "of_int m \<le> x \<Longrightarrow> m \<le> half_even x"
proof -
  assume "x \<le> of_int m"
  show "half_even x \<le> m"
  proof (cases "x = of_int m")
    case True
    then show ?thesis by (simp add: half_even_def)
  next
    case False
    with \<open>x \<le> of_int m\<close> have "\<lfloor>x\<rfloor> + 1 \<le> m" by (metis add1_zle_eq floor_less_iff order_le_less)
    then show ?thesis by (auto simp: half_even_def Let_def)
  qed
next
  assume "of_int m \<le> x"
  then have "m \<le> \<lfloor>x\<rfloor>" by (simp add: le_floor_iff)
  then show "m \<le> half_even x" by (auto simp: half_even_def Let_def)
qed

lemma ilog2_lt: "0 < q \<Longrightarrow> q < 2 * pow2 (ilog2 q)"
proof (cases "1 \<le> q")
  case True
  have "nat \<lfloor>q\<rfloor> + 1 \<le> 2 ^ Suc (log2n (nat \<lfloor>q\<rfloor>))" using log2n_lt [of "nat \<lfloor>q\<rfloor>"] by (simp only: Suc_le_eq Suc_eq_plus1 [symmetric])
  then have "(of_nat (nat \<lfloor>q\<rfloor> + 1) :: rat) \<le> 2 ^ Suc (log2n (nat \<lfloor>q\<rfloor>))"
    by (metis of_nat_le_iff of_nat_numeral of_nat_power)
  moreover have "q < of_nat (nat \<lfloor>q\<rfloor> + 1)" using True floor_correct [of q] by simp
  ultimately show ?thesis using True by (simp add: ilog2_def pow2_def)
next
  case False
  assume q: "0 < q"
  define c where "c = nat (\<lceil>1 / q\<rceil> - 1)"
  have "1 < 1 / q" using q False by simp
  then have "1 < \<lceil>1 / q\<rceil>" by (simp add: less_ceiling_iff)
  then have c0: "0 < c" and c1: "of_nat c < 1 / q"
    using ceiling_correct [of "1 / q"] by (simp_all add: c_def)
  have "(2 :: rat) ^ log2n c \<le> of_nat c"
    using log2n_le [OF c0] by (metis of_nat_le_iff of_nat_numeral of_nat_power)
  then have "2 ^ log2n c < 1 / q" using c1 by (rule le_less_trans)
  then have "q < 1 / 2 ^ log2n c" using q by (simp add: field_simps)
  with False show ?thesis
    by (simp add: ilog2_def pow2_def c_def nat_add_distrib)
qed

lemma pow2_pos [simp]: "0 < pow2 e"
  by (simp add: pow2_def)

lemma pow2_nz [simp]: "pow2 e \<noteq> 0"
  using pow2_pos [of e] by linarith

lemma pow2_add: "pow2 (a + b) = pow2 a * pow2 b"
  by (simp add: pow2_powi power_int_add)

lemma pow2_nat: "pow2 (int n) = 2 ^ n"
  by (simp add: pow2_def)

lemma scale_le: "0 < q \<Longrightarrow> 0 < p \<Longrightarrow> 2 ^ (p - 1) * pow2 (scale p q) \<le> q"
proof -
  assume q: "0 < q" "0 < p"
  have "ilog2 q = int (p - 1) + scale p q" using q by (simp add: scale_def)
  then have "pow2 (ilog2 q) = 2 ^ (p - 1) * pow2 (scale p q)"
    by (simp add: pow2_add pow2_nat)
  then show ?thesis using ilog2_le [OF q(1)] by simp
qed

lemma pow2_split: "e \<le> k \<Longrightarrow> pow2 k = 2 ^ nat (k - e) * pow2 e"
  using pow2_add [of "k - e" e] by (simp add: pow2_def [of "k - e"])

lemma pow2_nonneg [simp]: "0 \<le> pow2 e"
  by (rule less_imp_le) simp

lemma small_repr:
  assumes "k < e" and "0 \<le> m" and "m \<le> 2 ^ p" and "0 < p"
  shows "of_int m * pow2 k \<le> 2 ^ (p - 1) * pow2 e"
proof -
  have "pow2 k \<le> pow2 (e - 1)"
    using pow2_split [of k "e - 1"] assms(1) by simp
  moreover have "(of_int m :: rat) \<le> 2 ^ p"
    using assms(3) by (metis of_int_le_iff of_int_numeral of_int_power)
  ultimately have "of_int m * pow2 k \<le> 2 ^ p * pow2 (e - 1)"
    by (intro mult_mono) simp_all
  also have "\<dots> = 2 ^ (p - 1) * pow2 e"
    using assms(4) pow2_add [of 1 "e - 1"] by (cases p) (simp_all add: pow2_def)
  finally show ?thesis .
qed

text \<open>
  Rounding cannot cross a number that has at most \<open>p\<close> bits: \<open>m * 2 ^ k\<close> with \<open>m \<le> 2 ^ p\<close>.
\<close>

lemma round_to_le:
  assumes "q \<le> of_int m * pow2 k" and "0 \<le> m" and "m \<le> 2 ^ p" and "0 < p"
  shows "round_to p q \<le> of_int m * pow2 k"
proof (cases "q \<le> 0")
  case True
  then show ?thesis using assms(2) by (simp add: round_to_def)
next
  case False
  define e where "e = scale p q"
  have "\<exists>j. q / pow2 e \<le> of_int j \<and> of_int j * pow2 e \<le> of_int m * pow2 k"
  proof (cases "e \<le> k")
    case True
    note k = pow2_split [OF True]
    have "q / pow2 e \<le> of_int (m * 2 ^ nat (k - e))"
      using assms(1) by (simp add: divide_le_eq ac_simps k)
    then show ?thesis by (intro exI [of _ "m * 2 ^ nat (k - e)"]) (simp add: k)
  next
    case False
    then have "of_int m * pow2 k \<le> 2 ^ (p - 1) * pow2 e"
      using assms by (intro small_repr) simp_all
    moreover have "2 ^ (p - 1) * pow2 e \<le> q"
      using \<open>\<not> q \<le> 0\<close> assms(4) unfolding e_def by (intro scale_le) simp_all
    ultimately have "q = 2 ^ (p - 1) * pow2 e" using assms(1) by linarith
    then show ?thesis using assms(1) by (intro exI [of _ "2 ^ (p - 1)"]) simp
  qed
  then obtain j where j: "q / pow2 e \<le> of_int j" "of_int j * pow2 e \<le> of_int m * pow2 k" by blast
  have "of_int (half_even (q / pow2 e)) * pow2 e \<le> of_int j * pow2 e"
    using half_even_bounds(1) [OF j(1)] by simp
  then have "of_int (half_even (q / pow2 e)) * pow2 e \<le> of_int m * pow2 k" using j(2) by linarith
  with False show ?thesis by (simp add: round_to_def e_def)
qed

lemma round_to_ge:
  assumes "of_int m * pow2 k \<le> q" and "0 \<le> m" and "m \<le> 2 ^ p" and "0 < p"
  shows "of_int m * pow2 k \<le> round_to p q"
proof (cases "q \<le> 0")
  case True
  then show ?thesis using assms(1) by (simp add: round_to_def)
next
  case False
  define e where "e = scale p q"
  have "\<exists>j. of_int j \<le> q / pow2 e \<and> of_int m * pow2 k \<le> of_int j * pow2 e"
  proof (cases "e \<le> k")
    case True
    note k = pow2_split [OF True]
    have "of_int (m * 2 ^ nat (k - e)) \<le> q / pow2 e"
      using assms(1) by (simp add: le_divide_eq ac_simps k)
    then show ?thesis by (intro exI [of _ "m * 2 ^ nat (k - e)"]) (simp add: k)
  next
    case False
    then have "of_int m * pow2 k \<le> 2 ^ (p - 1) * pow2 e"
      using assms by (intro small_repr) simp_all
    moreover have "2 ^ (p - 1) * pow2 e \<le> q"
      using \<open>\<not> q \<le> 0\<close> assms(4) unfolding e_def by (intro scale_le) simp_all
    ultimately show ?thesis by (intro exI [of _ "2 ^ (p - 1)"]) (simp add: le_divide_eq)
  qed
  then obtain j where j: "of_int j \<le> q / pow2 e" "of_int m * pow2 k \<le> of_int j * pow2 e" by blast
  have "of_int j * pow2 e \<le> of_int (half_even (q / pow2 e)) * pow2 e"
    using half_even_bounds(2) [OF j(1)] by simp
  then have "of_int m * pow2 k \<le> of_int (half_even (q / pow2 e)) * pow2 e" using j(2) by linarith
  with False show ?thesis by (simp add: round_to_def e_def)
qed

lemma round_to_exact: "0 \<le> m \<Longrightarrow> m \<le> 2 ^ p \<Longrightarrow> 0 < p \<Longrightarrow> round_to p (of_int m * pow2 k) = of_int m * pow2 k"
  by (intro order_antisym round_to_le round_to_ge) simp_all

lemma round_to_error:
  assumes "0 < q" and "0 < p"
  shows "\<bar>round_to p q - q\<bar> * 2 ^ p \<le> q"
proof -
  define e where "e = scale p q"
  have "\<bar>of_int (half_even x) - x\<bar> \<le> 1 / 2" for x :: rat
    using floor_correct [of x] by (auto simp: half_even_def Let_def)
  then have "\<bar>of_int (half_even (q / pow2 e)) - q / pow2 e\<bar> * pow2 e \<le> 1 / 2 * pow2 e"
    by (intro mult_right_mono) simp_all
  moreover have "\<bar>of_int (half_even (q / pow2 e)) - q / pow2 e\<bar> * pow2 e
      = \<bar>(of_int (half_even (q / pow2 e)) - q / pow2 e) * pow2 e\<bar>" by (simp add: abs_mult)
  ultimately have "\<bar>round_to p q - q\<bar> \<le> pow2 e / 2"
    using assms by (simp add: round_to_def left_diff_distrib flip: e_def)
  then have "\<bar>round_to p q - q\<bar> * 2 ^ p \<le> pow2 e / 2 * 2 ^ p" by (intro mult_right_mono) simp_all
  also have "\<dots> = 2 ^ (p - 1) * pow2 e" using assms(2) by (cases p) simp_all
  also have "\<dots> \<le> q" unfolding e_def by (rule scale_le [OF assms])
  finally show ?thesis .
qed

end
