(* ===== verification/Difficulty.thy ===== *)
theory Difficulty
  imports Bigint Floats
begin

text \<open>
  Proof-of-work targets: the compact form of a target and the retargeting rule, from
  \<open>pkg/util/difficulty/difficulty.go\<close>. \<open>pkg/blockchain/blockchain.go\<close> has copies of the two
  conversions.
\<close>

section \<open>Targets\<close>

definition powLimit :: int where
  "powLimit = 2 ^ 255 - 1"

definition CompactToBig :: "u32 \<Rightarrow> int" where
  "CompactToBig bits =
     (let mantissa = bits AND 0x007fffff;
          isNegative = (bits AND 0x00800000 \<noteq> 0);
          exponent = unat (drop_bit 24 bits);
          bn = (if exponent \<le> 3 then int (unat (drop_bit (8 * (3 - exponent)) mantissa))
                else int (unat mantissa) * 2 ^ (8 * (exponent - 3)))
      in if isNegative then - bn else bn)"

text \<open>
  \<open>Bits()[0]\<close> is the lowest word of the absolute value; \<open>Rsh\<close> of a negative number rounds towards
  minus infinity.
\<close>

definition BigToCompact :: "int \<Rightarrow> u32" where
  "BigToCompact n =
     (if n = 0 then 0
      else let exponent = length (be_bytes (nat \<bar>n\<bar>));
               mantissa = (if exponent \<le> 3 then push_bit (8 * (3 - exponent)) (word_of_int \<bar>n\<bar> :: u32)
                           else word_of_int \<bar>n div 2 ^ (8 * (exponent - 3))\<bar>);
               (mantissa, exponent) =
                 (if mantissa AND 0x00800000 \<noteq> 0 then (drop_bit 8 mantissa, exponent + 1) else (mantissa, exponent));
               packed = push_bit 24 (word_of_nat exponent) OR mantissa
           in if n < 0 then packed OR 0x00800000 else packed)"

text \<open>The span of time wraps at 64 bits; the target time of the cycle is 100 seconds.\<close>

definition CalcNextGlobalRequiredDifficulty :: "64 word \<Rightarrow> 64 word \<Rightarrow> u32 \<Rightarrow> u32" where
  "CalcNextGlobalRequiredDifficulty t0 t1 globalBits =
     (let adjustedTimespan = sint (t1 - t0);
          oldTarget = CompactToBig globalBits;
          newTarget = oldTarget * adjustedTimespan div 100
      in BigToCompact (if powLimit < newTarget then powLimit else newTarget))"

text \<open>The bytes are reversed and read big-endian.\<close>

definition HashToBig :: "bytes \<Rightarrow> int" where
  "HashToBig buf = int (be_val (rev buf))"

text \<open>
  The target of a miner: between the global target and ten times it, in proportion to the pledge.
  \<open>SetUint64\<close> is exact at 64 bits, \<open>NewFloat(0).SetInt\<close> rounds to 53 bits, and the other operations
  round to 64 bits. Zero divided by zero panics.
\<close>

definition NextMinerDifficulty :: "int \<Rightarrow> u64 \<Rightarrow> u64 \<Rightarrow> err + int" where
  "NextMinerDifficulty baseDifficulty minerPledge basePledge =
     (let minerPledge = (if basePledge < minerPledge then basePledge else minerPledge)
      in if basePledge = 0 then Inl (Panic ''division of zero by zero or infinity by infinity'')
         else let a = fround 64 (of_nat (unat minerPledge) / of_nat (unat basePledge));
                  a = fround 64 (a * 9);
                  a = fround 64 (a * fround 53 (of_int baseDifficulty));
                  minerTarget = Float_Int (fround 64 (a + fround 53 (of_int baseDifficulty)))
              in if minerTarget < baseDifficulty then Inl (Err ''miners too difficult'')
                 else if baseDifficulty * 10 < minerTarget then Inl (Err ''miners too little difficulty'')
                 else Inr minerTarget)"

section \<open>The compact form in numbers\<close>

lemma mask23: "(c :: u32) AND 0x007fffff = take_bit 23 c"
proof -
  have "(0x007fffff :: u32) = mask 23" by (simp add: mask_eq_exp_minus_1)
  then show ?thesis by (simp only: take_bit_eq_mask)
qed

lemma bit23: "(c :: u32) AND 0x00800000 \<noteq> 0 \<longleftrightarrow> bit c 23"
proof -
  have "(0x00800000 :: u32) = 2 ^ 23" by simp
  then show ?thesis by (simp only: and_exp_eq_0_iff_not_bit not_not)
qed

lemma unat_drop: "unat (drop_bit n (c :: u32)) = unat c div 2 ^ n"
proof -
  have "take_bit 32 (unat c) = unat c"
    using unsigned_less [of c, where ?'a = nat] by (simp add: take_bit_nat_eq_self)
  then show ?thesis
    unfolding unsigned_drop_bit_eq by (simp add: drop_bit_eq_div)
qed

lemma unat_take: "n \<le> 32 \<Longrightarrow> unat (take_bit n (c :: u32)) = unat c mod 2 ^ n"
  unfolding unsigned_take_bit_eq by (simp only: take_bit_eq_mod)

lemma bit_unat: "bit (c :: u32) n \<longleftrightarrow> odd (unat c div 2 ^ n)"
proof -
  have "bit c n \<longleftrightarrow> bit (unat c) n"
    by (auto simp: bit_unsigned_iff dest: bit_imp_le_length)
  then show ?thesis by (simp only: bit_iff_odd)
qed

lemma CompactToBig_unat:
  assumes "unat c = e * 2 ^ 24 + m" and "m < 2 ^ 23"
  shows "CompactToBig c = int (if e \<le> 3 then m div 256 ^ (3 - e) else m * 256 ^ (e - 3))"
proof -
  have c: "unat c = e * 16777216 + m" and m: "m < 8388608"
    using assms by simp_all
  have "unat c div 2 ^ 23 = 2 * e" unfolding c using m by simp
  then have "\<not> bit c 23" by (simp only: bit_unat) simp
  then have n: "\<not> (c AND 0x00800000 \<noteq> 0)" by (simp only: bit23 simp_thms)
  have "unat c = m + (2 * e) * 2 ^ 23" using c by simp
  then have m2: "unat c mod 2 ^ 23 = m" using assms(2) by (metis mod_mult_self1 mod_less)
  have k: "unat (c AND 0x007fffff) = m"
    unfolding mask23 using m2 by (simp add: unat_take [of 23])
  have x: "unat c div 2 ^ 24 = e"
    using c m by simp
  have p: "(2 :: nat) ^ (8 * j) = 256 ^ j" "(2 :: int) ^ (8 * j) = 256 ^ j" for j
    by (simp_all add: power_mult)
  show ?thesis
    using n by (simp only: CompactToBig_def Let_def unat_drop x k p if_False if_True simp_thms split: if_split) simp
qed

lemma compact_pack:
  assumes "m < 2 ^ 24" and "e < 256"
  shows "unat (push_bit 24 (word_of_nat e) OR word_of_nat m :: u32) = e * 2 ^ 24 + m"
proof -
  have "push_bit 24 (word_of_nat e) OR (word_of_nat m :: u32) = push_bit 24 (word_of_nat e) + word_of_nat m"
  proof (rule disjunctive_add [symmetric])
    fix k
    have "\<not> bit (word_of_nat m :: u32) k" if "24 \<le> k"
    proof -
      have "(2 :: nat) ^ 24 \<le> 2 ^ k" using that by (intro power_increasing) auto
      with assms(1) have "m div 2 ^ k = 0" by simp
      moreover have "unat (word_of_nat m :: u32) = m"
        using assms(1) by (simp add: unat_of_nat take_bit_nat_eq_self)
      ultimately show ?thesis by (simp only: bit_unat) simp
    qed
    then show "\<not> bit (push_bit 24 (word_of_nat e :: u32)) k \<or> \<not> bit (word_of_nat m :: u32) k"
      by (auto simp: bit_push_bit_iff)
  qed
  moreover have "unat (push_bit 24 (word_of_nat e) + word_of_nat m :: u32) = e * 2 ^ 24 + m"
  proof -
    have "push_bit 24 (word_of_nat e) + word_of_nat m = (word_of_nat (e * 2 ^ 24 + m) :: u32)"
      by (simp add: push_bit_eq_mult)
    moreover have "unat (word_of_nat (e * 2 ^ 24 + m) :: u32) = e * 2 ^ 24 + m"
    proof -
      have "e * 2 ^ 24 + m < 2 ^ 32" using assms by simp
      then show ?thesis by (simp only: unat_of_nat) (simp add: take_bit_nat_eq_self)
    qed
    ultimately show ?thesis by (simp only:)
  qed
  ultimately show ?thesis by simp
qed

text \<open>The number of bytes of a positive number and its three leading bytes.\<close>

definition nbytes :: "nat \<Rightarrow> nat" where
  "nbytes n = length (be_bytes n)"

lemma be_bytes_bounds:
  assumes "0 < n"
  shows "256 ^ (nbytes n - 1) \<le> n" and "n < 256 ^ nbytes n" and "0 < nbytes n"
proof -
  show lt: "n < 256 ^ nbytes n"
    using be_val_lt [of "be_bytes n"] by (simp add: nbytes_def be_val_be_bytes)
  show pos: "0 < nbytes n"
    using lt assms by (cases "nbytes n") auto
  show "256 ^ (nbytes n - 1) \<le> n"
  proof (rule ccontr)
    assume "\<not> ?thesis"
    then have "length (be_bytes n) \<le> nbytes n - 1"
      by (intro length_be_bytes_le) simp
    then have "nbytes n \<le> nbytes n - 1" by (simp only: nbytes_def)
    with pos show False by simp
  qed
qed

definition mant0 :: "nat \<Rightarrow> nat" where
  "mant0 n = (if nbytes n \<le> 3 then n * 256 ^ (3 - nbytes n) else n div 256 ^ (nbytes n - 3))"

lemma mant0_bounds: "0 < n \<Longrightarrow> 2 ^ 16 \<le> mant0 n \<and> mant0 n < 2 ^ 24"
proof -
  assume n: "0 < n"
  note b = be_bytes_bounds [OF n]
  show ?thesis
  proof (cases "nbytes n \<le> 3")
    case True
    then consider "nbytes n = 1" | "nbytes n = 2" | "nbytes n = 3"
      using b(3) by linarith
    then show ?thesis
      using b by cases (simp_all add: mant0_def)
  next
    case False
    define k where "k = nbytes n - 3"
    have e: "nbytes n - 1 = k + 2" "nbytes n = k + 3" using False by (simp_all add: k_def)
    have "2 ^ 16 * 256 ^ k \<le> n"
      using b(1) unfolding e(1) by (simp add: power_add mult.commute)
    moreover have "n < 2 ^ 24 * 256 ^ k"
      using b(2) unfolding e(2) by (simp add: power_add mult.commute)
    ultimately show ?thesis
      using False by (simp add: mant0_def flip: k_def)
        (simp add: less_mult_imp_div_less less_eq_div_iff_mult_less_eq)
  qed
qed

text \<open>The exponent and mantissa that the compact form stores.\<close>

definition cexp :: "nat \<Rightarrow> nat" where
  "cexp n = (if 2 ^ 23 \<le> mant0 n then nbytes n + 1 else nbytes n)"

definition cmant :: "nat \<Rightarrow> nat" where
  "cmant n = (if 2 ^ 23 \<le> mant0 n then mant0 n div 256 else mant0 n)"

lemma cmant_bounds: "0 < n \<Longrightarrow> 2 ^ 15 \<le> cmant n \<and> cmant n < 2 ^ 23"
  using mant0_bounds [of n] by (auto simp: cmant_def)

lemma bit23_nat: "m < 2 ^ 24 \<Longrightarrow> (word_of_nat m :: u32) AND 0x00800000 \<noteq> 0 \<longleftrightarrow> 2 ^ 23 \<le> m"
proof -
  assume m: "m < 2 ^ 24"
  then have u: "unat (word_of_nat m :: u32) = m" by (simp add: unat_of_nat take_bit_nat_eq_self)
  have "m div 2 ^ 23 = (if 2 ^ 23 \<le> m then 1 else 0)"
    using m by (auto simp: div_nat_eqI)
  then show ?thesis by (simp only: bit23 bit_unat u) simp
qed

lemma mant_word:
  assumes "0 < n"
  shows "(if nbytes n \<le> 3 then push_bit (8 * (3 - nbytes n)) (word_of_int \<bar>int n\<bar> :: u32)
           else word_of_int \<bar>int n div 2 ^ (8 * (nbytes n - 3))\<bar>) = word_of_nat (mant0 n)"
proof -
  have p: "(2 :: 'a :: comm_semiring_1) ^ (8 * j) = 256 ^ j" for j
    by (simp add: power_mult)
  have "int n div 256 ^ j = int (n div 256 ^ j)" for j
    by (simp add: zdiv_int)
  then have "(word_of_int \<bar>int n div 256 ^ j\<bar> :: u32) = word_of_nat (n div 256 ^ j)" for j
    by (simp only: abs_of_nat of_int_of_nat_eq)
  then show ?thesis
    by (simp add: mant0_def push_bit_eq_mult p)
qed

lemma BigToCompact_pos:
  assumes "0 < n"
  shows "BigToCompact (int n) = push_bit 24 (word_of_nat (cexp n)) OR word_of_nat (cmant n)"
proof -
  note b = mant0_bounds [OF assms]
  have d: "drop_bit 8 (word_of_nat (mant0 n) :: u32) = word_of_nat (mant0 n div 256)"
  proof -
    have "mant0 n < 2 ^ 32" "mant0 n div 256 < 2 ^ 32"
      using b by (auto intro: le_less_trans [OF div_le_dividend])
    then show ?thesis
      by (simp only: word_unat_eq_iff unat_drop unat_of_nat len_of_numeral_defs take_bit_nat_eq_self) simp
  qed
  have na: "nat \<bar>int n\<bar> = n" by simp
  have nz: "int n \<noteq> 0" "\<not> int n < 0" using assms by simp_all
  show ?thesis
    using bit23_nat [of "mant0 n"] b
    by (simp only: BigToCompact_def na nz if_False Let_def mant_word [OF assms] cexp_def cmant_def
        flip: nbytes_def split: if_split) (simp add: d)
qed

lemma compact_value:
  assumes "0 < n" and "cexp n < 256"
  shows "\<exists>k m. CompactToBig (BigToCompact (int n)) = int (m * 256 ^ k) \<and> m * 256 ^ k \<le> n
           \<and> n < (m + 1) * 256 ^ k \<and> (k = 0 \<or> 2 ^ 15 \<le> m)"
proof -
  note b = be_bytes_bounds [OF assms(1)] and c = cmant_bounds [OF assms(1)]
  have v: "CompactToBig (BigToCompact (int n))
           = int (if cexp n \<le> 3 then cmant n div 256 ^ (3 - cexp n) else cmant n * 256 ^ (cexp n - 3))"
    using c assms(2) unfolding BigToCompact_pos [OF assms(1)]
    by (intro CompactToBig_unat compact_pack) simp_all
  show ?thesis
  proof (cases "cexp n \<le> 3")
    case True
    then consider "nbytes n = 1" | "nbytes n = 2" | "nbytes n = 3" "mant0 n < 2 ^ 23"
      using b(3) unfolding cexp_def by (auto split: if_splits) linarith+
    then have "cmant n div 256 ^ (3 - cexp n) = n"
      by cases (auto simp: cmant_def cexp_def mant0_def)
    with True v show ?thesis
      by (intro exI [of _ 0] exI [of _ n]) simp
  next
    case False
    define k where "k = cexp n - 3"
    have "cmant n = n div 256 ^ k"
    proof (cases "2 ^ 23 \<le> mant0 n")
      case True
      then have k: "nbytes n = k + 2" using False by (simp add: k_def cexp_def)
      show ?thesis
      proof (cases "k = 1")
        case True
        with k \<open>2 ^ 23 \<le> mant0 n\<close> show ?thesis by (simp add: cmant_def mant0_def)
      next
        case False
        with k \<open>2 ^ 23 \<le> mant0 n\<close> \<open>\<not> cexp n \<le> 3\<close> obtain j where "k = Suc j" "3 < nbytes n" "nbytes n - 3 = j"
          by (cases k) (auto simp: cexp_def)
        with \<open>2 ^ 23 \<le> mant0 n\<close> show ?thesis
          by (simp add: cmant_def mant0_def mult.commute flip: div_mult2_eq)
      qed
    next
      case no: False
      with False have "3 < nbytes n" by (simp add: cexp_def)
      with no show ?thesis by (simp add: cmant_def mant0_def k_def cexp_def)
    qed
    moreover have "n < (n div 256 ^ k + 1) * 256 ^ k"
      using dividend_less_div_times [of "256 ^ k" n] by (simp add: add.commute)
    ultimately show ?thesis
      using False v c by (intro exI [of _ k] exI [of _ "cmant n"]) (simp add: k_def)
  qed
qed

lemma cexp_bound: "0 < n \<Longrightarrow> n < 256 ^ 254 \<Longrightarrow> cexp n < 256"
  using length_be_bytes_le [of n 254] by (simp add: cexp_def nbytes_def)

lemma compact_round:
  assumes "0 \<le> n" and "n < 256 ^ 254"
  shows "let v = CompactToBig (BigToCompact n) in 0 \<le> v \<and> v \<le> n \<and> (n - v) * 2 ^ 15 \<le> v"
proof (cases "n = 0")
  case True
  then show ?thesis by (simp add: BigToCompact_def CompactToBig_def)
next
  case False
  define m where "m = nat n"
  have n: "n = int m" "0 < m" "m < 256 ^ 254"
    using False assms by (simp_all add: m_def nat_less_iff)
  from compact_value [OF n(2) cexp_bound [OF n(2,3)]]
  obtain k a where v: "CompactToBig (BigToCompact (int m)) = int (a * 256 ^ k)"
    and le: "a * 256 ^ k \<le> m" and lt: "m < (a + 1) * 256 ^ k" and a: "k = 0 \<or> 2 ^ 15 \<le> a"
    by blast
  have "(m - a * 256 ^ k) * 2 ^ 15 \<le> a * 256 ^ k"
  proof (cases "k = 0")
    case True
    then show ?thesis using lt le by simp
  next
    case False
    then have "2 ^ 15 * 256 ^ k \<le> a * 256 ^ k" using a by simp
    moreover have "(m - a * 256 ^ k) * 2 ^ 15 \<le> 256 ^ k * 2 ^ 15"
      using lt le by (intro mult_le_mono1) simp
    ultimately show ?thesis by (simp only: mult.commute)
  qed
  then have "(int m - int (a * 256 ^ k)) * 2 ^ 15 \<le> int (a * 256 ^ k)"
    using le by (metis of_nat_diff of_nat_le_iff of_nat_mult of_nat_numeral of_nat_power)
  then show ?thesis
    using le by (simp add: n(1) v Let_def del: of_nat_mult of_nat_power)
qed

section \<open>Properties\<close>

text \<open>
  C21. Retargeting. When the clock has not run backwards and the old target is not negative, the new
  target, read back from its compact form, is never above the proof-of-work limit nor above the old
  target scaled by the elapsed time over 100 seconds, and it is below the smaller of the two by a
  relative error of at most one in \<open>2 ^ 15\<close>.
\<close>

theorem retarget_bounds:
  assumes "0 \<le> CompactToBig globalBits" and "0 \<le> sint (t1 - t0)"
  shows "let exact = min powLimit (CompactToBig globalBits * sint (t1 - t0) div 100);
             new = CompactToBig (CalcNextGlobalRequiredDifficulty t0 t1 globalBits)
         in 0 \<le> new \<and> new \<le> exact \<and> (exact - new) * 2 ^ 15 \<le> new"
proof -
  let ?x = "CompactToBig globalBits * sint (t1 - t0) div 100"
  have "0 \<le> ?x" using assms by (intro pos_imp_zdiv_nonneg_iff [THEN iffD2]) simp_all
  then have "0 \<le> min powLimit ?x" by (simp add: powLimit_def)
  moreover have "min powLimit ?x < 256 ^ 254" by (rule min.strict_coboundedI1) (simp add: powLimit_def)
  moreover have "CalcNextGlobalRequiredDifficulty t0 t1 globalBits = BigToCompact (min powLimit ?x)"
    by (simp add: CalcNextGlobalRequiredDifficulty_def Let_def min_def)
  ultimately show ?thesis
    using compact_round [of "min powLimit ?x"] by (simp add: Let_def)
qed

theorem retarget_bounds_witness:
  "let exact = min powLimit (CompactToBig 0x1d00ffff * sint ((1300 :: 64 word) - 1000) div 100);
       new = CompactToBig (CalcNextGlobalRequiredDifficulty 1000 1300 0x1d00ffff)
   in 0 \<le> new \<and> new \<le> exact \<and> (exact - new) * 2 ^ 15 \<le> new"
proof (rule retarget_bounds)
  show "0 \<le> CompactToBig 0x1d00ffff"
    using CompactToBig_unat [where c = "0x1d00ffff" and e = 29 and m = 65535] by simp
qed simp

lemma CompactToBig_repr:
  assumes "0 \<le> CompactToBig c"
  shows "\<exists>m k. CompactToBig c = m * 2 ^ k \<and> 0 \<le> m \<and> m \<le> 2 ^ 23"
proof -
  have m: "unat (c AND 0x007fffff) < 2 ^ 23"
    unfolding mask23 by (subst unat_take) simp_all
  show ?thesis
  proof (cases "unat (drop_bit 24 c) \<le> 3")
    case True
    define x where "x = int (unat (drop_bit (8 * (3 - unat (drop_bit 24 c))) (c AND 0x007fffff)))"
    have "x \<le> 2 ^ 23"
      using m unfolding x_def unat_drop by (simp add: div_le_dividend [THEN order_trans] less_imp_le)
    moreover have "0 \<le> x" by (simp add: x_def)
    moreover have "CompactToBig c = x \<or> CompactToBig c = - x"
      using True by (simp add: CompactToBig_def Let_def x_def)
    ultimately show ?thesis
      using assms by (intro exI [of _ "CompactToBig c"] exI [of _ 0]) auto
  next
    case False
    define x where "x = int (unat (c AND 0x007fffff))"
    have "x < 2 ^ 23" using m unfolding x_def by (metis of_nat_less_iff of_nat_numeral of_nat_power)
    have "CompactToBig c = x * 2 ^ (8 * (unat (drop_bit 24 c) - 3)) \<or> CompactToBig c = - x * 2 ^ (8 * (unat (drop_bit 24 c) - 3))"
      using False by (simp add: CompactToBig_def Let_def x_def)
    moreover have "0 \<le> x" "x \<le> 2 ^ 23" using \<open>x < 2 ^ 23\<close> by (simp_all add: x_def)
    moreover have "x = 0" if "CompactToBig c = - x * 2 ^ (8 * (unat (drop_bit 24 c) - 3))"
      using that assms \<open>0 \<le> x\<close> by (simp add: mult_le_0_iff)
    ultimately show ?thesis by (metis mult_minus_left neg_equal_0_iff_equal)
  qed
qed

lemma fround_between:
  assumes "of_int l * pow2 k \<le> q" and "q \<le> of_int u * pow2 k" and "0 \<le> l" and "0 \<le> u" and "l \<le> 2 ^ p" and "u \<le> 2 ^ p" and "0 < p"
  shows "of_int l * pow2 k \<le> fround p q \<and> fround p q \<le> of_int u * pow2 k"
proof -
  have "0 \<le> of_int l * pow2 k" using assms(3) by simp
  with assms(1) have "\<not> q < 0" by linarith
  then show ?thesis
    using round_to_ge [OF assms(1,3,5,7)] round_to_le [OF assms(2,4,6,7)] by (simp add: fround_def)
qed

lemma Float_Int_between: "of_int l \<le> q \<Longrightarrow> q \<le> of_int u \<Longrightarrow> 0 \<le> l \<Longrightarrow> l \<le> Float_Int q \<and> Float_Int q \<le> u"
  by (auto simp: Float_Int_def le_floor_iff floor_le_iff)

text \<open>
  The steps of the computation for a base \<open>m * 2 ^ k\<close> of at most 24 bits: each intermediate result
  stays between the results for no pledge and for the full pledge.
\<close>

lemma miner_steps:
  fixes x :: rat and m :: int and k :: nat
  assumes "0 \<le> x" and "x \<le> 1" and "0 \<le> m" and "m \<le> 2 ^ 23"
  defines "f \<equiv> fround 53 (of_int (m * 2 ^ k))"
  defines "t \<equiv> Float_Int (fround 64 (fround 64 (fround 64 (fround 64 x * 9) * f) + f))"
  shows "m * 2 ^ k \<le> t" and "t \<le> m * 2 ^ k * 10" and "x = 0 \<Longrightarrow> t = m * 2 ^ k" and "x = 1 \<Longrightarrow> t = m * 2 ^ k * 10"
proof -
  have p: "(of_int (i * 2 ^ k) :: rat) = of_int i * pow2 (int k)" for i by (simp add: pow2_nat)
  have f: "f = of_int m * pow2 (int k)"
    using fround_between [of m "int k" "of_int m * pow2 (int k)" m 53] assms(3,4) unfolding f_def p by simp
  have exact: "fround 64 (of_int i * pow2 j) = of_int i * pow2 j" if "0 \<le> i" "i \<le> 2 ^ 28" for i j
    using fround_between [of i j "of_int i * pow2 j" i 64] that by simp
  have ge: "0 \<le> fround 64 y \<and> fround 64 y \<le> of_int i * pow2 j" if "0 \<le> y" "y \<le> of_int i * pow2 j" "0 \<le> i" "i \<le> 2 ^ 28" for y i j
    using fround_between [of 0 j y i 64] that by simp
  have p0: "pow2 0 = 1" by (simp add: pow2_def)
  define a where "a = fround 64 x"
  have a: "0 \<le> a" "a \<le> 1" "x = 0 \<Longrightarrow> a = 0" "x = 1 \<Longrightarrow> a = 1"
    using ge [of x 1 0] exact [of 0 0] exact [of 1 0] assms(1,2) by (simp_all add: a_def p0)
  define b where "b = fround 64 (a * 9)"
  have b: "0 \<le> b" "b \<le> 9" "x = 0 \<Longrightarrow> b = 0" "x = 1 \<Longrightarrow> b = 9"
    using ge [of "a * 9" 9 0] exact [of 0 0] exact [of 9 0] a by (simp_all add: b_def p0)
  define c where "c = fround 64 (b * f)"
  have "b * f \<le> of_int (9 * m) * pow2 (int k)" 
    using mult_right_mono [OF b(2), of f] assms(3) by (simp add: f mult.assoc)
  then have c: "0 \<le> c" "c \<le> of_int (9 * m) * pow2 (int k)" "x = 0 \<Longrightarrow> c = 0" "x = 1 \<Longrightarrow> c = of_int (9 * m) * pow2 (int k)"
    using ge [of "b * f" "9 * m" "int k"] exact [of 0 0] exact [of "9 * m" "int k"] b assms(3,4)
    by (simp_all add: c_def p0 f mult.assoc)
  define d where "d = fround 64 (c + f)"
  have "c + f \<le> of_int (10 * m) * pow2 (int k)" using c(2) by (simp add: f)
  then have d: "of_int m * pow2 (int k) \<le> d \<and> d \<le> of_int (10 * m) * pow2 (int k)"
    using c(1) assms(3,4) unfolding d_def by (intro fround_between) (simp_all add: f)
  have d0: "d = of_int m * pow2 (int k)" if "x = 0"
    using c(3) [OF that] exact [of m "int k"] assms(3,4) by (simp add: d_def f)
  have d1: "d = of_int (10 * m) * pow2 (int k)" if "x = 1"
    using c(4) [OF that] exact [of "10 * m" "int k"] assms(3,4) by (simp add: d_def f distrib_right [symmetric])
  have t: "t = Float_Int d" by (simp add: t_def a_def b_def c_def d_def)
  have "m * 2 ^ k \<le> t \<and> t \<le> 10 * m * 2 ^ k"
    unfolding t using d assms(3) by (intro Float_Int_between) (simp_all only: p, simp_all)
  then show "m * 2 ^ k \<le> t" "t \<le> m * 2 ^ k * 10" by (simp_all add: ac_simps)
  have fi: "Float_Int (of_int i) = i" for i by (simp add: Float_Int_def)
  show "t = m * 2 ^ k" if "x = 0" using d0 [OF that] fi [of "m * 2 ^ k"] unfolding t p [symmetric] by simp
  show "t = m * 2 ^ k * 10" if "x = 1" using d1 [OF that] fi [of "10 * m * 2 ^ k"] unfolding t p [symmetric] by simp
qed

text \<open>
  C22. The target of a miner. For a base target in compact form and a positive base pledge,
  \<open>NextMinerDifficulty\<close> never fails in spite of its rounding, its result is between the base and ten
  times the base, it is the base exactly for a miner without pledge, and ten times the base exactly
  for a miner with at least the base pledge.
\<close>

theorem miner_target_exact:
  assumes "0 \<le> CompactToBig globalBits" and "basePledge \<noteq> 0"
  shows "\<exists>t. NextMinerDifficulty (CompactToBig globalBits) minerPledge basePledge = Inr t
           \<and> CompactToBig globalBits \<le> t \<and> t \<le> CompactToBig globalBits * 10
           \<and> (minerPledge = 0 \<longrightarrow> t = CompactToBig globalBits)
           \<and> (basePledge \<le> minerPledge \<longrightarrow> t = CompactToBig globalBits * 10)"
proof -
  obtain m k where mk: "CompactToBig globalBits = m * 2 ^ k" "0 \<le> m" "m \<le> 2 ^ 23"
    using CompactToBig_repr [OF assms(1)] by blast
  define p where "p = (if basePledge < minerPledge then basePledge else minerPledge)"
  define x :: rat where "x = of_nat (unat p) / of_nat (unat basePledge)"
  have frac: "0 \<le> (of_nat i / of_nat j :: rat) \<and> (of_nat i / of_nat j :: rat) \<le> 1 \<and> (of_nat j / of_nat j :: rat) = 1"
    if "0 < j" "i \<le> j" for i j :: nat
    using that by (simp add: divide_le_eq)
  have "0 < unat basePledge" using assms(2) by (simp add: unat_gt_0)
  moreover have "unat p \<le> unat basePledge"
    by (auto simp: p_def word_le_nat_alt word_less_nat_alt)
  moreover have "basePledge \<le> minerPledge \<Longrightarrow> p = basePledge" "minerPledge = 0 \<Longrightarrow> p = 0"
    by (auto simp: p_def)
  ultimately have x: "0 \<le> x" "x \<le> 1" "minerPledge = 0 \<Longrightarrow> x = 0" "basePledge \<le> minerPledge \<Longrightarrow> x = 1"
    using frac [of "unat basePledge" "unat p"] unfolding x_def by (simp_all only: simp_thms unsigned_0 of_nat_0 div_0)
  define f where "f = fround 53 (of_int (CompactToBig globalBits))"
  define t where "t = Float_Int (fround 64 (fround 64 (fround 64 (fround 64 x * 9) * f) + f))"
  note s = miner_steps [OF x(1,2) mk(2,3), of k, folded mk(1), folded f_def, folded t_def]
  have "NextMinerDifficulty (CompactToBig globalBits) minerPledge basePledge = Inr t"
    using s(1,2) assms(2)
    by (simp only: NextMinerDifficulty_def Let_def if_False not_less flip: p_def x_def f_def t_def) simp
  then show ?thesis using s x(3,4) by blast
qed

theorem miner_target_exact_witness:
  "\<exists>t. NextMinerDifficulty (CompactToBig 0x1d00ffff) 7 1200000000000000 = Inr t
     \<and> CompactToBig 0x1d00ffff \<le> t \<and> t \<le> CompactToBig 0x1d00ffff * 10
     \<and> ((7 :: u64) = 0 \<longrightarrow> t = CompactToBig 0x1d00ffff)
     \<and> ((1200000000000000 :: u64) \<le> 7 \<longrightarrow> t = CompactToBig 0x1d00ffff * 10)"
proof (rule miner_target_exact)
  show "0 \<le> CompactToBig 0x1d00ffff"
    using CompactToBig_unat [where c = "0x1d00ffff" and e = 29 and m = 65535] by simp
qed simp

end
