(* ===== verification/Classgroup.thy ===== *)
theory Classgroup
  imports Prelude
begin

text \<open>
  Binary quadratic forms, the group in which the proof of work computes:
  \<open>pkg/util/difficulty/hash/group.go\<close> (\<open>pkg/miner/hash\<close> has a copy). A form \<open>a x\<^sup>2 + b x y + c y\<^sup>2\<close> is a
  record of its coefficients; the field \<open>d\<close> of the source only caches the discriminant.

  A nil \<open>*group\<close>, the result of an operation whose congruence has no solution, is the error
  \<open>NilGroup\<close>; division by zero panics. The loop of \<open>reduced\<close> need not end on arbitrary
  coefficients: results have the type \<open>'a run\<close>, whose \<open>None\<close> means that the loop never returns.
\<close>

section \<open>Integers of math/big\<close>

text \<open>\<open>QuoRem\<close> truncates towards zero; \<open>DivMod\<close> is Euclidean, its remainder is never negative.\<close>

definition big_Quo :: "int \<Rightarrow> int \<Rightarrow> int" where
  "big_Quo x y = sgn x * sgn y * (\<bar>x\<bar> div \<bar>y\<bar>)"

definition big_Rem :: "int \<Rightarrow> int \<Rightarrow> int" where
  "big_Rem x y = x - y * big_Quo x y"

definition big_Div :: "int \<Rightarrow> int \<Rightarrow> int" where
  "big_Div x y = sgn y * (x div \<bar>y\<bar>)"

definition big_Mod :: "int \<Rightarrow> int \<Rightarrow> int" where
  "big_Mod x y = x mod \<bar>y\<bar>"

definition DivZero :: err where
  "DivZero = Panic ''division by zero''"

definition NilGroup :: err where
  "NilGroup = Err ''nil group''"

definition floorDivision :: "int \<Rightarrow> int \<Rightarrow> err + int" where
  "floorDivision x y =
     (if y = 0 then Inl DivZero
      else let q = big_Quo x y; r = big_Rem x y
           in Inr (if (0 < r \<and> y < 0) \<or> (r < 0 \<and> 0 < y) then q - 1 else q))"

definition allInputValueGCD :: "int \<Rightarrow> int \<Rightarrow> int" where
  "allInputValueGCD a b = (if a = 0 then \<bar>b\<bar> else if b = 0 then \<bar>a\<bar> else gcd \<bar>a\<bar> \<bar>b\<bar>)"

function egcd_loop :: "int \<Rightarrow> int \<Rightarrow> int \<Rightarrow> int \<Rightarrow> int \<Rightarrow> int \<Rightarrow> int \<times> int \<times> int" where
  "egcd_loop r0 r1 s0 s1 t0 t1 =
     (if 0 < r1 then
        (let q = big_Div r0 r1; r = big_Mod r0 r1
         in egcd_loop r1 r s1 (s0 - q * s1) t1 (t0 - q * t1))
      else (r0, s0, t0))"
  by pat_completeness auto
termination
  by (relation "measure (\<lambda>(r0, r1, _). nat r1)") (auto simp: big_Mod_def)

declare egcd_loop.simps [simp del]

definition extendedGCD :: "int \<Rightarrow> int \<Rightarrow> int \<times> int \<times> int" where
  "extendedGCD a b = (if b < a then egcd_loop b a 0 1 1 0 else egcd_loop a b 1 0 0 1)"

text \<open>\<open>solveMod\<close>: the solutions of \<open>a * s \<equiv> b (mod m)\<close> as \<open>s + t * n\<close>; \<open>Inr None\<close> when there is none.\<close>

definition solveMod :: "int \<Rightarrow> int \<Rightarrow> int \<Rightarrow> err + (int \<times> int) option" where
  "solveMod a b m =
     (let (g, d, _) = extendedGCD a m
      in if g = 0 then Inl DivZero
         else if big_Mod b g \<noteq> 0 then Inr None
         else if m = 0 then Inl DivZero
         else bindE (floorDivision m g) (\<lambda>t. Inr (Some (big_Mod (big_Div b g * d) m, t))))"

section \<open>Computations that may not return\<close>

type_synonym 'a run = "(err + 'a) option"

definition bindR :: "'a run \<Rightarrow> ('a \<Rightarrow> 'b run) \<Rightarrow> 'b run" where
  "bindR m f = (case m of None \<Rightarrow> None | Some (Inl e) \<Rightarrow> Some (Inl e) | Some (Inr a) \<Rightarrow> f a)"

lemma bindR_simps [simp]:
  "bindR None f = None" "bindR (Some (Inl e)) f = Some (Inl e)" "bindR (Some (Inr a)) f = f a"
  by (simp_all add: bindR_def)

lemma bindR_Inr: "bindR m f = Some (Inr b) \<longleftrightarrow> (\<exists>a. m = Some (Inr a) \<and> f a = Some (Inr b))"
  by (auto simp: bindR_def split: option.splits sum.splits)

section \<open>Forms\<close>

record group =
  ga :: int
  gb :: int
  gc :: int

definition newGroup :: "int \<Rightarrow> int \<Rightarrow> int \<Rightarrow> group" where
  "newGroup a b c = \<lparr>ga = a, gb = b, gc = c\<rparr>"

definition newGroupFromDiscriminant :: "int \<Rightarrow> int \<Rightarrow> int \<Rightarrow> err + group" where
  "newGroupFromDiscriminant a b d = bindE (floorDivision (b * b - d) (a * 4)) (\<lambda>c. Inr (newGroup a b c))"

definition identityForDiscriminant :: "int \<Rightarrow> err + group" where
  "identityForDiscriminant d = newGroupFromDiscriminant 1 1 d"

definition discriminant :: "group \<Rightarrow> int" where
  "discriminant g = gb g * gb g - ga g * gc g * 4"

definition group_identity :: "group \<Rightarrow> err + group" where
  "group_identity g = newGroupFromDiscriminant 1 1 (discriminant g)"

definition normalized :: "group \<Rightarrow> err + group" where
  "normalized g =
     (let a = ga g; b = gb g; c = gc g
      in if - a < b \<and> b \<le> a then Inr g
         else bindE (floorDivision (a - b) (a * 2)) (\<lambda>r.
              Inr (newGroup a (b + 2 * r * a) (c + a * r * r + b * r))))"

partial_function (option) reduce_loop :: "group \<Rightarrow> group run" where
  "reduce_loop g =
     (let a = ga g; b = gb g; c = gc g
      in if c < a \<or> a = c \<and> b < 0 then
           (case floorDivision (c + b) (c + c) of
              Inl e \<Rightarrow> Some (Inl e)
            | Inr s \<Rightarrow> reduce_loop (newGroup c (- b + 2 * s * c) (c * s * s - b * s + a)))
         else Some (normalized g))"

definition reduced :: "group \<Rightarrow> group run" where
  "reduced g = bindR (Some (normalized g)) reduce_loop"

definition multiply :: "group \<Rightarrow> group \<Rightarrow> group run" where
  "multiply g0 g1 =
     bindR (reduced g0) (\<lambda>x.
     bindR (reduced g1) (\<lambda>y.
     bindR (Some (floorDivision (gb x + gb y) 2)) (\<lambda>g.
     bindR (Some (floorDivision (gb y - gb x) 2)) (\<lambda>h.
     let w = allInputValueGCD (ga x) (allInputValueGCD (ga y) g); j = w; r = 0 in
     bindR (Some (floorDivision (ga x) w)) (\<lambda>s.
     bindR (Some (floorDivision (ga y) w)) (\<lambda>t.
     bindR (Some (floorDivision g w)) (\<lambda>u.
     let b = h * u + s * gc x in
     bindR (Some (solveMod (t * u) b (s * t))) (\<lambda>sol. case sol of None \<Rightarrow> Some (Inl NilGroup) | Some (k_temp, constant_factor) \<Rightarrow>
     bindR (Some (solveMod (t * constant_factor) (h - t * k_temp) s)) (\<lambda>sol. case sol of None \<Rightarrow> Some (Inl NilGroup) | Some (n, _) \<Rightarrow>
     let k = k_temp + constant_factor * n in
     bindR (Some (floorDivision (t * k - h) s)) (\<lambda>l.
     bindR (Some (floorDivision (t * u * k - h * u - s * gc x) (s * t))) (\<lambda>m.
     let a3 = s * t - r * u;
         b3 = j * u + m * r - (k * t + l * s);
         c3 = k * l - j * m
     in reduced (newGroup a3 b3 c3))))))))))))"

definition square :: "group \<Rightarrow> group run" where
  "square g =
     bindR (Some (solveMod (gb g) (gc g) (ga g))) (\<lambda>sol. case sol of None \<Rightarrow> Some (Inl NilGroup) | Some (u, _) \<Rightarrow>
     bindR (Some (floorDivision (gb g * u - gc g) (ga g))) (\<lambda>m.
     reduced (newGroup (ga g * ga g) (gb g - ga g * u * 2) (u * u - m))))"

function pow_loop :: "int \<Rightarrow> group \<Rightarrow> group \<Rightarrow> group run" where
  "pow_loop n x items_prod =
     (if n \<le> 0 then Some (Inr items_prod)
      else bindR (if n mod 2 = 1 then multiply items_prod x else Some (Inr items_prod)) (\<lambda>items_prod.
           bindR (square x) (\<lambda>x. pow_loop (n div 2) x items_prod)))"
  by pat_completeness auto
termination
  by (relation "measure (\<lambda>(n, _). nat n)") auto

declare pow_loop.simps [simp del]

definition group_pow :: "group \<Rightarrow> int \<Rightarrow> group run" where
  "group_pow g n = bindR (Some (group_identity g)) (\<lambda>items_prod. pow_loop n g items_prod)"

section \<open>Division and greatest common divisors\<close>

lemma floor_quo:
  assumes "y \<noteq> 0"
  shows "(if (0 < big_Rem x y \<and> y < 0) \<or> (big_Rem x y < 0 \<and> 0 < y) then big_Quo x y - 1 else big_Quo x y) = x div y"
proof -
  have neg: "u + v * (- u div v) = - (- u mod v)" for u v :: int
    by (simp add: minus_mult_div_eq_mod [symmetric])
  consider "0 \<le> x" "0 < y" | "x < 0" "0 < y" | "0 \<le> x" "y < 0" | "x < 0" "y < 0"
    using assms by linarith
  then show ?thesis
  proof cases
    case 1
    then have q: "big_Quo x y = x div y"
      by (cases "x = 0") (simp_all add: big_Quo_def)
    have "0 \<le> big_Rem x y"
      unfolding big_Rem_def q minus_mult_div_eq_mod using 1 by simp
    with 1 q show ?thesis by simp
  next
    case 2
    then have "big_Quo x y = - (- x div y)" "big_Rem x y = - (- x mod y)"
      using neg [of x y] by (simp_all add: big_Quo_def big_Rem_def)
    moreover have "x div y = (if - x mod y = 0 then - (- x div y) else - (- x div y) - 1)"
      using zdiv_zminus1_eq_if [of y "- x"] 2 by simp
    moreover have "0 \<le> - x mod y" using 2 by simp
    ultimately show ?thesis using 2 by (smt (verit))
  next
    case 3
    then have q: "big_Quo x y = - (x div (- y))" "big_Rem x y = x mod (- y)"
      by (auto simp: big_Quo_def big_Rem_def sgn_if minus_mult_div_eq_mod [of x "- y", simplified])
    moreover have "x div y = (if x mod (- y) = 0 then - (x div (- y)) else - (x div (- y)) - 1)"
      using zdiv_zminus2_eq_if [of "- y" x] 3 by simp
    moreover have "0 \<le> x mod (- y)" using 3 by simp
    ultimately show ?thesis using 3 by (smt (verit))
  next
    case 4
    then have "big_Quo x y = x div y" "big_Rem x y \<le> 0"
      using neg_mod_sign [of y x]
      by (auto simp: big_Quo_def big_Rem_def minus_mult_div_eq_mod)
    with 4 show ?thesis by simp
  qed
qed

lemma floorDivision_div: "y \<noteq> 0 \<Longrightarrow> floorDivision x y = Inr (x div y)"
  using floor_quo [of y x] by (simp add: floorDivision_def Let_def)

lemma allInputValueGCD_gcd: "allInputValueGCD a b = gcd a b"
  by (simp add: allInputValueGCD_def)

lemma egcd_loop_inv:
  "egcd_loop r0 r1 s0 s1 t0 t1 = (g, s, t) \<Longrightarrow> r0 = s0 * a + t0 * b \<Longrightarrow> r1 = s1 * a + t1 * b \<Longrightarrow> 0 \<le> r1 \<Longrightarrow>
   g = s * a + t * b \<and> \<bar>g\<bar> = gcd r0 r1 \<and> (0 < r1 \<or> 0 \<le> r0 \<longrightarrow> 0 \<le> g)"
proof (induction r0 r1 s0 s1 t0 t1 rule: egcd_loop.induct)
  case (1 r0 r1 s0 s1 t0 t1)
  show ?case
  proof (cases "0 < r1")
    case True
    let ?q = "r0 div r1"
    have dm: "big_Div r0 r1 = ?q" "big_Mod r0 r1 = r0 mod r1"
      using True by (simp_all add: big_Div_def big_Mod_def)
    note IH = "1.IH" [OF True refl refl, unfolded dm]
    have run: "egcd_loop r1 (r0 mod r1) s1 (s0 - ?q * s1) t1 (t0 - ?q * t1) = (g, s, t)"
      using "1.prems"(1) True by (subst (asm) egcd_loop.simps) (simp add: dm Let_def)
    have "r0 mod r1 = (s0 - ?q * s1) * a + (t0 - ?q * t1) * b"
      using "1.prems"(2,3) minus_div_mult_eq_mod [of r0 r1] by (simp add: algebra_simps)
    from IH [OF run "1.prems"(3) this] True
    have "g = s * a + t * b \<and> \<bar>g\<bar> = gcd r1 (r0 mod r1) \<and> 0 \<le> g"
      using pos_mod_sign [OF True, of r0] by (metis less_imp_le)
    moreover have "gcd r1 (r0 mod r1) = gcd r0 r1" by (metis gcd.commute gcd_red_int)
    ultimately show ?thesis by (metis True)
  next
    case False
    with "1.prems" show ?thesis by (subst (asm) egcd_loop.simps) auto
  qed
qed

text \<open>\<open>extendedGCD\<close> computes Bezout coefficients, for any first argument and a positive second.\<close>

lemma extendedGCD_bezout:
  assumes "extendedGCD a m = (g, s, t)" and "0 < m"
  shows "g = s * a + t * m \<and> g = gcd a m"
proof (cases "m < a")
  case True
  then have "egcd_loop m a 0 1 1 0 = (g, s, t)" using assms(1) by (simp add: extendedGCD_def)
  from egcd_loop_inv [OF this, of a m] True assms(2) show ?thesis
    by (metis abs_of_nonneg add_0 gcd.commute less_imp_le less_trans mult_1 mult_zero_left add.right_neutral)
next
  case False
  then have "egcd_loop a m 1 0 0 1 = (g, s, t)" using assms(1) by (simp add: extendedGCD_def)
  from egcd_loop_inv [OF this, of a m] assms(2) show ?thesis
    by (metis abs_of_nonneg add_0 add.right_neutral less_imp_le mult_1 mult_zero_left)
qed

text \<open>
  \<open>solveMod\<close> is right: for a positive modulus it answers \<open>None\<close> exactly when the congruence has no
  solution, and otherwise \<open>s\<close> is a solution in range and \<open>t\<close> the distance of the solutions.
\<close>

lemma solveMod_run:
  assumes "0 < m"
  shows "if gcd a m dvd b then \<exists>s. solveMod a b m = Inr (Some (s, m div gcd a m)) \<and> 0 \<le> s \<and> s < m \<and> m dvd a * s - b
         else solveMod a b m = Inr None"
proof -
  obtain g d t where e: "extendedGCD a m = (g, d, t)" by (metis prod_cases3)
  from extendedGCD_bezout [OF e assms] have g: "g = d * a + t * m" "g = gcd a m" by blast+
  have pos: "0 < g" using g(2) assms by (simp add: gcd_pos_int)
  have run: "solveMod a b m = (if g dvd b then Inr (Some ((b div g * d) mod m, m div g)) else Inr None)"
    using pos assms by (simp add: solveMod_def e big_Mod_def big_Div_def floorDivision_div bindE_def dvd_eq_mod_eq_0)
  show ?thesis
  proof (cases "g dvd b")
    case True
    then obtain k where k: "b = g * k" by auto
    have "a * ((k * d) mod m) - b = m * (- (t * k) - a * ((k * d) div m))"
    proof -
      have "a * (k * d) = a * ((k * d) mod m) + a * (m * ((k * d) div m))"
        by (metis distrib_left mod_mult_div_eq)
      moreover have "b = k * d * a + k * t * m" using k g(1) by (simp add: algebra_simps)
      ultimately show ?thesis by (simp add: algebra_simps)
    qed
    then have "m dvd a * ((k * d) mod m) - b" by (metis dvd_triv_left)
    moreover have "b div g = k" using k pos by simp
    ultimately show ?thesis using True assms run by (simp add: g(2))
  next
    case False
    then show ?thesis using run by (simp add: g(2))
  qed
qed

lemma solveMod_Some:
  assumes "0 < m" and "solveMod a b m = Inr (Some (s, t))"
  shows "m dvd a * s - b" "t = m div gcd a m" "gcd a m dvd b"
  using solveMod_run [OF assms(1), of a b] assms(2) by (auto split: if_splits)

lemma solveMod_solvable:
  assumes "0 < m" and "gcd a m dvd b"
  obtains s where "solveMod a b m = Inr (Some (s, m div gcd a m))" "0 \<le> s" "s < m" "m dvd a * s - b"
  using solveMod_run [OF assms(1), of a b] assms(2) by auto

section \<open>Reduction\<close>

text \<open>The positive definite forms, and the reduced ones among them.\<close>

definition posdef :: "group \<Rightarrow> bool" where
  "posdef g \<longleftrightarrow> 0 < ga g \<and> discriminant g < 0"

definition is_normal :: "group \<Rightarrow> bool" where
  "is_normal g \<longleftrightarrow> - ga g < gb g \<and> gb g \<le> ga g"

definition is_reduced :: "group \<Rightarrow> bool" where
  "is_reduced g \<longleftrightarrow> is_normal g \<and> ga g \<le> gc g \<and> (ga g = gc g \<longrightarrow> 0 \<le> gb g)"

lemma newGroup_sel [simp]: "ga (newGroup a b c) = a" "gb (newGroup a b c) = b" "gc (newGroup a b c) = c"
  by (simp_all add: newGroup_def)

lemma posdef_c: "posdef g \<Longrightarrow> 0 < gc g"
proof -
  assume "posdef g"
  then have a: "0 < ga g" and "gb g * gb g < ga g * gc g * 4" by (simp_all add: posdef_def discriminant_def)
  moreover have "0 \<le> gb g * gb g" by simp
  ultimately have "0 < ga g * gc g" by linarith
  then show ?thesis using a by (simp add: zero_less_mult_iff)
qed

text \<open>Both steps are substitutions of determinant one: they keep the discriminant.\<close>

lemma translate_disc: "discriminant (newGroup a (b + 2 * r * a) (c + a * r * r + b * r)) = discriminant (newGroup a b c)"
  by (simp add: discriminant_def algebra_simps)

lemma invert_disc: "discriminant (newGroup c (- b + 2 * s * c) (c * s * s - b * s + a)) = discriminant (newGroup a b c)"
  by (simp add: discriminant_def algebra_simps)

lemma newGroup_eta [simp]: "newGroup (ga g) (gb g) (gc g) = g"
  by (simp add: newGroup_def)

lemma normalized_ok:
  assumes "posdef g"
  obtains g' where "normalized g = Inr g'" "posdef g'" "is_normal g'" "ga g' = ga g" "discriminant g' = discriminant g"
proof (cases "is_normal g")
  case True
  then show ?thesis using that [of g] assms by (simp add: normalized_def is_normal_def)
next
  case False
  let ?a = "ga g" and ?b = "gb g" and ?r = "(ga g - gb g) div (ga g * 2)"
  let ?g = "newGroup ?a (?b + 2 * ?r * ?a) (gc g + ?a * ?r * ?r + ?b * ?r)"
  have a: "0 < ?a" using assms by (simp add: posdef_def)
  have d: "discriminant ?g = discriminant g"
    using translate_disc [of ?a ?b ?r "gc g"] by simp
  have "normalized g = Inr ?g"
    using False a by (simp add: normalized_def is_normal_def Let_def floorDivision_div bindE_def)
  moreover have "is_normal ?g"
  proof -
    have "?r * (?a * 2) + (?a - ?b) mod (?a * 2) = ?a - ?b" by (rule div_mult_mod_eq)
    moreover have "0 \<le> (?a - ?b) mod (?a * 2)" "(?a - ?b) mod (?a * 2) < ?a * 2" using a by simp_all
    ultimately show ?thesis by (simp add: is_normal_def algebra_simps)
  qed
  moreover have "posdef ?g" using d a assms by (simp add: posdef_def)
  ultimately show ?thesis using that [of ?g] d by simp
qed

lemma reduce_loop_ok:
  "posdef g \<Longrightarrow> is_normal g \<Longrightarrow>
   \<exists>g'. reduce_loop g = Some (Inr g') \<and> posdef g' \<and> is_reduced g' \<and> discriminant g' = discriminant g"
proof (induction "nat (2 * ga g + (if gb g < 0 then 1 else 0))" arbitrary: g rule: less_induct)
  case less
  let ?a = "ga g" and ?b = "gb g" and ?c = "gc g"
  have c: "0 < ?c" using less.prems(1) by (rule posdef_c)
  show ?case
  proof (cases "?c < ?a \<or> ?a = ?c \<and> ?b < 0")
    case True
    let ?s = "(?c + ?b) div (?c + ?c)"
    let ?g = "newGroup ?c (- ?b + 2 * ?s * ?c) (?c * ?s * ?s - ?b * ?s + ?a)"
    have run: "reduce_loop g = reduce_loop ?g"
      using True c by (subst reduce_loop.simps) (simp add: Let_def floorDivision_div)
    have d: "discriminant ?g = discriminant g"
      using invert_disc [of ?c ?b ?s ?a] by simp
    have "?s * (?c + ?c) + (?c + ?b) mod (?c + ?c) = ?c + ?b" by (rule div_mult_mod_eq)
    moreover have "0 \<le> (?c + ?b) mod (?c + ?c)" "(?c + ?b) mod (?c + ?c) < ?c + ?c" using c by simp_all
    ultimately have n: "is_normal ?g" by (simp add: is_normal_def algebra_simps)
    have p: "posdef ?g" using d c less.prems(1) by (simp add: posdef_def)
    have "nat (2 * ga ?g + (if gb ?g < 0 then 1 else 0)) < nat (2 * ?a + (if ?b < 0 then 1 else 0))"
    proof (cases "?c < ?a")
      case False
      then have ac: "?a = ?c" "?b < 0" using True by simp_all
      then have "?s = 0" using less.prems(2) by (simp add: is_normal_def)
      then show ?thesis using ac c by simp
    qed (use c in auto)
    from less.hyps [OF this p n] show ?thesis by (simp only: run d)
  next
    case False
    then have "reduce_loop g = Some (Inr g)"
      using less.prems(2) by (subst reduce_loop.simps) (auto simp: Let_def normalized_def is_normal_def)
    then show ?thesis
      using False less.prems by (auto simp: is_reduced_def)
  qed
qed

lemma reduced_ok:
  assumes "posdef g"
  obtains g' where "reduced g = Some (Inr g')" "posdef g'" "is_reduced g'" "discriminant g' = discriminant g"
proof -
  from normalized_ok [OF assms] obtain h where h: "normalized g = Inr h" "posdef h" "is_normal h" "discriminant h = discriminant g"
    by blast
  from reduce_loop_ok [OF h(2,3)] h show ?thesis by (auto simp: reduced_def intro: that)
qed

section \<open>Composition\<close>

text \<open>
  The identity behind \<open>multiply\<close>: with exact divisions the composed form has the discriminant of
  its factors.
\<close>

lemma compose_disc:
  fixes s t u w h k l m c1 :: int
  assumes "t * k - h = l * s" and "t * u * k - h * u - s * c1 = m * (s * t)"
  shows "(w * u - (k * t + l * s)) * (w * u - (k * t + l * s)) - s * t * (k * l - w * m) * 4
       = (w * u - h) * (w * u - h) - w * s * c1 * 4"
proof -
  have 1: "l * s = t * k - h" using assms(1) by simp
  have 2: "s * t * m = t * u * k - h * u - s * c1" using assms(2) by (simp add: ac_simps)
  have "s * t * (k * l - w * m) = t * k * (l * s) - w * (s * t * m)" by (simp add: algebra_simps)
  then show ?thesis unfolding 1 2 by (simp add: algebra_simps)
qed

lemma half_sum:
  fixes b1 b2 :: int
  assumes "even (b1 + b2)"
  shows "2 * ((b1 + b2) div 2) = b1 + b2" "2 * ((b2 - b1) div 2) = b2 - b1"
  using assms by auto

lemma disc_parity: "discriminant x = discriminant y \<Longrightarrow> even (gb x + gb y)"
proof -
  have "even (discriminant z) \<longleftrightarrow> even (gb z)" for z
    by (simp add: discriminant_def)
  then show "discriminant x = discriminant y \<Longrightarrow> even (gb x + gb y)" by (metis even_add)
qed

text \<open>The first congruence of \<open>multiply\<close> is always solvable for forms of the same discriminant.\<close>

lemma compose_sides:
  assumes "g * h = a2 * c2 - a1 * c1" and "a1 = w * s" and "a2 = w * t" and "g = w * u" and "w \<noteq> 0"
  shows "h * u + s * c1 = t * (c2 :: int)"
proof -
  have "w * (h * u + s * c1) = w * (t * c2)" using assms(1-4) by (simp add: algebra_simps)
  with assms(5) show ?thesis by simp
qed

lemma gcd_left_abs: "gcd (k * m) (k * n) = \<bar>k\<bar> * gcd m (n :: int)"
  using gcd_mult_left [of k m n] by (simp add: abs_mult)

lemma gcd_facts:
  fixes s t u q cf :: int
  shows "gcd s (gcd t u) = 1 \<Longrightarrow> coprime (gcd u s) t"
    and "0 < t \<Longrightarrow> gcd (t * u) (s * t) = t * gcd u s"
    and "gcd (t * cf) (q * cf) = \<bar>cf\<bar> * gcd t q"
proof -
  show "gcd s (gcd t u) = 1 \<Longrightarrow> coprime (gcd u s) t"
    by (metis coprime_iff_gcd_eq_1 gcd.assoc gcd.commute)
  show "0 < t \<Longrightarrow> gcd (t * u) (s * t) = t * gcd u s"
    using gcd_mult_left [of t u s] by (simp add: abs_mult mult.commute)
  show "gcd (t * cf) (q * cf) = \<bar>cf\<bar> * gcd t q"
    using gcd_mult_right [of t cf q] by (simp add: abs_mult mult.commute gcd.commute)
qed

text \<open>
  The two congruences that \<open>multiply\<close> solves, with \<open>s\<close>, \<open>t\<close>, \<open>u\<close> without common divisor: both are
  solvable, and the combined solution makes both divisions exact.
\<close>

lemma compose_solvable:
  fixes s t u h c1 c2 :: int
  assumes "0 < s" and "0 < t" and "gcd s (gcd t u) = 1" and side: "h * u + s * c1 = t * c2"
  obtains k0 cf n z where
    "solveMod (t * u) (h * u + s * c1) (s * t) = Inr (Some (k0, cf))"
    "solveMod (t * cf) (h - t * k0) s = Inr (Some (n, z))"
    "s dvd t * (k0 + cf * n) - h" "s * t dvd t * u * (k0 + cf * n) - h * u - s * c1"
proof -
  define q where "q = gcd u s"
  have q: "0 < q" "q dvd u" "q dvd s" using assms(1) by (auto simp: q_def gcd_pos_int)
  obtain u' cf where u': "u = q * u'" and cf: "s = q * cf" using q(2,3) by (auto elim!: dvdE)
  have cop: "coprime u' cf"
    using q(1) u' cf q_def by (metis gcd_coprime less_irrefl mult.commute)
  have qt: "coprime q t"
    using gcd_facts(1) [OF assms(3)] by (simp add: q_def)
  have "q dvd t * c2" using side q by (metis dvd_add dvd_mult dvd_mult2)
  then have "q dvd c2" using qt by (simp add: coprime_dvd_mult_right_iff)
  moreover have g1: "gcd (t * u) (s * t) = t * q"
    using gcd_facts(2) [OF assms(2)] by (simp add: q_def)
  ultimately have "gcd (t * u) (s * t) dvd h * u + s * c1" by (simp add: side)
  from solveMod_solvable [OF _ this] assms(1,2) obtain k0
    where k0: "solveMod (t * u) (h * u + s * c1) (s * t) = Inr (Some (k0, s * t div gcd (t * u) (s * t)))"
      "s * t dvd t * u * k0 - (h * u + s * c1)" by (metis mult_pos_pos)
  have cf': "s * t div gcd (t * u) (s * t) = cf"
  proof -
    have "s * t = t * q * cf" by (simp add: cf)
    then show ?thesis using assms(2) q(1) unfolding g1 by simp
  qed
  have s0: "s dvd u * k0 - c2"
  proof -
    have "t * u * k0 - (h * u + s * c1) = t * (u * k0 - c2)" unfolding side by (simp add: algebra_simps)
    with k0(2) have "t * s dvd t * (u * k0 - c2)" by (simp only: mult.commute [of t s])
    then show ?thesis using assms(2) by simp
  qed
  have "cf dvd h - t * k0"
  proof -
    have "u * (t * k0 - h) = t * (u * k0 - c2) + s * c1" using side by (simp add: algebra_simps)
    then have "s dvd u * (t * k0 - h)" using s0 by simp
    then have "cf dvd u' * (t * k0 - h)" using q(1) by (simp add: u' cf mult.assoc)
    then have "cf dvd t * k0 - h" using cop by (simp add: coprime_commute coprime_dvd_mult_right_iff)
    then show ?thesis by (metis dvd_minus_iff minus_diff_eq)
  qed
  moreover have "gcd (t * cf) s = cf"
  proof -
    have "gcd (t * cf) (q * cf) = \<bar>cf\<bar> * gcd t q" by (rule gcd_facts(3))
    moreover have "gcd t q = 1" using qt by (simp add: coprime_iff_gcd_eq_1 gcd.commute)
    moreover have "0 < cf" using assms(1) q(1) cf by (simp add: zero_less_mult_iff)
    ultimately show ?thesis by (simp add: cf)
  qed
  ultimately obtain n where n: "solveMod (t * cf) (h - t * k0) s = Inr (Some (n, s div gcd (t * cf) s))"
      "s dvd t * cf * n - (h - t * k0)"
    using solveMod_solvable [OF assms(1), of "t * cf" "h - t * k0"] by metis
  have 1: "s dvd t * (k0 + cf * n) - h"
    using n(2) by (simp add: algebra_simps)
  have "u * (k0 + cf * n) - c2 = (u * k0 - c2) + s * (u' * n)"
    by (simp add: u' cf algebra_simps)
  then have "s dvd u * (k0 + cf * n) - c2" using s0 by (metis dvd_add dvd_triv_left)
  then have "t * s dvd t * (u * (k0 + cf * n) - c2)" by simp
  moreover have "t * (u * (k0 + cf * n) - c2) = t * u * (k0 + cf * n) - h * u - s * c1"
    using side by (simp add: algebra_simps)
  ultimately have "s * t dvd t * u * (k0 + cf * n) - h * u - s * c1" by (simp add: mult.commute)
  with k0(1) n(1) 1 cf' show ?thesis by (intro that) simp_all
qed

lemma disc_product:
  assumes "discriminant x = discriminant y"
  shows "((gb x + gb y) div 2) * ((gb y - gb x) div 2) = ga y * gc y - ga x * gc x"
proof -
  note h = half_sum [OF disc_parity [OF assms]]
  have "(2 * ((gb x + gb y) div 2)) * (2 * ((gb y - gb x) div 2)) = 4 * (ga y * gc y - ga x * gc x)"
    unfolding h using assms by (simp add: discriminant_def algebra_simps)
  then show ?thesis by simp
qed

lemma multiply_reduced:
  assumes "posdef x" and "posdef y" and "discriminant x = discriminant y"
    and "reduced g0 = Some (Inr x)" and "reduced g1 = Some (Inr y)"
  obtains z where "multiply g0 g1 = Some (Inr z)" "posdef z" "is_reduced z" "discriminant z = discriminant x"
proof -
  define g where "g = (gb x + gb y) div 2"
  define h where "h = (gb y - gb x) div 2"
  define w where "w = gcd (ga x) (gcd (ga y) g)"
  have pos: "0 < ga x" "0 < ga y" using assms(1,2) by (simp_all add: posdef_def)
  then have w: "0 < w" "w dvd ga x" "w dvd ga y" "w dvd g" by (auto simp: w_def gcd_pos_int intro: dvd_trans)
  then obtain s t u where s: "ga x = w * s" and t: "ga y = w * t" and u: "g = w * u" by (auto elim!: dvdE)
  have st: "0 < s" "0 < t" using pos w(1) s t by (simp_all add: zero_less_mult_iff)
  have "w * gcd s (gcd t u) = w"
  proof -
    have "w = gcd (w * s) (gcd (w * t) (w * u))" by (simp only: s [symmetric] t [symmetric] u [symmetric] w_def [symmetric])
    also have "\<dots> = gcd (w * s) (\<bar>w\<bar> * gcd t u)" by (simp only: gcd_left_abs)
    also have "\<dots> = w * gcd s (gcd t u)" using w(1) by (simp add: gcd_left_abs)
    finally show ?thesis by simp
  qed
  then have cop: "gcd s (gcd t u) = 1" using w(1) by simp
  have side: "h * u + s * gc x = t * gc y"
    using compose_sides [of g h "ga y" "gc y" "ga x" "gc x" w s t u] disc_product [OF assms(3)] s t u w(1)
    by (simp add: g_def h_def)
  obtain k0 cf n v where k0: "solveMod (t * u) (h * u + s * gc x) (s * t) = Inr (Some (k0, cf))"
      "solveMod (t * cf) (h - t * k0) s = Inr (Some (n, v))"
      "s dvd t * (k0 + cf * n) - h" "s * t dvd t * u * (k0 + cf * n) - h * u - s * gc x"
    using compose_solvable [OF st cop side] by metis
  define k where "k = k0 + cf * n"
  define l where "l = (t * k - h) div s"
  define m where "m = (t * u * k - h * u - s * gc x) div (s * t)"
  have l: "t * k - h = l * s" using k0(3) by (simp add: l_def k_def)
  have m: "t * u * k - h * u - s * gc x = m * (s * t)" using k0(4) by (simp add: m_def k_def)
  let ?z = "newGroup (s * t) (w * u - (k * t + l * s)) (k * l - w * m)"
  have "discriminant ?z = (w * u - h) * (w * u - h) - w * s * gc x * 4"
    using compose_disc [OF l m, of w] by (simp add: discriminant_def)
  moreover have "w * u - h = gb x"
    using half_sum [OF disc_parity [OF assms(3)]] u by (simp add: g_def h_def)
  ultimately have d: "discriminant ?z = discriminant x" by (simp add: discriminant_def s)
  have "posdef ?z" using d st assms(1) by (simp add: posdef_def)
  moreover have "multiply g0 g1 = reduced ?z"
  proof -
    have div: "ga x div w = s" "ga y div w = t" "g div w = u" using w(1) by (simp_all add: s t u)
    show ?thesis
      using st w(1)
      by (simp add: multiply_def assms(4,5) floorDivision_div allInputValueGCD_gcd div k0(1,2) Let_def
          flip: g_def h_def w_def k_def l_def m_def)
  qed
  ultimately show ?thesis using reduced_ok [of ?z] that d by metis
qed

lemma multiply_ok:
  assumes "posdef g0" and "posdef g1" and "discriminant g0 = discriminant g1"
  obtains z where "multiply g0 g1 = Some (Inr z)" "posdef z" "is_reduced z" "discriminant z = discriminant g0"
proof -
  obtain x where x: "reduced g0 = Some (Inr x)" "posdef x" "discriminant x = discriminant g0"
    using reduced_ok [OF assms(1)] by metis
  obtain y where y: "reduced g1 = Some (Inr y)" "posdef y" "discriminant y = discriminant g1"
    using reduced_ok [OF assms(2)] by metis
  have "discriminant x = discriminant y" using x y assms(3) by simp
  from multiply_reduced [OF x(2) y(2) this x(1) y(1)] that x(3) show ?thesis by metis
qed

lemma square_ok:
  assumes "posdef g" and "gcd (gb g) (ga g) dvd gc g"
  obtains z where "square g = Some (Inr z)" "posdef z" "is_reduced z" "discriminant z = discriminant g"
proof -
  let ?a = "ga g" and ?b = "gb g" and ?c = "gc g"
  have a: "0 < ?a" using assms(1) by (simp add: posdef_def)
  obtain u where u: "solveMod ?b ?c ?a = Inr (Some (u, ?a div gcd ?b ?a))" "?a dvd ?b * u - ?c"
    using solveMod_solvable [OF a assms(2)] by metis
  define m where "m = (?b * u - ?c) div ?a"
  have m: "?b * u - ?c = ?a * m" using u(2) by (simp add: m_def)
  let ?z = "newGroup (?a * ?a) (?b - ?a * u * 2) (u * u - m)"
  have "discriminant ?z = ?b * ?b - 4 * ?a * (?b * u - ?a * m)"
    by (simp add: discriminant_def algebra_simps)
  also have "\<dots> = discriminant g"
    using m by (simp add: discriminant_def algebra_simps)
  finally have d: "discriminant ?z = discriminant g" .
  have "square g = reduced ?z"
    using a by (simp add: square_def u(1) floorDivision_div flip: m_def)
  moreover have "posdef ?z" using d a assms(1) by (simp add: posdef_def)
  ultimately show ?thesis using reduced_ok [of ?z] that d by metis
qed

text \<open>
  Without solvability \<open>square\<close> answers nil; it never panics and never runs forever.
\<close>

lemma square_nil:
  assumes "posdef g" and "\<not> gcd (gb g) (ga g) dvd gc g"
  shows "square g = Some (Inl NilGroup)"
proof -
  have "0 < ga g" using assms(1) by (simp add: posdef_def)
  then show ?thesis using solveMod_run [of "ga g" "gb g" "gc g"] assms(2) by (simp add: square_def)
qed

lemma identity_ok:
  assumes "discriminant g < 0" and "discriminant g mod 4 = 1"
  obtains i where "group_identity g = Inr i" "posdef i" "discriminant i = discriminant g"
proof -
  have "4 dvd 1 - discriminant g" using assms(2) by presburger
  then have "4 * ((1 - discriminant g) div 4) = 1 - discriminant g" by simp
  then have "discriminant (newGroup 1 1 ((1 - discriminant g) div 4)) = discriminant g"
    by (simp add: discriminant_def)
  moreover have "group_identity g = Inr (newGroup 1 1 ((1 - discriminant g) div 4))"
    by (simp add: group_identity_def newGroupFromDiscriminant_def floorDivision_div bindE_def)
  ultimately show ?thesis using that assms(1) by (simp add: posdef_def)
qed

lemma pow_loop_ok:
  "posdef x \<Longrightarrow> posdef p \<Longrightarrow> discriminant x = discriminant p \<Longrightarrow>
   pow_loop n x p = Some (Inl NilGroup) \<or> (\<exists>z. pow_loop n x p = Some (Inr z) \<and> posdef z \<and> discriminant z = discriminant p)"
proof (induction n x p rule: pow_loop.induct)
  case (1 n x p)
  show ?case
  proof (cases "n \<le> 0")
    case True
    then show ?thesis using "1.prems" by (subst (1 2) pow_loop.simps) simp
  next
    case False
    obtain q where q: "multiply p x = Some (Inr q)" "posdef q" "discriminant q = discriminant p"
      by (rule multiply_ok [OF "1.prems"(2,1)]) (use "1.prems"(3) in simp_all)
    then obtain p' where p': "(if n mod 2 = 1 then multiply p x else Some (Inr p)) = Some (Inr p')" "posdef p'" "discriminant p' = discriminant p"
      using "1.prems"(2) by (cases "n mod 2 = 1") auto
    show ?thesis
    proof (cases "gcd (gb x) (ga x) dvd gc x")
      case True
      obtain x' where x': "square x = Some (Inr x')" "posdef x'" "discriminant x' = discriminant x"
        using square_ok [OF "1.prems"(1) True] by metis
      have "pow_loop n x p = pow_loop (n div 2) x' p'"
        using False p'(1) x'(1) by (subst pow_loop.simps) (simp split del: if_split)
      with "1.IH" [OF False x'(2) p'(2)] p' x' "1.prems"(3) show ?thesis by simp
    next
      case nil: False
      have "pow_loop n x p = Some (Inl NilGroup)"
        using False p'(1) square_nil [OF "1.prems"(1) nil] by (subst pow_loop.simps) (simp split del: if_split)
      then show ?thesis by blast
    qed
  qed
qed

section \<open>Properties\<close>

text \<open>
  C36. Reduction terminates. On every positive definite form \<open>reduced\<close> returns, without panic, the
  reduced form: \<open>-a < b \<le> a \<le> c\<close>, with \<open>b\<close> not negative when \<open>a = c\<close>, of the same discriminant.
\<close>

theorem reduction_terminates:
  assumes "posdef g"
  shows "\<exists>g'. reduced g = Some (Inr g') \<and> is_reduced g' \<and> posdef g' \<and> discriminant g' = discriminant g"
  using reduced_ok [OF assms] by metis

theorem reduction_terminates_witness:
  "\<exists>g'. reduced (newGroup 195 751 724) = Some (Inr g') \<and> is_reduced g' \<and> posdef g'
     \<and> discriminant g' = discriminant (newGroup 195 751 724)"
  by (rule reduction_terminates) (simp add: posdef_def discriminant_def)

text \<open>
  C37. Composition is closed. The product of two positive definite forms of the same discriminant
  always exists: \<open>multiply\<close> never answers nil, never panics and always returns, and the product is a
  reduced positive definite form of that discriminant.
\<close>

theorem composition_closed:
  assumes "posdef g0" and "posdef g1" and "discriminant g0 = discriminant g1"
  shows "\<exists>z. multiply g0 g1 = Some (Inr z) \<and> is_reduced z \<and> posdef z \<and> discriminant z = discriminant g0"
  using multiply_ok [OF assms] by metis

theorem composition_closed_witness:
  "\<exists>z. multiply (newGroup 2 1 3) (newGroup 2 (-1) 3) = Some (Inr z) \<and> is_reduced z \<and> posdef z
     \<and> discriminant z = discriminant (newGroup 2 1 3)"
  by (rule composition_closed) (simp_all add: posdef_def discriminant_def)

end
