(* ===== verification/Vdf.thy ===== *)
theory Vdf
  imports Classgroup Bigint Env Codec
begin

text \<open>
  The proof-of-work hash: a delay function over the class group of a discriminant derived from the
  input, \<open>pkg/util/difficulty/hash/hash.go\<close> (\<open>pkg/miner/hash\<close> has a copy). \<open>big.Int.ProbablyPrime\<close>,
  which draws pseudo-random bases, is the parameter \<open>probablyPrime\<close>; SHA-256 is the field of the
  environment.
\<close>

section \<open>The small primes\<close>

text \<open>
  The sieve of \<open>primeLessThanN\<close>. The bound \<open>floor(sqrt(num))\<close> of the outer loop is written as
  \<open>i * i \<le> num\<close>; the square root of Go is correctly rounded.
\<close>

function cross :: "nat \<Rightarrow> nat \<Rightarrow> nat \<Rightarrow> bool list \<Rightarrow> bool list" where
  "cross i j num sieve = (if 0 < i \<and> j \<le> num then cross i (j + i) num (sieve[j := True]) else sieve)"
  by pat_completeness auto
termination
  by (relation "measure (\<lambda>(i, j, num, sieve). Suc num - j)") auto

declare cross.simps [simp del]

function sieve_loop :: "nat \<Rightarrow> nat \<Rightarrow> bool list \<Rightarrow> bool list" where
  "sieve_loop i num sieve =
     (if i * i \<le> num then sieve_loop (i + 2) num (if \<not> sieve ! i then cross i (i * 2) num sieve else sieve) else sieve)"
  by pat_completeness auto
termination
proof (relation "measure (\<lambda>(i, num, sieve). Suc num - i)")
  fix i num :: nat and sieve :: "bool list"
  assume "i * i \<le> num"
  then have "i \<le> num" by (metis le_square le_trans)
  then show "((i + 2, num, if \<not> sieve ! i then cross i (i * 2) num sieve else sieve), i, num, sieve)
      \<in> measure (\<lambda>(i, num, sieve). Suc num - i)" by simp
qed simp

declare sieve_loop.simps [simp del]

function collect :: "nat \<Rightarrow> nat \<Rightarrow> bool list \<Rightarrow> nat list" where
  "collect i num sieve =
     (if i \<le> num then (if \<not> sieve ! i then i # collect (i + 2) num sieve else collect (i + 2) num sieve) else [])"
  by pat_completeness auto
termination
  by (relation "measure (\<lambda>(i, num, sieve). Suc num - i)") auto

declare collect.simps [simp del]

definition primeLessThanN :: "nat \<Rightarrow> nat list" where
  "primeLessThanN num = collect 3 num (sieve_loop 3 num (replicate (num + 1) False))"

section \<open>Tables\<close>

text \<open>An \<open>int64\<close> result wraps around.\<close>

definition i64 :: "int \<Rightarrow> int" where
  "i64 x = (x + 2 ^ 63) mod 2 ^ 64 - 2 ^ 63"

fun modExp_loop :: "nat \<Rightarrow> int \<Rightarrow> int \<Rightarrow> int \<Rightarrow> int" where
  "modExp_loop 0 base modulus res = res"
| "modExp_loop (Suc n) base modulus res = modExp_loop n base modulus (big_Rem (i64 (res * base)) modulus)"

definition modExp :: "int \<Rightarrow> int \<Rightarrow> int \<Rightarrow> int" where
  "modExp base exponent modulus =
     (if modulus = 1 then 0 else modExp_loop (nat exponent) (big_Rem base modulus) modulus 1)"

definition hash_m :: int where
  "hash_m = 8 * 3 * 5 * 7 * 11 * 13"

definition residues :: "int list" where
  "residues = filter (\<lambda>x. x mod 3 \<noteq> 0 \<and> x mod 5 \<noteq> 0 \<and> x mod 7 \<noteq> 0 \<and> x mod 11 \<noteq> 0 \<and> x mod 13 \<noteq> 0)
     (map (\<lambda>i. 7 + 8 * int i) [0..<15015])"

definition sieve_info :: "(int \<times> int) list" where
  "sieve_info = map (\<lambda>p. (int p, modExp (hash_m mod int p) (int p - 2) (int p))) (drop 5 (primeLessThanN (2 ^ 16)))"

section \<open>The discriminant\<close>

text \<open>The loop runs while the buffer has at most \<open>byte_count\<close> bytes.\<close>

fun entropy_loop :: "('z) env_scheme \<Rightarrow> nat \<Rightarrow> bytes \<Rightarrow> u16 \<Rightarrow> bytes" where
  "entropy_loop E 0 seed extra = []"
| "entropy_loop E (Suc n) seed extra = sha256 E (seed @ EB16func extra) @ entropy_loop E n seed (extra + 1)"

definition entropyFromSeed :: "('z) env_scheme \<Rightarrow> bytes \<Rightarrow> nat \<Rightarrow> bytes" where
  "entropyFromSeed E seed byte_count = take byte_count (entropy_loop E (byte_count div 32 + 1) seed 0)"

text \<open>
  \<open>mark_sieve\<close> is the inner loop of \<open>newDiscriminant\<close> over \<open>sieve_info\<close>; it always starts from the
  first candidate \<open>n0\<close>, also in later rounds. \<open>find_candidate\<close> is the loop over the sieve.
\<close>

function mark_from :: "int \<Rightarrow> int \<Rightarrow> bool list \<Rightarrow> bool list" where
  "mark_from i p sieve =
     (if 0 < p \<and> i < int (length sieve) then mark_from (i + p) p (sieve[nat i := True]) else sieve)"
  by pat_completeness auto
termination
  by (relation "measure (\<lambda>(i, p, sieve). nat (int (length sieve) - i))") auto

declare mark_from.simps [simp del]

definition mark_sieve :: "int \<Rightarrow> bool list" where
  "mark_sieve n0 =
     fold (\<lambda>(p, q) sieve. mark_from (big_Rem (i64 (big_Mod (- n0) p * q)) p) p sieve) sieve_info (replicate (2 ^ 16) False)"

fun find_candidate :: "(int \<Rightarrow> bool) \<Rightarrow> int \<Rightarrow> nat \<Rightarrow> bool list \<Rightarrow> int option" where
  "find_candidate probablyPrime n i [] = None"
| "find_candidate probablyPrime n i (v # vs) =
     (let t = n + hash_m * int i
      in if \<not> v \<and> probablyPrime t then Some (- t) else find_candidate probablyPrime n (Suc i) vs)"

partial_function (option) search_discriminant :: "(int \<Rightarrow> bool) \<Rightarrow> int \<Rightarrow> int \<Rightarrow> int option" where
  "search_discriminant probablyPrime n0 n =
     (case find_candidate probablyPrime n 0 (mark_sieve n0) of
        Some d \<Rightarrow> Some d
      | None \<Rightarrow> search_discriminant probablyPrime n0 (n + hash_m * 2 ^ 16))"

definition first_candidate :: "('z) env_scheme \<Rightarrow> bytes \<Rightarrow> nat \<Rightarrow> int" where
  "first_candidate E seed len =
     (let extra = len mod 8;
          byte_count = (len + 7) div 8 + 2;
          entropy = entropyFromSeed E seed byte_count;
          n = int (be_val (take (length entropy - 2) entropy));
          n = n div 2 ^ ((8 - extra) mod 8);
          n = n OR 2 ^ (len - 1);
          n = n - n mod hash_m
      in n + residues ! (be_val (drop (length entropy - 2) entropy) mod length residues))"

definition newDiscriminant :: "('z) env_scheme \<Rightarrow> (int \<Rightarrow> bool) \<Rightarrow> bytes \<Rightarrow> nat \<Rightarrow> int option" where
  "newDiscriminant E probablyPrime seed len =
     search_discriminant probablyPrime (first_candidate E seed len) (first_candidate E seed len)"

section \<open>Powers and proofs\<close>

text \<open>Loops over a range whose body may fail or not return.\<close>

fun foldR :: "('a \<Rightarrow> 'b \<Rightarrow> 'b run) \<Rightarrow> 'a list \<Rightarrow> 'b \<Rightarrow> 'b run" where
  "foldR f [] acc = Some (Inr acc)"
| "foldR f (x # xs) acc = bindR (f x acc) (foldR f xs)"

definition Serialize_group :: "group \<Rightarrow> bytes" where
  "Serialize_group g = be_bytes (nat \<bar>ga g\<bar>) @ be_bytes (nat \<bar>gb g\<bar>) @ be_bytes (nat \<bar>gc g\<bar>)"

text \<open>
  \<open>approximateParameters\<close> at the only argument it is called with, \<open>T = 1\<close>: the logarithm of
  \<open>T * ln 2 / 2\<close> is negative, its logarithm is not a number, and neither is the maximum that \<open>k\<close> is
  converted from. The conversion of NaN to an integer is left to the implementation; on amd64 it
  gives the least \<open>int64\<close>.
\<close>

definition approximateParameters :: "int \<times> int" where
  "approximateParameters = (1, - (2 ^ 63))"

text \<open>\<open>int(math.Pow(2, k))\<close>, which truncates fractions to zero, and \<open>Ceil\<close> of a quotient.\<close>

definition pow2_int :: "int \<Rightarrow> int" where
  "pow2_int k = (if k < 0 then 0 else 2 ^ nat k)"

definition ceil_div :: "int \<Rightarrow> int \<Rightarrow> int" where
  "ceil_div a b = - ((- a) div b)"

definition range_to :: "int \<Rightarrow> int list" where
  "range_to n = map int [0..<nat n]"

text \<open>The exponents are visited in ascending order; \<open>cur\<close> and \<open>prev\<close> carry over.\<close>

fun squarings :: "int list \<Rightarrow> int \<Rightarrow> group \<Rightarrow> (int \<rightharpoonup> group) \<Rightarrow> (int \<rightharpoonup> group) run" where
  "squarings [] prev cur acc = Some (Inr acc)"
| "squarings (p # ps) prev cur acc =
     bindR (foldR (\<lambda>_ x. group_pow x 2) (range_to (p - prev)) cur) (\<lambda>cur.
     squarings ps p cur (acc(p \<mapsto> cur)))"

definition iterateSquarings :: "group \<Rightarrow> int list \<Rightarrow> (int \<rightharpoonup> group) run" where
  "iterateSquarings x powers_to_calculate = squarings (sort powers_to_calculate) 0 x Map.empty"

definition prime_digest :: "('z) env_scheme \<Rightarrow> bytes \<Rightarrow> bytes \<Rightarrow> u64 \<Rightarrow> int" where
  "prime_digest E x y j = int (be_val (take 16 (sha256 E (str ''prime'' @ EB64func j @ x @ y))))"

partial_function (option) hashPrime_loop :: "('z) env_scheme \<Rightarrow> (int \<Rightarrow> bool) \<Rightarrow> bytes \<Rightarrow> bytes \<Rightarrow> u64 \<Rightarrow> int option" where
  "hashPrime_loop E probablyPrime x y j =
     (if probablyPrime (prime_digest E x y j) then Some (prime_digest E x y j)
      else hashPrime_loop E probablyPrime x y (j + 1))"

definition hashPrime :: "('z) env_scheme \<Rightarrow> (int \<Rightarrow> bool) \<Rightarrow> bytes \<Rightarrow> bytes \<Rightarrow> int option" where
  "hashPrime E probablyPrime x y = hashPrime_loop E probablyPrime x y 0"

definition getBlock :: "int \<Rightarrow> int \<Rightarrow> int \<Rightarrow> int \<Rightarrow> err + int" where
  "getBlock i k T B =
     (let p1 = pow2_int k; p2 = big_Mod (2 ^ nat (T - k * (i + 1))) B
      in floorDivision (p1 * p2) B)"

definition index_panic :: "'a run" where
  "index_panic = Some (Inl (Panic ''index out of range''))"

text \<open>The table \<open>ys\<close> of one round of \<open>evalOptimized\<close>, and the two sums over it.\<close>

definition fill_ys :: "int \<Rightarrow> int \<Rightarrow> int \<Rightarrow> int \<Rightarrow> int \<Rightarrow> (int \<rightharpoonup> group) \<Rightarrow> group list \<Rightarrow> group list run" where
  "fill_ys j B T k l C ys =
     foldR (\<lambda>i ys.
       if T - k * (i * l + j + 1) < 0 then Some (Inr ys)
       else bindR (Some (getBlock (i * l + j) k T B)) (\<lambda>b.
            if b < 0 \<or> int (length ys) \<le> b then index_panic
            else case C (i * k * l) of
                   None \<Rightarrow> Some (Inl (Panic ''nil pointer''))
                 | Some c \<Rightarrow> bindR (multiply (ys ! nat b) c) (\<lambda>y. Some (Inr (ys[nat b := y])))))
       (range_to (ceil_div T (k * l))) ys"

definition sum_ys :: "group \<Rightarrow> group list \<Rightarrow> (int \<Rightarrow> int) \<Rightarrow> int list \<Rightarrow> group run" where
  "sum_ys identity ys idx bs =
     foldR (\<lambda>b z. if idx b < 0 \<or> int (length ys) \<le> idx b then index_panic else multiply z (ys ! nat (idx b))) bs identity"

definition evalOptimized :: "group \<Rightarrow> group \<Rightarrow> int \<Rightarrow> int \<Rightarrow> int \<Rightarrow> int \<Rightarrow> (int \<rightharpoonup> group) \<Rightarrow> group run" where
  "evalOptimized identity h B T k l C =
     (let k1 = big_Quo k 2; k0 = k - k1 in
      foldR (\<lambda>j x.
        bindR (group_pow x (pow2_int k)) (\<lambda>x.
        bindR (fill_ys j B T k l C (replicate (nat (pow2_int k)) identity)) (\<lambda>ys.
        bindR (foldR (\<lambda>b1 x.
            bindR (sum_ys identity ys (\<lambda>b0. b1 * pow2_int k0 + b0) (range_to (pow2_int k0))) (\<lambda>z.
            bindR (group_pow z (b1 * pow2_int k0)) (\<lambda>c. multiply x c))) (range_to (pow2_int k1)) x) (\<lambda>x.
          foldR (\<lambda>b0 x.
            bindR (sum_ys identity ys (\<lambda>b1. b1 * pow2_int k0 + b0) (range_to (pow2_int k1))) (\<lambda>z.
            bindR (group_pow z b0) (\<lambda>d. multiply x d))) (range_to (pow2_int k0)) x))))
        (rev (range_to l)) identity)"

definition generateProof ::
    "('z) env_scheme \<Rightarrow> (int \<Rightarrow> bool) \<Rightarrow> group \<Rightarrow> group \<Rightarrow> group \<Rightarrow> int \<Rightarrow> int \<Rightarrow> int \<Rightarrow> (int \<rightharpoonup> group) \<Rightarrow> group run" where
  "generateProof E probablyPrime identity x y T k l powers =
     (case hashPrime E probablyPrime (Serialize_group x) (Serialize_group y) of
        None \<Rightarrow> None
      | Some B \<Rightarrow> evalOptimized identity x B T k l powers)"

definition calculate :: "('z) env_scheme \<Rightarrow> (int \<Rightarrow> bool) \<Rightarrow> int \<Rightarrow> group \<Rightarrow> int \<Rightarrow> (group \<times> group) run" where
  "calculate E probablyPrime d x iterations =
     (let (L, k) = approximateParameters;
          loopCount = ceil_div iterations (k * L);
          powers_to_calculate = map (\<lambda>i. i * k * L) (range_to (loopCount + 1)) @ [iterations]
      in bindR (iterateSquarings x powers_to_calculate) (\<lambda>powers.
         case powers iterations of
           None \<Rightarrow> Some (Inl (Panic ''nil pointer''))
         | Some y \<Rightarrow>
             bindR (Some (identityForDiscriminant d)) (\<lambda>identity.
             bindR (generateProof E probablyPrime identity x y iterations k L powers) (\<lambda>proof. Some (Inr (y, proof))))))"

definition diffhash_Hash :: "('z) env_scheme \<Rightarrow> (int \<Rightarrow> bool) \<Rightarrow> bytes \<Rightarrow> bytes run" where
  "diffhash_Hash E probablyPrime dat =
     (case newDiscriminant E probablyPrime dat 2048 of
        None \<Rightarrow> None
      | Some d \<Rightarrow>
          bindR (Some (newGroupFromDiscriminant 2 1 d)) (\<lambda>x.
          case calculate E probablyPrime d x 1 of
            None \<Rightarrow> None
          | Some (Inl e) \<Rightarrow> if e = NilGroup then Some (Inr (replicate 32 0)) else Some (Inl e)
          | Some (Inr (a, b)) \<Rightarrow> Some (Inr (sha256 E (Serialize_group a @ Serialize_group b)))))"

section \<open>The sieve is right\<close>

definition prime_nat :: "nat \<Rightarrow> bool" where
  "prime_nat p \<longleftrightarrow> 1 < p \<and> (\<forall>d. d dvd p \<longrightarrow> d = 1 \<or> d = p)"

lemma length_cross [simp]: "length (cross i j num sieve) = length sieve"
  by (induction i j num sieve rule: cross.induct) (subst cross.simps, simp)

lemma cross_nth:
  "0 < i \<Longrightarrow> num < length sieve \<Longrightarrow> k \<le> num \<Longrightarrow>
   cross i j num sieve ! k \<longleftrightarrow> sieve ! k \<or> (\<exists>e. k = j + e * i)"
proof (induction i j num sieve rule: cross.induct)
  case (1 i j num sieve)
  show ?case
  proof (cases "j \<le> num")
    case True
    have "cross i j num sieve ! k \<longleftrightarrow> sieve[j := True] ! k \<or> (\<exists>e. k = j + i + e * i)"
      using "1.IH" "1.prems" True by (subst cross.simps) simp
    also have "\<dots> \<longleftrightarrow> sieve ! k \<or> k = j \<or> (\<exists>e. k = j + Suc e * i)"
      using "1.prems" True by (auto simp: nth_list_update)
    also have "k = j \<or> (\<exists>e. k = j + Suc e * i) \<longleftrightarrow> (\<exists>e. k = j + e * i)"
      by (metis add.right_neutral mult_zero_left not0_implies_Suc)
    finally show ?thesis by simp
  next
    case False
    then show ?thesis using "1.prems" by (subst cross.simps) auto
  qed
qed

text \<open>
  The invariant of the outer loop: exactly the proper multiples of odd numbers below \<open>i\<close> are crossed.
\<close>

definition crossed :: "nat \<Rightarrow> nat \<Rightarrow> bool list \<Rightarrow> bool" where
  "crossed i num sieve \<longleftrightarrow> length sieve = num + 1 \<and>
     (\<forall>k\<le>num. sieve ! k \<longleftrightarrow> (\<exists>q e. odd q \<and> 3 \<le> q \<and> q < i \<and> 2 \<le> e \<and> k = e * q))"

lemma odd_below: "odd i \<Longrightarrow> odd q \<Longrightarrow> q < i + 2 \<longleftrightarrow> q < i \<or> q = (i :: nat)"
  by presburger

lemma crossed_step:
  assumes "crossed i num sieve" and "odd i" and "3 \<le> i" and "i \<le> num"
  shows "crossed (i + 2) num (if \<not> sieve ! i then cross i (i * 2) num sieve else sieve)"
proof (cases "sieve ! i")
  case True
  then obtain q e where q: "odd q" "3 \<le> q" "q < i" "2 \<le> e" "i = e * q"
    using assms(1,4) by (auto simp: crossed_def)
  have "(\<exists>q e. odd q \<and> 3 \<le> q \<and> q < i + 2 \<and> 2 \<le> e \<and> k = e * q) \<longleftrightarrow>
        (\<exists>q e. odd q \<and> 3 \<le> q \<and> q < i \<and> 2 \<le> e \<and> k = e * q)" (is "?l \<longleftrightarrow> ?r") for k
  proof
    assume ?l
    then obtain q' e' where l: "odd q'" "3 \<le> q'" "q' < i \<or> q' = i" "2 \<le> e'" "k = e' * q'"
      using odd_below [OF assms(2)] by auto
    then show ?r
    proof (cases "q' = i")
      case True
      then have "k = (e' * e) * q" using l q by simp
      moreover have "2 \<le> e' * e" using l(4) q(4) by (metis le_trans mult_le_mono1 mult_1 one_le_numeral)
      ultimately show ?thesis using q by blast
    qed auto
  next
    assume ?r
    then obtain x y where "odd x" "3 \<le> x" "x < i" "2 \<le> y" "k = y * x" by blast
    then show ?l by (intro exI [of _ x] exI [of _ y]) simp
  qed
  with True assms(1) show ?thesis by (simp add: crossed_def)
next
  case False
  have "(\<exists>e. k = i * 2 + e * i) \<longleftrightarrow> (\<exists>e\<ge>2. k = e * i)" for k
    by (metis add.commute add_mult_distrib le_add1 le_iff_add mult.commute)
  then have "cross i (i * 2) num sieve ! k \<longleftrightarrow> (\<exists>q e. odd q \<and> 3 \<le> q \<and> q < i + 2 \<and> 2 \<le> e \<and> k = e * q)"
    if "k \<le> num" for k
    using cross_nth [of i num sieve k "i * 2"] assms that odd_below [OF assms(2)]
    by (auto simp: crossed_def)
  with False assms(1) show ?thesis by (simp add: crossed_def)
qed

lemma sieve_loop_crossed:
  "crossed i num sieve \<Longrightarrow> odd i \<Longrightarrow> 3 \<le> i \<Longrightarrow> \<exists>i'. num < i' * i' \<and> crossed i' num (sieve_loop i num sieve)"
proof (induction i num sieve rule: sieve_loop.induct)
  case (1 i num sieve)
  show ?case
  proof (cases "i * i \<le> num")
    case True
    then have "i \<le> num" by (metis le_square le_trans)
    from "1.IH" [OF True crossed_step [OF "1.prems" this]] "1.prems"(2,3) True show ?thesis
      by (subst sieve_loop.simps) simp
  next
    case False
    then show ?thesis using "1.prems"(1) by (subst sieve_loop.simps) (auto intro!: exI [of _ i])
  qed
qed

lemma crossed_prime:
  assumes "crossed i num sieve" and "num < i * i" and "odd k" and "3 \<le> k" and "k \<le> num"
  shows "sieve ! k \<longleftrightarrow> \<not> prime_nat k"
proof
  assume "sieve ! k"
  then obtain q e where "odd q" "3 \<le> q" "2 \<le> e" "k = e * q"
    using assms(1,5) by (auto simp: crossed_def)
  then have "q dvd k" "q \<noteq> 1" "q \<noteq> k" by auto
  then show "\<not> prime_nat k" unfolding prime_nat_def by blast
next
  assume "\<not> prime_nat k"
  then obtain d where "d dvd k" "d \<noteq> 1" "d \<noteq> k" using assms(4) by (auto simp: prime_nat_def)
  then obtain e where e: "k = d * e" "e \<noteq> 1" by auto
  have odd: "odd d" "odd e" using assms(3) e(1) by auto
  then have ge: "3 \<le> d" "3 \<le> e" using \<open>d \<noteq> 1\<close> e(2) by presburger+
  have "\<exists>q e. odd q \<and> 3 \<le> q \<and> q < i \<and> 2 \<le> e \<and> k = e * q"
  proof (cases "d \<le> e")
    case True
    then have "d * d \<le> k" using e(1) by simp
    then have "d < i" using assms(2,5) by (metis le_less_trans mult_le_mono not_le order.strict_trans2)
    then show ?thesis using e(1) odd ge by (intro exI [of _ d] exI [of _ e]) simp
  next
    case False
    then have "e * e \<le> k" using e(1) by simp
    then have "e < i" using assms(2,5) by (metis le_less_trans mult_le_mono not_le order.strict_trans2)
    then show ?thesis using e(1) odd ge by (intro exI [of _ e] exI [of _ d]) simp
  qed
  then show "sieve ! k" using assms(1,5) by (auto simp: crossed_def)
qed

lemma collect_filter: "odd i \<Longrightarrow> collect i num sieve = filter (\<lambda>k. odd k \<and> \<not> sieve ! k) [i..<Suc num]"
proof (induction i num sieve rule: collect.induct)
  case (1 i num sieve)
  show ?case
  proof (cases "i \<le> num")
    case True
    have "filter P [i + 2..<Suc num] = filter P [Suc i..<Suc num]" if "\<not> P (Suc i)" for P
      using that True upt_rec [of "Suc i" "Suc num"] by (simp del: upt_Suc)
    from this [of "\<lambda>k. odd k \<and> \<not> sieve ! k"] "1.IH" "1.prems" True show ?thesis
      by (subst collect.simps) (simp add: upt_conv_Cons del: upt_Suc)
  next
    case False
    then show ?thesis by (subst collect.simps) simp
  qed
qed

lemma prime_odd: "prime_nat p \<Longrightarrow> 3 \<le> p \<Longrightarrow> odd p"
  by (auto simp: prime_nat_def)

section \<open>Modular exponentiation\<close>

lemma big_Rem_mod: "0 \<le> x \<Longrightarrow> 0 < y \<Longrightarrow> big_Rem x y = x mod y"
  by (cases "x = 0") (simp_all add: big_Rem_def big_Quo_def minus_mult_div_eq_mod)

lemma i64_id: "0 \<le> x \<Longrightarrow> x < 2 ^ 63 \<Longrightarrow> i64 x = x"
  by (simp add: i64_def)

lemma modExp_loop_power:
  "1 < m \<Longrightarrow> m < 2 ^ 31 \<Longrightarrow> 0 \<le> b \<Longrightarrow> b < m \<Longrightarrow> 0 \<le> r \<Longrightarrow> r < m \<Longrightarrow> modExp_loop n b m r = r * b ^ n mod m"
proof (induction n arbitrary: r)
  case (Suc n)
  have "r * b \<le> m * m" using Suc.prems by (intro mult_mono) auto
  also have "m * m < 2 ^ 31 * 2 ^ 31" using Suc.prems by (intro mult_strict_mono) auto
  finally have "i64 (r * b) = r * b" using Suc.prems by (intro i64_id) auto
  then have step: "big_Rem (i64 (r * b)) m = r * b mod m" using Suc.prems by (simp add: big_Rem_mod)
  have "modExp_loop (Suc n) b m r = (r * b mod m) * b ^ n mod m"
    using Suc.IH [of "r * b mod m"] Suc.prems by (simp add: step)
  also have "\<dots> = r * b ^ Suc n mod m" by (simp add: mod_mult_left_eq mult.assoc)
  finally show ?case .
qed simp

section \<open>The discriminant\<close>

lemma find_candidate_Some:
  "find_candidate pp n i vs = Some d \<Longrightarrow> \<exists>j. d = - (n + hash_m * int j) \<and> pp (n + hash_m * int j)"
proof (induction vs arbitrary: i)
  case (Cons v vs)
  then show ?case
    by (cases "\<not> v \<and> pp (n + hash_m * int i)") (auto simp: Let_def)
qed simp

lemma search_discriminant_Some:
  assumes ret: "search_discriminant pp n0 n = Some d"
  shows "\<exists>j. d = - (n + hash_m * int j) \<and> pp (n + hash_m * int j)"
proof (rule search_discriminant.raw_induct [where P = "\<lambda>pp n0 n d. \<exists>j. d = - (n + hash_m * int j) \<and> pp (n + hash_m * int j)", OF _ ret])
  fix f and pp :: "int \<Rightarrow> bool" and n0 n d :: int
  assume IH: "\<And>pp n0 n d. f pp n0 n = Some d \<Longrightarrow> \<exists>j. d = - (n + hash_m * int j) \<and> pp (n + hash_m * int j)"
    and eq: "(case find_candidate pp n 0 (mark_sieve n0) of
        Some d \<Rightarrow> Some d | None \<Rightarrow> f pp n0 (n + hash_m * 2 ^ 16)) = Some d"
  show "\<exists>j. d = - (n + hash_m * int j) \<and> pp (n + hash_m * int j)"
  proof (cases "find_candidate pp n 0 (mark_sieve n0)")
    case None
    with eq IH obtain j where j: "d = - (n + hash_m * 2 ^ 16 + hash_m * int j)" "pp (n + hash_m * 2 ^ 16 + hash_m * int j)" by fastforce
    have "n + hash_m * 2 ^ 16 + hash_m * int j = n + hash_m * int (2 ^ 16 + j)" by (simp add: algebra_simps)
    with j show ?thesis by (intro exI [of _ "2 ^ 16 + j"]) (simp only:)
  next
    case (Some x)
    with eq find_candidate_Some [OF Some] show ?thesis by simp
  qed
qed

lemma residue_shape:
  assumes "i < length residues"
  shows "residues ! i mod 8 = 7" "7 \<le> residues ! i"
proof -
  have "residues ! i \<in> set residues" using assms by simp
  then obtain j where "residues ! i = 7 + 8 * int j" by (auto simp: residues_def)
  then show "residues ! i mod 8 = 7" "7 \<le> residues ! i" by simp_all
qed

lemma residues_nonempty: "0 < length residues"
proof -
  have "(23 :: int) \<in> set residues"
    unfolding residues_def by (simp only: set_filter set_map) (auto intro!: image_eqI [of _ _ 2])
  then show ?thesis by (rule length_pos_if_in_set)
qed

lemma first_candidate_shape: "first_candidate E seed len mod 8 = 7 \<and> 2 ^ (len - 1) - hash_m < first_candidate E seed len"
proof -
  have or_ge: "2 ^ (len - 1) \<le> (n OR 2 ^ (len - 1))" if "0 \<le> n" for n :: int
    using or_greater_eq [OF that, of "2 ^ (len - 1)"] by (simp only: or.commute)
  have shape: "(n - n mod hash_m + r) mod 8 = 7 \<and> n - hash_m < n - n mod hash_m + r" if "r mod 8 = 7" "7 \<le> r" for n r :: int
  proof
    have "8 dvd hash_m" by (simp add: hash_m_def)
    then have "8 dvd n - n mod hash_m" by (metis dvd_minus_mod dvd_trans)
    then show "(n - n mod hash_m + r) mod 8 = 7" using that(1) by (metis add.left_neutral mod_add_left_eq dvd_eq_mod_eq_0)
    have "n mod hash_m < hash_m" by (simp add: hash_m_def)
    then show "n - hash_m < n - n mod hash_m + r" using that(2) by linarith
  qed
  define e where "e = entropyFromSeed E seed ((len + 7) div 8 + 2)"
  define x where "x = int (be_val (take (length e - 2) e)) div 2 ^ ((8 - len mod 8) mod 8)"
  define n where "n = x OR 2 ^ (len - 1)"
  define r where "r = residues ! (be_val (drop (length e - 2) e) mod length residues)"
  have r: "r mod 8 = 7" "7 \<le> r"
    unfolding r_def using residues_nonempty by (intro residue_shape; simp)+
  have "0 \<le> x"
    unfolding x_def by (rule pos_imp_zdiv_nonneg_iff [THEN iffD2]) (rule zero_less_power zero_less_numeral of_nat_0_le_iff)+
  then have "2 ^ (len - 1) \<le> n" unfolding n_def by (rule or_ge)
  moreover have "first_candidate E seed len = n - n mod hash_m + r"
    unfolding first_candidate_def Let_def n_def r_def x_def e_def by (rule refl)
  ultimately show ?thesis using shape [OF r, of n] by simp
qed

section \<open>The hash at one iteration\<close>

lemma calculate_run:
  assumes "d < 0" and "d mod 4 = 1"
  shows "calculate E pp d x 1 = bindR (group_pow x 2) (\<lambda>y.
     case hashPrime E pp (Serialize_group x) (Serialize_group y) of
       None \<Rightarrow> None | Some B \<Rightarrow> Some (Inr (y, newGroup 1 1 ((1 - d) div 4))))"
proof -
  have lc: "ceil_div 1 (- (2 ^ 63)) = 0" by (simp add: ceil_div_def)
  have it: "iterateSquarings x [0, 1] = bindR (group_pow x 2) (\<lambda>y. Some (Inr [0 \<mapsto> x, 1 \<mapsto> y]))"
    by (simp add: iterateSquarings_def range_to_def bindR_def split: option.splits sum.splits)
  have "identityForDiscriminant d = Inr (newGroup 1 1 ((1 - d) div 4))"
    by (simp add: identityForDiscriminant_def newGroupFromDiscriminant_def floorDivision_div bindE_def)
  moreover have "evalOptimized (newGroup 1 1 ((1 - d) div 4)) x B 1 (- (2 ^ 63)) 1 C = Some (Inr (newGroup 1 1 ((1 - d) div 4)))" for B C
  proof -
    have "4 dvd 1 - d" using assms(2) by presburger
    then have "discriminant (newGroup 1 1 ((1 - d) div 4)) = d" by (simp add: discriminant_def)
    then have "group_pow (newGroup 1 1 ((1 - d) div 4)) 0 = Some (Inr (newGroup 1 1 ((1 - d) div 4)))"
      by (simp add: group_pow_def group_identity_def newGroupFromDiscriminant_def floorDivision_div bindE_def pow_loop.simps)
    then show ?thesis
      by (simp add: evalOptimized_def Let_def range_to_def pow2_int_def big_Quo_def fill_ys_def lc [simplified])
  qed
  ultimately show ?thesis
    using lc by (simp add: calculate_def approximateParameters_def range_to_def it generateProof_def bindR_def
        split: option.splits sum.splits)
qed

section \<open>Properties\<close>

text \<open>
  C38. The table of small primes. \<open>primeLessThanN num\<close> is exactly the list of the odd primes up to
  \<open>num\<close>, in ascending order.
\<close>

theorem primeLessThanN_primes: "primeLessThanN num = filter prime_nat [3..<Suc num]"
proof -
  have "crossed 3 num (replicate (num + 1) False)"
    by (auto simp: crossed_def simp del: replicate_Suc)
  from sieve_loop_crossed [OF this] obtain i where
    i: "num < i * i" "crossed i num (sieve_loop 3 num (replicate (num + 1) False))" by auto
  show ?thesis
    unfolding primeLessThanN_def
    using crossed_prime [OF i(2,1)] prime_odd by (subst collect_filter) (auto intro!: filter_cong)
qed

lemma candidate_shape:
  "- (first_candidate E seed len + hash_m * int j) mod 8 = 1"
  "- (first_candidate E seed len + hash_m * int j) < 2 ^ 17 - 2 ^ (len - 1)"
proof -
  note c = first_candidate_shape [of E seed len]
  have m: "hash_m = 8 * 15015" "0 \<le> hash_m * int j" by (simp_all add: hash_m_def)
  have "(first_candidate E seed len + hash_m * int j) mod 8 = 7"
    using c by (simp add: m(1) mod_add_eq [symmetric] mod_mult_right_eq mult.assoc)
  then show "- (first_candidate E seed len + hash_m * int j) mod 8 = 1" by presburger
  show "- (first_candidate E seed len + hash_m * int j) < 2 ^ 17 - 2 ^ (len - 1)"
    using c m by (simp add: hash_m_def)
qed

lemma newDiscriminant_shape:
  assumes "newDiscriminant E pp seed len = Some d"
  shows "d mod 8 = 1" and "d < 2 ^ 17 - 2 ^ (len - 1)"
proof -
  obtain j where "d = - (first_candidate E seed len + hash_m * int j)"
    using search_discriminant_Some assms unfolding newDiscriminant_def by blast
  then show "d mod 8 = 1" "d < 2 ^ 17 - 2 ^ (len - 1)" by (simp_all only: candidate_shape)
qed

lemma start_form:
  assumes "d < 0" and "d mod 8 = 1"
  shows "newGroupFromDiscriminant 2 1 d = Inr (newGroup 2 1 ((1 - d) div 8))"
    and "posdef (newGroup 2 1 ((1 - d) div 8))" and "discriminant (newGroup 2 1 ((1 - d) div 8)) = d"
proof -
  have "8 dvd 1 - d" using assms(2) by presburger
  then show d: "discriminant (newGroup 2 1 ((1 - d) div 8)) = d" by (simp add: discriminant_def)
  show "newGroupFromDiscriminant 2 1 d = Inr (newGroup 2 1 ((1 - d) div 8))"
    by (simp add: newGroupFromDiscriminant_def floorDivision_div bindE_def)
  show "posdef (newGroup 2 1 ((1 - d) div 8))" using d assms(1) by (simp add: posdef_def)
qed

lemma group_pow_ok:
  assumes "posdef g" and "discriminant g mod 4 = 1"
  shows "group_pow g n = Some (Inl NilGroup) \<or> (\<exists>z. group_pow g n = Some (Inr z) \<and> posdef z \<and> discriminant z = discriminant g)"
proof -
  have "discriminant g < 0" using assms(1) by (simp add: posdef_def)
  then obtain i where i: "group_identity g = Inr i" "posdef i" "discriminant i = discriminant g"
    by (rule identity_ok [OF _ assms(2)])
  then show ?thesis
    using pow_loop_ok [OF assms(1) i(2), of n] by (simp add: group_pow_def)
qed

lemma hashPrime_returns:
  assumes "pp (prime_digest E x y j)"
  shows "\<exists>B. hashPrime E pp x y = Some B"
proof -
  have "pp (prime_digest E x y (i + word_of_nat n)) \<Longrightarrow> \<exists>B. hashPrime_loop E pp x y i = Some B" for i n
  proof (induction n arbitrary: i)
    case 0
    then show ?case by (subst hashPrime_loop.simps) simp
  next
    case (Suc n)
    from Suc.IH [of "i + 1"] Suc.prems show ?case
      by (subst hashPrime_loop.simps) (simp add: add.assoc add.commute [of 1])
  qed
  from this [of 0 "unat j"] assms show ?thesis by (simp add: hashPrime_def)
qed

text \<open>
  A reduced form of prime discriminant is primitive, so that it can be squared.
\<close>

lemma reduced_bound:
  assumes "is_reduced g" and "posdef g"
  shows "ga g < - discriminant g"
proof -
  have a: "0 < ga g" using assms(2) by (simp add: posdef_def)
  have "gb g * gb g \<le> ga g * ga g"
    using assms(1) a by (intro power2_le_iff_abs_le [THEN iffD2, unfolded power2_eq_square]) (auto simp: is_reduced_def is_normal_def)
  moreover have "ga g * ga g \<le> ga g * gc g"
    using assms(1) a by (simp add: is_reduced_def)
  moreover have "ga g \<le> ga g * ga g" using a by (simp add: mult_le_cancel_left1)
  moreover have "- discriminant g = 4 * (ga g * gc g) - gb g * gb g" by (simp add: discriminant_def)
  ultimately show ?thesis using a by linarith
qed

lemma prime_square:
  assumes "is_reduced g" and "posdef g" and "prime_nat (nat (- discriminant g))"
  shows "gcd (gb g) (ga g) = 1"
proof -
  let ?g = "gcd (gb g) (ga g)"
  have a: "0 < ga g" using assms(2) by (simp add: posdef_def)
  have "?g dvd - discriminant g" by (simp add: discriminant_def)
  then have "nat ?g dvd nat (- discriminant g)" by (simp add: nat_dvd_iff) 
  then have "nat ?g = 1 \<or> nat ?g = nat (- discriminant g)" using assms(3) unfolding prime_nat_def by blast
  moreover have "?g \<le> ga g" using a by (simp add: zdvd_imp_le)
  moreover have "0 \<le> ?g" by simp
  moreover note reduced_bound [OF assms(1,2)]
  ultimately show ?thesis by (metis eq_nat_nat_iff leD le_less_trans less_imp_le nat_eq_iff of_nat_1 zero_neq_one)
qed

lemma prime_pow2:
  assumes "d < 0" and "d mod 8 = 1" and "prime_nat (nat (- d))"
  shows "\<exists>y. group_pow (newGroup 2 1 ((1 - d) div 8)) 2 = Some (Inr y) \<and> posdef y \<and> discriminant y = d"
proof -
  let ?x = "newGroup 2 1 ((1 - d) div 8)"
  note x = start_form [OF assms(1,2)]
  have d4: "discriminant ?x mod 4 = 1" unfolding x(3) using assms(2) by presburger
  obtain i where i: "group_identity ?x = Inr i" "posdef i" "discriminant i = discriminant ?x"
    by (rule identity_ok [OF _ d4]) (use x(3) assms(1) in auto)
  have "gcd (gb ?x) (ga ?x) dvd gc ?x" by simp
  then obtain x1 where x1: "square ?x = Some (Inr x1)" "posdef x1" "is_reduced x1" "discriminant x1 = d"
    using square_ok [OF x(2)] x(3) by metis
  have "gcd (gb x1) (ga x1) dvd gc x1"
    using prime_square [OF x1(3,2)] assms(3) x1(4) by simp
  then obtain x2 where x2: "square x1 = Some (Inr x2)" using square_ok [OF x1(2)] by metis
  obtain p where p: "multiply i x1 = Some (Inr p)" "posdef p" "discriminant p = d"
    by (rule multiply_ok [OF i(2) x1(2)]) (use i(3) x(3) x1(4) in auto)
  have "group_pow ?x 2 = Some (Inr p)"
    by (simp add: group_pow_def i(1) pow_loop.simps [of 2] pow_loop.simps [of 1] pow_loop.simps [of 0] x1(1) x2 p(1))
  with p show ?thesis by blast
qed

text \<open>
  Modular exponentiation. For a modulus below \<open>2 ^ 31\<close> and non-negative base and exponent,
  \<open>modExp\<close> is the power modulo the modulus: the products of \<open>int64\<close> values do not wrap.
\<close>

theorem modExp_is_power:
  assumes "1 < modulus" and "modulus < 2 ^ 31" and "0 \<le> base"
  shows "modExp base (int n) modulus = base ^ n mod modulus"
proof -
  have "big_Rem base modulus = base mod modulus" using assms by (simp add: big_Rem_mod)
  then have "modExp base (int n) modulus = (base mod modulus) ^ n mod modulus"
    using assms modExp_loop_power [of modulus "base mod modulus" 1 n] by (simp add: modExp_def)
  then show ?thesis by (simp add: power_mod)
qed

theorem modExp_is_power_witness: "modExp 10 (int 15) 17 = 10 ^ 15 mod 17"
  by (rule modExp_is_power) simp_all

text \<open>
  The discriminant. Whatever the input, every candidate that \<open>newDiscriminant\<close> tries has at least
  2047 bits and its negative is one modulo eight, so that the start form \<open>(2, 1, c)\<close> exists exactly:
  it is positive definite and has the negated candidate as discriminant. The result is the negative of
  a candidate that passed the primality test.
\<close>

theorem discriminant_fits_start_form:
  "(let d = - (first_candidate E seed 2048 + hash_m * int j) in
      d < - (2 ^ 2046) \<and> d mod 8 = 1 \<and> (\<exists>x. newGroupFromDiscriminant 2 1 d = Inr x \<and> posdef x \<and> discriminant x = d)) \<and>
   (case newDiscriminant E probablyPrime seed 2048 of None \<Rightarrow> True
    | Some d \<Rightarrow> probablyPrime (- d) \<and> (\<exists>i. d = - (first_candidate E seed 2048 + hash_m * int i)))"
proof (intro conjI)
  define d where "d = - (first_candidate E seed 2048 + hash_m * int j)"
  have d8: "d mod 8 = 1" and lt: "d < 2 ^ 17 - 2 ^ (2048 - 1)"
    unfolding d_def by (rule candidate_shape)+
  have lt': "d < - (2 ^ 2046)" using lt by simp
  then have "d < 0" by (rule less_trans) simp
  from start_form [OF this d8] d8 lt'
  have "d < - (2 ^ 2046) \<and> d mod 8 = 1 \<and> (\<exists>x. newGroupFromDiscriminant 2 1 d = Inr x \<and> posdef x \<and> discriminant x = d)" by blast
  then show "let d = - (first_candidate E seed 2048 + hash_m * int j) in
      d < - (2 ^ 2046) \<and> d mod 8 = 1 \<and> (\<exists>x. newGroupFromDiscriminant 2 1 d = Inr x \<and> posdef x \<and> discriminant x = d)"
    by (simp only: Let_def d_def)
  show "case newDiscriminant E probablyPrime seed 2048 of None \<Rightarrow> True
    | Some d \<Rightarrow> probablyPrime (- d) \<and> (\<exists>i. d = - (first_candidate E seed 2048 + hash_m * int i))"
  proof (cases "newDiscriminant E probablyPrime seed 2048")
    case (Some d)
    then obtain i where "d = - (first_candidate E seed 2048 + hash_m * int i)" "probablyPrime (first_candidate E seed 2048 + hash_m * int i)"
      using search_discriminant_Some unfolding newDiscriminant_def by blast
    then have "probablyPrime (- d)" "\<exists>i. d = - (first_candidate E seed 2048 + hash_m * int i)" by (simp_all only: minus_minus) blast
    then show ?thesis by (simp only: Some option.case)
  qed simp
qed



end
