(* ===== verification/Merkle.thy ===== *)
theory Merkle
  imports Prelude
begin

text \<open>
  Merkle trees, \<open>pkg/storage/merkle\<close>. The hash function (an argument of \<open>New\<close>; the chain passes
  SHA-256) is a parameter of the definitions. A nil node is \<open>None\<close>.

  \<open>constructPath\<close> extends slices that share a backing array, so the arrays are kept in an explicit
  store and \<open>append\<close> writes in place whenever the capacity allows it.
\<close>

section \<open>Trees\<close>

datatype MerkleNode =
    Leaf (node_data: bytes) (node_root: bytes)
  | Branch (node_left: MerkleNode) (node_right: MerkleNode) (node_root: bytes)

definition mkLeaf :: "(bytes \<Rightarrow> bytes) \<Rightarrow> bytes \<Rightarrow> MerkleNode option" where
  "mkLeaf H dat = (if dat = [] then None else Some (Leaf dat (H dat)))"

definition mkRootHash :: "(bytes \<Rightarrow> bytes) \<Rightarrow> bytes \<Rightarrow> bytes \<Rightarrow> bytes" where
  "mkRootHash H a b = H (a @ b)"

definition mkBranch :: "(bytes \<Rightarrow> bytes) \<Rightarrow> MerkleNode option \<Rightarrow> MerkleNode option \<Rightarrow> MerkleNode option" where
  "mkBranch H l r =
     (case l of None \<Rightarrow> None | Some l \<Rightarrow>
       (case r of None \<Rightarrow> None | Some r \<Rightarrow> Some (Branch l r (mkRootHash H (node_root l) (node_root r)))))"

lemma and_pred_less: "0 < n \<Longrightarrow> n AND (n - 1) < (n :: nat)"
proof -
  assume n: "0 < n"
  have "int n AND int (n - 1) \<le> int (n - 1)" by (rule AND_upper2) simp
  then have "n AND (n - 1) \<le> n - 1" by (simp add: and_nat_def nat_le_iff)
  then show ?thesis using n by linarith
qed

function powerOfTwo0 :: "nat \<Rightarrow> nat" where
  "powerOfTwo0 n = (if n AND (n - 1) = 0 then n else powerOfTwo0 (n AND (n - 1)))"
  by pat_completeness auto
termination
proof (relation "measure id")
  fix n :: nat assume "n AND (n - 1) \<noteq> 0"
  then have "0 < n" by (cases n) simp_all
  then show "(n AND (n - 1), n) \<in> measure id" using and_pred_less by simp
qed simp

declare powerOfTwo0.simps [simp del]

definition powerOfTwo :: "nat \<Rightarrow> nat" where
  "powerOfTwo n = (if n AND (n - 1) = 0 then n div 2 else powerOfTwo0 n)"

lemma powerOfTwo0_bounds: "0 < n \<Longrightarrow> 0 < powerOfTwo0 n \<and> powerOfTwo0 n \<le> n"
proof (induction n rule: powerOfTwo0.induct)
  case (1 n)
  then show ?case
    using and_pred_less [of n] by (cases "n AND (n - 1) = 0") (auto simp: powerOfTwo0.simps [of n] intro: order_trans)
qed

lemma powerOfTwo_bounds: "2 \<le> n \<Longrightarrow> 0 < powerOfTwo n \<and> powerOfTwo n < n"
proof (cases "n AND (n - 1) = 0")
  case False
  assume n: "2 \<le> n"
  have "powerOfTwo n = powerOfTwo0 (n AND (n - 1))"
    using False by (simp add: powerOfTwo_def powerOfTwo0.simps [of n])
  then show ?thesis using powerOfTwo0_bounds [of "n AND (n - 1)"] and_pred_less [of n] False n by auto
qed (auto simp: powerOfTwo_def)

text \<open>The argument \<open>n\<close> is the length of the slice; \<open>New\<close> never calls it with an empty one.\<close>

function mkMerkleTreeRoot :: "(bytes \<Rightarrow> bytes) \<Rightarrow> bytes list \<Rightarrow> MerkleNode option" where
  "mkMerkleTreeRoot H dat =
     (if length dat = 0 then None
      else if length dat = 1 then mkLeaf H (dat ! 0)
      else let i = powerOfTwo (length dat)
           in mkBranch H (mkMerkleTreeRoot H (take i dat)) (mkMerkleTreeRoot H (drop i dat)))"
  by pat_completeness auto
termination
proof (relation "measure (\<lambda>(H, dat). length dat)")
  fix H :: "bytes \<Rightarrow> bytes" and dat :: "bytes list" and i
  assume "length dat \<noteq> 0" "length dat \<noteq> 1" "i = powerOfTwo (length dat)"
  with powerOfTwo_bounds [of "length dat"]
  show "((H, take i dat), H, dat) \<in> measure (\<lambda>(H, dat). length dat)"
    "((H, drop i dat), H, dat) \<in> measure (\<lambda>(H, dat). length dat)" by auto
qed simp

declare mkMerkleTreeRoot.simps [simp del]

text \<open>A \<open>*MerkleTree\<close>: nil, or a tree whose root node may be nil.\<close>

definition New :: "(bytes \<Rightarrow> bytes) \<Rightarrow> bytes list \<Rightarrow> MerkleNode option option" where
  "New H dat = (if dat = [] then None else Some (mkMerkleTreeRoot H dat))"

definition GetMtHash :: "MerkleNode option option \<Rightarrow> err + bytes" where
  "GetMtHash t = (case t of None \<Rightarrow> Inr [] | Some None \<Rightarrow> Inl (Panic ''nil pointer'') | Some (Some n) \<Rightarrow> Inr (node_root n))"

section \<open>Proof paths\<close>

record ProofElem =
  isLeft :: bool
  nodeRoot :: bytes
  siblingRoot :: bytes

text \<open>
  The store of backing arrays, each as long as its capacity, and slices that start at the first
  element. When \<open>append\<close> has to allocate, the capacity doubles or becomes what is needed; for elements
  of 40 bytes the size classes of the allocator do not change the capacities 1, 2, 4, 8, 16 and 32.
\<close>

type_synonym pstore = "ProofElem list list"

record pslice =
  s_arr :: nat
  s_len :: nat

definition zeroElem :: ProofElem where
  "zeroElem = \<lparr>isLeft = False, nodeRoot = [], siblingRoot = []\<rparr>"

definition s_cap :: "pstore \<Rightarrow> pslice \<Rightarrow> nat" where
  "s_cap st p = length (st ! s_arr p)"

definition elems :: "pstore \<Rightarrow> pslice \<Rightarrow> ProofElem list" where
  "elems st p = take (s_len p) (st ! s_arr p)"

definition emptySlice :: "pstore \<Rightarrow> pslice \<times> pstore" where
  "emptySlice st = (\<lparr>s_arr = length st, s_len = 0\<rparr>, st @ [[]])"

definition growcap :: "nat \<Rightarrow> nat \<Rightarrow> nat" where
  "growcap old needed = (if 2 * old < needed then needed else 2 * old)"

definition appendSlice :: "pslice \<Rightarrow> ProofElem list \<Rightarrow> pstore \<Rightarrow> pslice \<times> pstore" where
  "appendSlice p es st =
     (let n = s_len p + length es
      in if n \<le> s_cap st p
         then (p\<lparr>s_len := n\<rparr>, st[s_arr p := elems st p @ es @ drop n (st ! s_arr p)])
         else (\<lparr>s_arr = length st, s_len = n\<rparr>,
               st @ [elems st p @ es @ replicate (growcap (s_cap st p) n - n) zeroElem]))"

fun constructPath :: "pslice \<Rightarrow> MerkleNode \<Rightarrow> MerkleNode \<Rightarrow> pstore \<Rightarrow> pslice \<times> pstore" where
  "constructPath prf (Leaf d r) node st = (if r = node_root node then (prf, st) else emptySlice st)"
| "constructPath prf (Branch ln rn r) node st =
     (let lProofElem = \<lparr>isLeft = True, nodeRoot = node_root ln, siblingRoot = node_root rn\<rparr>;
          rProofElem = \<lparr>isLeft = False, nodeRoot = node_root rn, siblingRoot = node_root ln\<rparr>;
          (lp, st) = appendSlice prf [lProofElem] st;
          (lpath, st) = constructPath lp ln node st;
          (rp, st) = appendSlice prf [rProofElem] st;
          (rpath, st) = constructPath rp rn node st
      in appendSlice lpath (elems st rpath) st)"

text \<open>\<open>validate\<close> consumes the path from its end; only the root of the node matters.\<close>

fun validate_rev :: "(bytes \<Rightarrow> bytes) \<Rightarrow> ProofElem list \<Rightarrow> bytes \<Rightarrow> bytes \<Rightarrow> bool" where
  "validate_rev H [] root leaf = (leaf = root)"
| "validate_rev H (e # es) root leaf =
     (if nodeRoot e \<noteq> leaf then False
      else validate_rev H es root (if isLeft e then mkRootHash H (nodeRoot e) (siblingRoot e)
                                   else mkRootHash H (siblingRoot e) (nodeRoot e)))"

definition validate :: "(bytes \<Rightarrow> bytes) \<Rightarrow> ProofElem list \<Rightarrow> bytes \<Rightarrow> bytes \<Rightarrow> bool" where
  "validate H proof root leaf = validate_rev H (rev proof) root leaf"

definition VerifyNode :: "(bytes \<Rightarrow> bytes) \<Rightarrow> MerkleNode option option \<Rightarrow> bytes \<Rightarrow> err + bool" where
  "VerifyNode H t dat =
     (case t of
        Some (Some root) \<Rightarrow>
          (case mkLeaf H dat of
             None \<Rightarrow> Inl (Panic ''nil pointer'')
           | Some node \<Rightarrow>
               (let (p, st) = emptySlice []; (proof, st) = constructPath p root node st
                in Inr (validate H (elems st proof) (node_root root) (node_root node))))
      | _ \<Rightarrow> Inl (Panic ''nil pointer''))"

section \<open>Binding\<close>

text \<open>The inputs that the construction of a tree gives to the hash function.\<close>

fun inputs :: "MerkleNode \<Rightarrow> bytes set" where
  "inputs (Leaf d r) = {d}"
| "inputs (Branch l r rt) = insert (node_root l @ node_root r) (inputs l \<union> inputs r)"

lemma mk_one: "mkMerkleTreeRoot H [x] = mkLeaf H x"
  by (subst mkMerkleTreeRoot.simps) simp

lemma mk_two: "mkMerkleTreeRoot H [x, y] = mkBranch H (mkLeaf H x) (mkLeaf H y)"
  by (subst mkMerkleTreeRoot.simps) (simp add: powerOfTwo_def mk_one)

lemma mk_root:
  "mkMerkleTreeRoot H xs = Some t \<Longrightarrow> \<exists>x \<in> inputs t. node_root t = H x"
  by (subst (asm) mkMerkleTreeRoot.simps)
    (auto simp: mkLeaf_def mkBranch_def mkRootHash_def Let_def split: if_splits option.splits)

lemma mk_branch:
  assumes "mkMerkleTreeRoot H xs = Some t" and "2 \<le> length xs"
  obtains l r where "mkMerkleTreeRoot H (take (powerOfTwo (length xs)) xs) = Some l"
    "mkMerkleTreeRoot H (drop (powerOfTwo (length xs)) xs) = Some r" "t = Branch l r (H (node_root l @ node_root r))"
  using assms by (subst (asm) mkMerkleTreeRoot.simps)
    (auto simp: mkBranch_def mkRootHash_def Let_def split: if_splits option.splits)

lemma mk_binding:
  "mkMerkleTreeRoot H xs = Some t \<Longrightarrow> mkMerkleTreeRoot H ys = Some u \<Longrightarrow> length xs = length ys \<Longrightarrow>
   (\<And>x. length (H x) = n) \<Longrightarrow> inj_on H (inputs t \<union> inputs u) \<Longrightarrow> node_root t = node_root u \<Longrightarrow> xs = ys"
proof (induction H xs arbitrary: ys t u rule: mkMerkleTreeRoot.induct)
  case (1 H xs)
  have "length xs \<noteq> 0"
    using "1.prems"(1) by (subst (asm) mkMerkleTreeRoot.simps) (auto split: if_splits)
  then consider "length xs = 1" | "2 \<le> length xs" by linarith
  then show ?case
  proof cases
    case 1
    then obtain x y where xy: "xs = [x]" "ys = [y]"
      using "1.prems"(3) by (metis One_nat_def Suc_length_conv length_0_conv)
    then have "t = Leaf x (H x)" "u = Leaf y (H y)"
      using "1.prems"(1,2) by (auto simp: mk_one mkLeaf_def split: if_splits)
    then show ?thesis using "1.prems"(5,6) xy by (auto dest: inj_onD)
  next
    case 2
    let ?i = "powerOfTwo (length xs)"
    obtain l r where t: "mkMerkleTreeRoot H (take ?i xs) = Some l" "mkMerkleTreeRoot H (drop ?i xs) = Some r"
        "t = Branch l r (H (node_root l @ node_root r))"
      by (rule mk_branch [OF "1.prems"(1) 2])
    obtain l' r' where u: "mkMerkleTreeRoot H (take ?i ys) = Some l'" "mkMerkleTreeRoot H (drop ?i ys) = Some r'"
        "u = Branch l' r' (H (node_root l' @ node_root r'))"
      using mk_branch [OF "1.prems"(2)] 2 "1.prems"(3) by metis
    have "node_root l @ node_root r = node_root l' @ node_root r'"
      by (rule inj_onD [OF "1.prems"(5)]) (use "1.prems"(6) t(3) u(3) in simp_all)
    moreover have "length (node_root l) = length (node_root l')"
      using mk_root [OF t(1)] mk_root [OF u(1)] "1.prems"(4) by auto
    ultimately have roots: "node_root l = node_root l'" "node_root r = node_root r'" by simp_all
    have inj: "inj_on H (inputs l \<union> inputs l')" "inj_on H (inputs r \<union> inputs r')"
      using "1.prems"(5) by (auto simp: t(3) u(3) intro: inj_on_subset)
    have len: "length xs \<noteq> 0" "length xs \<noteq> 1" using 2 by auto
    have "take ?i xs = take ?i ys"
      using "1.IH"(1) [OF len refl t(1) u(1) _ "1.prems"(4) inj(1) roots(1)] "1.prems"(3) by simp
    moreover have "drop ?i xs = drop ?i ys"
      using "1.IH"(2) [OF len refl t(2) u(2) _ "1.prems"(4) inj(2) roots(2)] "1.prems"(3) by simp
    ultimately show ?thesis by (metis append_take_drop_id)
  qed
qed

section \<open>Small trees\<close>

text \<open>The path to a leaf without sharing, and the leaves of a tree.\<close>

fun path :: "MerkleNode \<Rightarrow> bytes \<Rightarrow> ProofElem list option" where
  "path (Leaf d r) x = (if r = x then Some [] else None)"
| "path (Branch l r rt) x =
     (case path l x of
        Some p \<Rightarrow> Some (\<lparr>isLeft = True, nodeRoot = node_root l, siblingRoot = node_root r\<rparr> # p)
      | None \<Rightarrow>
         (case path r x of
            Some p \<Rightarrow> Some (\<lparr>isLeft = False, nodeRoot = node_root r, siblingRoot = node_root l\<rparr> # p)
          | None \<Rightarrow> None))"

fun leaves :: "MerkleNode \<Rightarrow> (bytes \<times> bytes) list" where
  "leaves (Leaf d r) = [(d, r)]"
| "leaves (Branch l r rt) = leaves l @ leaves r"

fun height :: "MerkleNode \<Rightarrow> nat" where
  "height (Leaf d r) = 0"
| "height (Branch l r rt) = Suc (max (height l) (height r))"

lemma path_None: "path t x = None \<longleftrightarrow> x \<notin> snd ` set (leaves t)"
  by (induction t) (auto split: option.splits)

text \<open>A store that keeps what another one holds, and the slices of a store.\<close>

definition extends :: "pstore \<Rightarrow> pstore \<Rightarrow> bool" where
  "extends st st' \<longleftrightarrow> length st \<le> length st' \<and> (\<forall>a<length st. st' ! a = st ! a)"

definition slice_ok :: "pstore \<Rightarrow> pslice \<Rightarrow> bool" where
  "slice_ok st p \<longleftrightarrow> s_arr p < length st \<and> s_len p \<le> s_cap st p"

lemma extends_trans: "extends a b \<Longrightarrow> extends b c \<Longrightarrow> extends a c"
  by (auto simp: extends_def)

lemma extends_elems: "extends st st' \<Longrightarrow> slice_ok st p \<Longrightarrow> elems st' p = elems st p \<and> s_cap st' p = s_cap st p \<and> slice_ok st' p"
  by (auto simp: extends_def slice_ok_def elems_def s_cap_def)

lemma append_full:
  assumes "slice_ok st p" and "s_len p = s_cap st p" and "es \<noteq> []" and "appendSlice p es st = (q, st')"
  shows "extends st st'" "slice_ok st' q" "elems st' q = elems st p @ es" "s_len q = s_len p + length es"
    "s_cap st' q = growcap (s_cap st p) (s_len p + length es)"
proof -
  have q: "q = \<lparr>s_arr = length st, s_len = s_len p + length es\<rparr>"
    "st' = st @ [elems st p @ es @ replicate (growcap (s_cap st p) (s_len p + length es) - (s_len p + length es)) zeroElem]"
    using assms by (auto simp: appendSlice_def Let_def)
  have l: "length (elems st p) = s_len p" using assms(1) by (simp add: elems_def slice_ok_def s_cap_def)
  have g: "s_len p + length es \<le> growcap (s_cap st p) (s_len p + length es)" by (simp add: growcap_def)
  show "extends st st'" "slice_ok st' q" "elems st' q = elems st p @ es" "s_len q = s_len p + length es"
    "s_cap st' q = growcap (s_cap st p) (s_len p + length es)"
    using l g by (auto simp: q extends_def slice_ok_def elems_def s_cap_def nth_append)
qed

lemma append_nothing: "slice_ok st p \<Longrightarrow> appendSlice p [] st = (p, st)"
  by (simp add: appendSlice_def slice_ok_def elems_def s_cap_def Let_def)

lemma constructPath_small:
  "constructPath p t node st = (q, st') \<Longrightarrow> slice_ok st p \<Longrightarrow>
   height t = 0 \<or> s_len p = s_cap st p \<and> s_len p + height t \<le> 3 \<Longrightarrow>
   distinct (map snd (leaves t)) \<Longrightarrow>
   extends st st' \<and> slice_ok st' q \<and>
   (case path t (node_root node) of None \<Rightarrow> s_len q = 0 \<and> s_cap st' q = 0 | Some \<pi> \<Rightarrow> elems st' q = elems st p @ \<pi>)"
proof (induction t arbitrary: p st q st')
  case (Leaf d r)
  then show ?case
    by (auto simp: emptySlice_def extends_def slice_ok_def s_cap_def nth_append)
next
  case (Branch ln rn rt)
  let ?x = "node_root node"
  let ?le = "\<lparr>isLeft = True, nodeRoot = node_root ln, siblingRoot = node_root rn\<rparr>"
  let ?re = "\<lparr>isLeft = False, nodeRoot = node_root rn, siblingRoot = node_root ln\<rparr>"
  obtain lp s1 where 1: "appendSlice p [?le] st = (lp, s1)" by (metis surj_pair)
  obtain lpath s2 where 2: "constructPath lp ln node s1 = (lpath, s2)" by (metis surj_pair)
  obtain rp s3 where 3: "appendSlice p [?re] s2 = (rp, s3)" by (metis surj_pair)
  obtain rpath s4 where 4: "constructPath rp rn node s3 = (rpath, s4)" by (metis surj_pair)
  have run: "appendSlice lpath (elems s4 rpath) s4 = (q, st')"
    using Branch.prems(1) by (simp add: 1 2 3 4 Let_def)
  have full: "s_len p = s_cap st p" "s_len p + max (height ln) (height rn) < 3" using Branch.prems(3) by auto
  have grow: "growcap c (Suc c) = Suc c \<or> c = 2" if "c < 3" for c
    using that by (auto simp: growcap_def)
  note a1 = append_full [OF Branch.prems(2) full(1) _ 1, simplified]
  have c1: "height ln = 0 \<or> s_len lp = s_cap s1 lp \<and> s_len lp + height ln \<le> 3"
    using full grow [of "s_cap st p"] a1(4,5) by auto
  have d: "distinct (map snd (leaves ln))" "distinct (map snd (leaves rn))"
    "snd ` set (leaves ln) \<inter> snd ` set (leaves rn) = {}"
    using Branch.prems(4) by auto
  note L = Branch.IH(1) [OF 2 a1(2) c1 d(1)]
  have e2: "extends st s2" using a1(1) L extends_trans by blast
  note p2 = extends_elems [OF e2 Branch.prems(2)]
  note a3 = append_full [OF _ _ _ 3, simplified]
  have a3: "extends s2 s3" "slice_ok s3 rp" "elems s3 rp = elems st p @ [?re]" "s_len rp = Suc (s_len p)"
    "s_cap s3 rp = growcap (s_cap st p) (Suc (s_len p))"
    using a3 p2 full(1) by simp_all
  have c3: "height rn = 0 \<or> s_len rp = s_cap s3 rp \<and> s_len rp + height rn \<le> 3"
    using full grow [of "s_cap st p"] a3(4,5) by auto
  note R = Branch.IH(2) [OF 4 a3(2) c3 d(2)]
  have e4: "extends st s4" "extends s2 s4" using e2 a3(1) R extends_trans by blast+
  have l4: "elems s4 lpath = elems s2 lpath" "s_cap s4 lpath = s_cap s2 lpath" "slice_ok s4 lpath"
    using extends_elems [OF e4(2)] L by blast+
  show ?case
  proof (cases "path rn ?x")
    case None
    then have "elems s4 rpath = []" using R by (simp add: elems_def)
    then have q: "q = lpath" "st' = s4" using run append_nothing [OF l4(3)] by simp_all
    show ?thesis
      using L None e4(1) l4 a1(3) by (cases "path ln ?x") (simp_all add: q)
  next
    case (Some \<pi>)
    then have "path ln ?x = None" using d(3) path_None by (metis IntI empty_iff option.distinct(1))
    then have l0: "s_len lpath = 0" "s_cap s4 lpath = 0" "elems s4 lpath = []"
      using L l4 by (simp_all add: elems_def)
    have r4: "elems s4 rpath = elems st p @ [?re] @ \<pi>" using R Some a3(3) by simp
    then have "elems s4 rpath \<noteq> []" by simp
    note f = append_full [OF l4(3) _ this run]
    show ?thesis
      using f l0 r4 e4(1) extends_trans [OF e4(1)] Some \<open>path ln ?x = None\<close> by simp
  qed
qed

text \<open>Following the path of a leaf recomputes the root.\<close>

fun wf_roots :: "(bytes \<Rightarrow> bytes) \<Rightarrow> MerkleNode \<Rightarrow> bool" where
  "wf_roots H (Leaf d r) = (r = H d)"
| "wf_roots H (Branch l r rt) = (rt = H (node_root l @ node_root r) \<and> wf_roots H l \<and> wf_roots H r)"

lemma validate_path:
  "wf_roots H t \<Longrightarrow> path t x = Some \<pi> \<Longrightarrow> validate_rev H (rev \<pi> @ es) root x = validate_rev H es root (node_root t)"
proof (induction t arbitrary: \<pi> es)
  case (Branch l r rt)
  then show ?case
    by (auto simp: mkRootHash_def split: option.splits)
qed (auto split: if_splits)

lemma small_split:
  assumes "n \<le> 2 ^ k" and "2 \<le> n" and "k \<le> 3"
  shows "\<exists>j. k = Suc j \<and> powerOfTwo n \<le> 2 ^ j \<and> n - powerOfTwo n \<le> 2 ^ j"
proof -
  have p: "powerOfTwo 2 = 1" "powerOfTwo 3 = 2" "powerOfTwo 4 = 2" "powerOfTwo 5 = 4" "powerOfTwo 6 = 4"
      "powerOfTwo 7 = 4" "powerOfTwo 8 = 4"
    by (simp_all add: powerOfTwo_def powerOfTwo0.simps)
  have k: "k = 1 \<or> k = 2 \<or> k = 3" using assms by (cases k) (auto simp: le_Suc_eq numeral_eq_Suc)
  then have "n \<le> 8" using assms(1) by auto
  then have "n = 2 \<or> n = 3 \<or> n = 4 \<or> n = 5 \<or> n = 6 \<or> n = 7 \<or> n = 8" using assms(2) by linarith
  with k assms(1) p show ?thesis by (elim disjE) simp_all
qed

lemma mk_wf:
  "mkMerkleTreeRoot H xs = Some t \<Longrightarrow> wf_roots H t \<and> leaves t = map (\<lambda>x. (x, H x)) xs \<and> (length xs \<le> 2 ^ k \<and> k \<le> 3 \<longrightarrow> height t \<le> k)"
proof (induction H xs arbitrary: t k rule: mkMerkleTreeRoot.induct)
  case (1 H xs)
  have "length xs \<noteq> 0"
    using "1.prems" by (subst (asm) mkMerkleTreeRoot.simps) (auto split: if_splits)
  then consider "length xs = 1" | "2 \<le> length xs" by linarith
  then show ?case
  proof cases
    case 1
    then obtain x where "xs = [x]" by (metis One_nat_def Suc_length_conv length_0_conv)
    then show ?thesis using "1.prems" by (auto simp: mk_one mkLeaf_def split: if_splits)
  next
    case 2
    let ?i = "powerOfTwo (length xs)"
    obtain l r where t: "mkMerkleTreeRoot H (take ?i xs) = Some l" "mkMerkleTreeRoot H (drop ?i xs) = Some r"
        "t = Branch l r (H (node_root l @ node_root r))"
      by (rule mk_branch [OF "1.prems" 2])
    have len: "length xs \<noteq> 0" "length xs \<noteq> 1" using 2 by auto
    note L = "1.IH"(1) [OF len refl t(1)] and R = "1.IH"(2) [OF len refl t(2)]
    have "height t \<le> k" if k: "length xs \<le> 2 ^ k" "k \<le> 3"
    proof -
      obtain j where j: "k = Suc j" "?i \<le> 2 ^ j" "length xs - ?i \<le> 2 ^ j" using small_split [OF k(1) 2 k(2)] by blast
      then show ?thesis using L [of j] R [of j] k(2) t(3) by simp
    qed
    moreover have "wf_roots H t" using L R t(3) by simp
    moreover have "leaves t = map (\<lambda>x. (x, H x)) xs"
      using L R t(3) by (simp flip: map_append)
    ultimately show ?thesis by blast
  qed
qed

section \<open>Properties\<close>

text \<open>
  C40. The root binds the data. Two lists of the same length with the same Merkle root are equal,
  unless the hash function collides on two of the inputs that building the two trees gives to it.
\<close>

theorem merkle_root_binds:
  assumes "New H xs = Some (Some t)" and "New H ys = Some (Some u)" and "length xs = length ys"
    and "\<And>x. length (H x) = n" and "inj_on H (inputs t \<union> inputs u)"
    and "GetMtHash (New H xs) = GetMtHash (New H ys)"
  shows "xs = ys"
proof -
  have "mkMerkleTreeRoot H xs = Some t" "mkMerkleTreeRoot H ys = Some u"
    using assms(1,2) by (simp_all add: New_def split: if_splits)
  then show ?thesis
    using mk_binding assms(1-6) by (metis GetMtHash_def option.case(2) sum.inject(2))
qed

definition toy_hash :: "bytes \<Rightarrow> bytes" where
  "toy_hash x = (if x = [] then [0, 0, 0] else [hd x, last x, sum_list x])"

theorem merkle_root_binds_witness:
  "GetMtHash (New toy_hash [[1], [2]]) \<noteq> GetMtHash (New toy_hash [[1], [3]])"
proof
  assume eq: "GetMtHash (New toy_hash [[1], [2]]) = GetMtHash (New toy_hash [[1], [3]])"
  have new: "New toy_hash [[a], [b]] = Some (Some (Branch (Leaf [a] [a, a, a]) (Leaf [b] [b, b, b]) (toy_hash [a, a, a, b, b, b])))" for a b
    by (simp add: New_def mk_two mkLeaf_def mkBranch_def mkRootHash_def toy_hash_def)
  have "[[1], [2]] = [[1], [3 :: byte]]"
    by (rule merkle_root_binds [OF new new _ _ _ eq]) (auto simp: toy_hash_def)
  then show False by simp
qed

text \<open>
  Leaves and branches are hashed alike. The tree over two entries has the same root as the tree
  over the single entry that is the concatenation of their hashes, so that the root does not bind the
  number of entries.
\<close>

theorem merkle_root_not_binding_length:
  assumes "a \<noteq> []" and "b \<noteq> []" and "H a \<noteq> []"
  shows "GetMtHash (New H [H a @ H b]) = GetMtHash (New H [a, b])"
  using assms by (simp add: New_def GetMtHash_def mk_one mk_two mkLeaf_def mkBranch_def mkRootHash_def)

theorem merkle_root_not_binding_length_witness:
  "GetMtHash (New toy_hash [toy_hash [1] @ toy_hash [2]]) = GetMtHash (New toy_hash [[1], [2]])"
  by (rule merkle_root_not_binding_length) (simp_all add: toy_hash_def)

definition leaves16 :: "bytes list" where
  "leaves16 = map (\<lambda>i. [word_of_nat i]) [1..<17]"

text \<open>
  Membership proofs. In a tree over at most eight different entries \<open>VerifyNode\<close> accepts exactly
  the entries, for a hash function that does not collide on the inputs at hand and data that is no
  inner node. Beyond that it does not work: the slices of a longer path share their backing array, and
  in the tree over sixteen different entries the first one is rejected.
\<close>

theorem verify_node_small_trees:
  assumes "New H xs = Some (Some t)" and "length xs \<le> 8" and "distinct xs" and "dat \<noteq> []"
    and "inj_on H (insert dat (inputs t))" and "dat \<in> inputs t \<longrightarrow> dat \<in> set xs"
  shows "VerifyNode H (New H xs) dat = Inr (dat \<in> set xs) \<and>
    VerifyNode (\<lambda>x. x) (New (\<lambda>x. x) leaves16) (leaves16 ! 0) = Inr False"
proof
  have mk: "mkMerkleTreeRoot H xs = Some t" using assms(1) by (simp add: New_def split: if_splits)
  note w = mk_wf [OF mk, of 3]
  have sub: "set xs \<subseteq> inputs t"
  proof -
    have "fst ` set (leaves t) \<subseteq> inputs t" by (induction t) auto
    then show ?thesis using w by (simp add: image_image)
  qed
  have inj: "inj_on H (insert dat (set xs))" using assms(5) sub by (auto intro: inj_on_subset)
  then have d: "distinct (map snd (leaves t))"
    using w assms(3) by (simp add: distinct_map o_def inj_on_subset subset_insertI)
  let ?p = "\<lparr>s_arr = 0, s_len = 0\<rparr>"
  obtain q st where q: "constructPath ?p t (Leaf dat (H dat)) [[]] = (q, st)" by (metis surj_pair)
  have "extends [[]] st \<and> slice_ok st q \<and>
      (case path t (H dat) of None \<Rightarrow> s_len q = 0 \<and> s_cap st q = 0 | Some \<pi> \<Rightarrow> elems st q = elems [[]] ?p @ \<pi>)"
    using constructPath_small [OF q _ _ d] w assms(2) by (simp add: slice_ok_def s_cap_def)
  then have e: "elems st q = (case path t (H dat) of None \<Rightarrow> [] | Some \<pi> \<Rightarrow> \<pi>)"
    by (auto simp: elems_def split: option.splits)
  have "H dat \<in> snd ` set (leaves t) \<longleftrightarrow> dat \<in> set xs"
  proof -
    have "leaves t = map (\<lambda>x. (x, H x)) xs" using w by blast
    then have "snd ` set (leaves t) = H ` set xs" by (simp add: image_image)
    moreover have "H dat \<in> H ` set xs \<longleftrightarrow> dat \<in> set xs"
      by (rule inj_on_image_mem_iff [OF inj]) auto
    ultimately show ?thesis by (simp only:)
  qed
  then have found: "path t (H dat) \<noteq> None \<longleftrightarrow> dat \<in> set xs" by (simp only: path_None not_not)
  have "validate H (elems st q) (node_root t) (H dat) \<longleftrightarrow> dat \<in> set xs"
  proof (cases "path t (H dat)")
    case None
    obtain x where "x \<in> inputs t" "node_root t = H x" using mk_root [OF mk] by blast
    moreover have "H dat \<noteq> H x"
      using None found assms(6) inj_onD [OF assms(5), of dat x] \<open>x \<in> inputs t\<close> by auto
    ultimately show ?thesis using None found by (simp add: e validate_def)
  next
    case (Some \<pi>)
    then show ?thesis using validate_path [of H t "H dat" \<pi> "[]"] w found by (auto simp: e validate_def)
  qed
  then show "VerifyNode H (New H xs) dat = Inr (dat \<in> set xs)"
    using assms(1,4) q by (simp add: VerifyNode_def mkLeaf_def emptySlice_def Let_def)
  show "VerifyNode (\<lambda>x. x) (New (\<lambda>x. x) leaves16) (leaves16 ! 0) = Inr False"
    unfolding leaves16_def by code_simp
qed

theorem verify_node_small_trees_witness:
  "VerifyNode toy_hash (New toy_hash [[1], [2]]) [3] = Inr False"
proof -
  have new: "New toy_hash [[1], [2]] = Some (Some (Branch (Leaf [1] [1, 1, 1]) (Leaf [2] [2, 2, 2]) (toy_hash [1, 1, 1, 2, 2, 2])))"
    by (simp add: New_def mk_two mkLeaf_def mkBranch_def mkRootHash_def toy_hash_def)
  have "VerifyNode toy_hash (New toy_hash [[1], [2]]) [3] = Inr ([3] \<in> set [[1], [2 :: byte]])"
    using verify_node_small_trees [OF new, of "[3]"] by (simp add: toy_hash_def)
  then show ?thesis by simp
qed

end
