(* ===== verification/Reorg.thy ===== *)
theory Reorg
  imports Difficulty Vdf Merkle Reward Ledger
begin

text \<open>
  Block checks (\<open>pkg/blockchain/checkblock.go\<close> and the difficulty checks of \<open>blockchain.go\<close>), new
  blocks, removal of blocks (\<open>DeleteBlock\<close>, \<open>DeleteTempBlockTest\<close> of \<open>addAndDel.go\<close>) and the
  reorganisation of the chain.
\<close>

section \<open>Block checks\<close>

definition checkGas :: "u64 \<Rightarrow> u64 \<Rightarrow> err + unit" where
  "checkGas gasLimit gasPrice =
     (if gasLimit * gasPrice < MINGASLIMIT \<or> MAXGASLIMIT < gasLimit * gasPrice
      then Inl (Err ''gas is too small or too big'') else Inr ())"

definition checkBlockHash :: "('z) env_scheme \<Rightarrow> Block \<Rightarrow> err + unit" where
  "checkBlockHash E b =
     (let copyB = b\<lparr>b_GasUsed := 0, Hash := []\<rparr>
      in bindE (Serialize E copyB) (\<lambda>dat. if sha3_256 E dat \<noteq> Hash b then Inl (Err ''hash not equal'') else Inr ()))"

text \<open>A \<open>*big.Int\<close> that is read: nil is dereferenced.\<close>

definition derefBig :: "int option \<Rightarrow> err + int" where
  "derefBig x = (case x of None \<Rightarrow> Inl (Panic ''nil pointer'') | Some n \<Rightarrow> Inr n)"

text \<open>The used times of the last \<open>n\<close> blocks down from \<open>h\<close>.\<close>

fun sumUsedTime :: "('d, 't, 's, 'z) sys_scheme \<Rightarrow> 't \<Rightarrow> u64 \<Rightarrow> nat \<Rightarrow> err + u64" where
  "sumUsedTime S t h 0 = Inr 0"
| "sumUsedTime S t h (Suc n) =
     bindE (getBlockByHeight_tx S t h) (\<lambda>tmp. bindE (sumUsedTime S t (h - 1) n) (\<lambda>r. Inr (UsedTime tmp + r)))"

definition updateDifficulty :: "('d, 't, 's, 'z) sys_scheme \<Rightarrow> 't \<Rightarrow> u64 \<Rightarrow> err + int option" where
  "updateDifficulty S t ht =
     bindE (getMaxBlockHeight_tx S t) (\<lambda>h.
     bindE (getBlockByHeight_tx S t h) (\<lambda>b.
       if Height b \<noteq> ht then Inl (Err ''height error'')
       else if ht \<noteq> 1 \<and> ht mod 10 = 1 then
         bindE (sumUsedTime S t ht 10) (\<lambda>subTime.
         bindE (derefBig (GlobalDifficulty b)) (\<lambda>gd.
         Inr (Some (CompactToBig (CalcNextGlobalRequiredDifficulty 0 subTime (BigToCompact gd))))))
       else Inr (GlobalDifficulty b)))"

text \<open>
  Inside a longer computation a call that does not return is encoded as \<open>Inl no_return\<close>. This is not an error
  of the code: no branch that logs an error and goes on takes it, no roll back is run on it, so it is the last
  step of every computation that it is part of. An operation whose value is \<open>Inl no_return\<close> is one that does
  not return, and a theorem that an operation returns states that its value is another one.
\<close>

abbreviation no_return :: err where "no_return \<equiv> Panic ''does not return''"

text \<open>
  \<open>diffhash.Hash\<close>. The search for a prime below it has no bound; a run of it that does not return is
  \<open>no_return\<close>.
\<close>

definition workHash :: "('z) env_scheme \<Rightarrow> (int \<Rightarrow> bool) \<Rightarrow> bytes \<Rightarrow> err + bytes" where
  "workHash E probablyPrime dat =
     (case diffhash_Hash E probablyPrime dat of None \<Rightarrow> Inl no_return | Some r \<Rightarrow> r)"

definition txSnapRoot :: "('d, 't, 's, 'z) sys_scheme \<Rightarrow> 't \<Rightarrow> err + chash" where
  "txSnapRoot S t =
     (case bg_get (KV S) t SnapRootKey of
        Inl e \<Rightarrow> if e = NotExist then Inr (replicate 32 0) else Inl e
      | Inr sr \<Rightarrow> Inr (BytesToHash S sr))"

definition difficultDetection :: "('d, 't, 's, 'z) sys_scheme \<Rightarrow> (int \<Rightarrow> bool) \<Rightarrow> 'd \<Rightarrow> 't \<Rightarrow> Block \<Rightarrow> err + unit" where
  "difficultDetection S probablyPrime d t b =
     bindE (updateDifficulty S t (Height b - 1)) (\<lambda>g.
     bindE (derefBig g) (\<lambda>gd.
     bindE (derefBig (GlobalDifficulty b)) (\<lambda>bgd.
     if BigToCompact gd \<noteq> BigToCompact bgd then Inl (Err ''inconsistent global difficulty'')
     else bindE (txSnapRoot S t) (\<lambda>root.
     bindE (state_New (SD S) root d) (\<lambda>stdb.
     bindE (getBasePledge S t) (\<lambda>basePledge.
     bindE (NextMinerDifficulty gd 0 basePledge) (\<lambda>minerTarget.
     bindE (derefBig (Difficulty b)) (\<lambda>diff.
     if BigToCompact minerTarget \<noteq> BigToCompact diff then Inl (Err ''inconsistent miner difficulty'')
     else bindE (workHash S probablyPrime (MinerHash S b)) (\<lambda>h.
     if diff \<le> HashToBig h then Inl (Err ''incorrect difficulty'') else Inr ())))))))))"

fun checkGasAll :: "FinishedTransaction list \<Rightarrow> err + unit" where
  "checkGasAll [] = Inr ()"
| "checkGasAll (tx # txs) =
     (if IsCoinBaseTransaction tx then checkGasAll txs
      else bindE (checkGas (GasLimit tx) (GasPrice tx)) (\<lambda>_. checkGasAll txs))"

definition checkBlockRegular :: "('d, 't, 's, 'z) sys_scheme \<Rightarrow> (int \<Rightarrow> bool) \<Rightarrow> 'd \<Rightarrow> 't \<Rightarrow> Block \<Rightarrow> err + unit" where
  "checkBlockRegular S probablyPrime d t b =
     (if 101 < length (Transactions b) then Inl (Err ''Too many transactions'')
      else bindE (difficultDetection S probablyPrime d t b) (\<lambda>_. checkGasAll (Transactions b)))"

definition CheckBlockRegular :: "('d, 't, 's, 'z) sys_scheme \<Rightarrow> (int \<Rightarrow> bool) \<Rightarrow> ('d, 's) chain \<Rightarrow> Block \<Rightarrow> err + unit" where
  "CheckBlockRegular S probablyPrime c b = checkBlockRegular S probablyPrime (db c) (kv_new (KV S) (db c)) b"

definition DifficultDetection :: "('d, 't, 's, 'z) sys_scheme \<Rightarrow> (int \<Rightarrow> bool) \<Rightarrow> ('d, 's) chain \<Rightarrow> Block \<Rightarrow> err + unit" where
  "DifficultDetection S probablyPrime c b = difficultDetection S probablyPrime (db c) (kv_new (KV S) (db c)) b"

section \<open>New blocks\<close>

definition finish_tx :: "u64 \<Rightarrow> SignedTransaction \<Rightarrow> FinishedTransaction" where
  "finish_tx ht tx = SignedTransaction.extend tx (FinishedTransaction.fields 0 ht)"

definition NewBlock :: "('d, 't, 's, 'z) sys_scheme \<Rightarrow> ('d, 's) chain \<Rightarrow> SignedTransaction list \<Rightarrow> addr \<Rightarrow> err + Block" where
  "NewBlock S c txs minaddr =
     bindE (getMaxBlockHeight S (db c)) (\<lambda>prevHeight.
     let ht = prevHeight + 1 in
     bindE (if InitHeight < ht then getHash S (db c) prevHeight else Inr (replicate 32 0)) (\<lambda>prevHash.
     bindE (distr S txs minaddr ht) (\<lambda>txs.
     bindE (GetMtHash (New (sha256 S) (map (SignedTransaction_MarshalCBOR S) txs))) (\<lambda>root.
     bindE (getSnapRoot S (db c)) (\<lambda>snapRoot.
     Inr \<lparr>Height = ht, PrevHash = prevHash, Hash = [], Transactions = map (finish_tx ht) txs, Root = root,
          SnapRoot = snapRoot, b_Version = 1, Timestamp = word_of_int (now S), UsedTime = 0, Miner = minaddr,
          Difficulty = Some 0, GlobalDifficulty = Some 0, b_Nonce = 1, b_GasLimit = CfgGasLimit (ChainCfg c),
          b_GasUsed = sum_list (map (\<lambda>tx. GasLimit tx * GasPrice tx) txs)\<rparr>)))))"

section \<open>Uncle blocks\<close>

text \<open>A failing commit is only logged.\<close>

definition AddUncleBlock :: "('d, 't, 's, 'z) sys_scheme \<Rightarrow> Block \<Rightarrow> (('d, 's) chain, unit) M" where
  "AddUncleBlock S block = (\<lambda>c.
     case Serialize S block of Inl e \<Rightarrow> (Inl e, c) | Inr dat \<Rightarrow>
     (case bg_set (KV S) (Hash block) dat (kv_new (KV S) (db c)) of
        (Inl e, t) \<Rightarrow> (Inl e, c)
      | (Inr u, t) \<Rightarrow> (Inr (), c\<lparr>db := snd (kv_commit (KV S) t (db c))\<rparr>)))"

definition DeleteUncleBlock :: "('d, 't, 's, 'z) sys_scheme \<Rightarrow> Block \<Rightarrow> (('d, 's) chain, unit) M" where
  "DeleteUncleBlock S block = (\<lambda>c.
     case bg_del (KV S) (Hash block) (kv_new (KV S) (db c)) of
        (Inl e, t) \<Rightarrow> (Inl e, c)
      | (Inr u, t) \<Rightarrow> (Inr (), c\<lparr>db := snd (kv_commit (KV S) t (db c))\<rparr>))"

section \<open>Removing blocks\<close>

definition bc_pKey :: "bytes \<Rightarrow> bytes" where "bc_pKey tid = str ''p'' @ str ''/'' @ tid"

definition delTokenKey :: "('d, 't, 's, 'z) sys_scheme \<Rightarrow> bytes \<Rightarrow> ('t, unit) M" where
  "delTokenKey S tokenId = thenM (bg_del (KV S) tokenId) (bg_del (KV S) (bc_pKey tokenId))"

text \<open>\<open>strings.Split\<close> at the double quotes.\<close>

fun split_quote :: "bytes \<Rightarrow> bytes list" where
  "split_quote [] = [[]]"
| "split_quote (c # cs) = (if c = 34 then [] # split_quote cs else (c # hd (split_quote cs)) # tl (split_quote cs))"

definition delToken :: "('d, 't, 's, 'z) sys_scheme \<Rightarrow> bytes \<Rightarrow> ('t, unit) M" where
  "delToken S inp =
     (let spilt = split_quote inp in
      if spilt ! 0 = str ''new '' then
        (if length spilt < 2 then raiseM (Panic ''index out of range'') else delTokenKey S (spilt ! 1))
      else retM ())"

definition delete_tx :: "('d, 't, 's, 'z) sys_scheme \<Rightarrow> nat \<Rightarrow> FinishedTransaction \<Rightarrow> ('t, unit) M" where
  "delete_tx S i tx =
     (if IsCoinBaseTransaction tx then deleteTxbyaddrKV S (To tx) tx (word_of_nat i)
      else if IsPledgeTrasnaction tx \<or> IsPledgeBreakTransaction tx then deleteTxbyaddrKV S (From tx) tx (word_of_nat i)
      else if IsEvmContractTransaction tx then deleteTxbyaddrKV S (From tx) tx (word_of_nat i)
      else thenM (delToken S (Input tx))
          (thenM (deleteTxbyaddrKV S (From tx) tx (word_of_nat i)) (deleteTxbyaddrKV S (To tx) tx (word_of_nat i))))"

fun delete_txs :: "('d, 't, 's, 'z) sys_scheme \<Rightarrow> nat \<Rightarrow> FinishedTransaction list \<Rightarrow> ('t, unit) M" where
  "delete_txs S i [] = retM ()"
| "delete_txs S i (tx # txs) = thenM (delete_tx S i tx) (delete_txs S (Suc i) txs)"

text \<open>
  One round of \<open>DeleteBlock\<close> up to its commit, in a transaction of its own: the deletions, which return the
  state root of the height below, and the two writes whose errors are dropped.
\<close>

definition DeleteBlock_clear :: "('d, 't, 's, 'z) sys_scheme \<Rightarrow> u64 \<Rightarrow> (('d, 't, 's) Chain.run, bytes) M" where
  "DeleteBlock_clear S dH =
     bindM (readM (\<lambda>r. getBlockByHeight S (db (r_chain r)) dH)) (\<lambda>block.
     thenM (onTx (delete_txs S 0 (Transactions block)))
    (bindM (readM (\<lambda>r. bg_get (KV S) (r_tx r) (snapKeyOf (Height block - 1)))) (\<lambda>sn.
     thenM (onTx (bg_del (KV S) (snapKeyOf (Height block))))
    (thenM (onTx (bg_del (KV S) (heightKeyOf (Height block))))
    (thenM (onTx (bg_del (KV S) (Hash block)))
    (bindM (readM (\<lambda>r. getBlockByHeight S (db (r_chain r)) (dH - 1))) (\<lambda>prev.
     thenM (onChain (modM (SetBlockInfo (Height prev) (Timestamp prev) (commonOrZero S (Miner prev)) (Difficulty prev))))
    (retM sn))))))))"

definition DeleteBlock_step :: "('d, 't, 's, 'z) sys_scheme \<Rightarrow> u64 \<Rightarrow> (('d, 't, 's) Chain.run, unit) M" where
  "DeleteBlock_step S dH =
     bindM (DeleteBlock_clear S dH) (\<lambda>sn.
     thenM (onTx (ignoreM (bg_set (KV S) SnapRootKey sn)))
    (thenM (onTx (ignoreM (bg_set (KV S) HeightKey (E64func (dH - 1)))))
           (commitTx S)))"

text \<open>The database took these two writes in the round that removes the block of height \<open>dH\<close> from \<open>c\<close>.\<close>

definition DeleteBlock_noted :: "('d, 't, 's, 'z) sys_scheme \<Rightarrow> u64 \<Rightarrow> ('d, 's) chain \<Rightarrow> bool" where
  "DeleteBlock_noted S dH c =
     (case DeleteBlock_clear S dH \<lparr>r_chain = c, r_tx = kv_new (KV S) (db c), r_block = zeroBlock\<rparr> of
        (Inl _, _) \<Rightarrow> True
      | (Inr sn, r) \<Rightarrow> accepts S SnapRootKey sn r \<and>
          accepts S HeightKey (E64func (dH - 1)) (snd (onTx (ignoreM (bg_set (KV S) SnapRootKey sn)) r)))"

text \<open>
  The loops run from the height \<open>dH\<close> of the database down over \<open>n\<close> blocks. At height 0, which only a call
  with height 0 reaches, the round fails, so that \<open>n\<close> is the number of blocks down to the given height.
\<close>

fun DeleteBlock_loop :: "('d, 't, 's, 'z) sys_scheme \<Rightarrow> nat \<Rightarrow> u64 \<Rightarrow> (('d, 's) chain, unit) M" where
  "DeleteBlock_loop S 0 dH = retM ()"
| "DeleteBlock_loop S (Suc n) dH =
     thenM (\<lambda>c. case DeleteBlock_step S dH \<lparr>r_chain = c, r_tx = kv_new (KV S) (db c), r_block = zeroBlock\<rparr> of (x, r) \<Rightarrow> (x, r_chain r))
           (DeleteBlock_loop S n (dH - 1))"

definition DeleteBlock :: "('d, 't, 's, 'z) sys_scheme \<Rightarrow> u64 \<Rightarrow> (('d, 's) chain, unit) M" where
  "DeleteBlock S ht =
     bindM (readM (\<lambda>c. getMaxBlockHeight S (db c))) (\<lambda>dbHeight.
     if dbHeight < ht then retM ()
     else thenM (DeleteBlock_loop S (unat dbHeight - unat ht + 1) dbHeight)
         (bindM (readM (\<lambda>c. getSnapRoot S (db c))) (\<lambda>root. rollState S root)))"

text \<open>\<open>DeleteTempBlockTest\<close> works in the caller's transaction and keeps the blocks under their hashes.\<close>

definition DeleteTempBlock_step :: "('d, 't, 's, 'z) sys_scheme \<Rightarrow> u64 \<Rightarrow> (('d, 't, 's) Chain.run, unit) M" where
  "DeleteTempBlock_step S dH =
     bindM (readM (\<lambda>r. getBlockByHeight S (db (r_chain r)) dH)) (\<lambda>block.
     thenM (onTx (delete_txs S 0 (Transactions block)))
    (bindM (readM (\<lambda>r. bg_get (KV S) (r_tx r) (snapKeyOf (Height block - 1)))) (\<lambda>sn.
     thenM (onTx (bg_del (KV S) (snapKeyOf (Height block))))
    (thenM (onTx (bg_del (KV S) (heightKeyOf (Height block))))
    (thenM (onTx (ignoreM (bg_set (KV S) SnapRootKey sn)))
    (thenM (onTx (ignoreM (bg_set (KV S) HeightKey (E64func (dH - 1)))))
    (bindM (readM (\<lambda>r. getBlockByHeight S (db (r_chain r)) (dH - 1))) (\<lambda>prev.
     bindM (liftE (NewCommonAddr S (Miner prev))) (\<lambda>previousMiner.
     onChain (modM (SetBlockInfo (Height prev) (Timestamp prev) previousMiner (Difficulty prev))))))))))))"

fun DeleteTempBlock_loop :: "('d, 't, 's, 'z) sys_scheme \<Rightarrow> nat \<Rightarrow> u64 \<Rightarrow> (('d, 't, 's) Chain.run, unit) M" where
  "DeleteTempBlock_loop S 0 dH = retM ()"
| "DeleteTempBlock_loop S (Suc n) dH = thenM (DeleteTempBlock_step S dH) (DeleteTempBlock_loop S n (dH - 1))"

definition DeleteTempBlockTest :: "('d, 't, 's, 'z) sys_scheme \<Rightarrow> u64 \<Rightarrow> (('d, 't, 's) Chain.run, unit) M" where
  "DeleteTempBlockTest S ht =
     bindM (readM (\<lambda>r. getMaxBlockHeight S (db (r_chain r)))) (\<lambda>dbHeight.
     thenM (failIf (dbHeight < ht) (Err ''Wrong height to delete''))
    (thenM (DeleteTempBlock_loop S (unat dbHeight - unat ht + 1) dbHeight)
    (bindM (readM (\<lambda>r. bg_get (KV S) (r_tx r) SnapRootKey)) (\<lambda>root.
     onChain (rollState S (BytesToHash S root))))))"

section \<open>Reorganisation\<close>

text \<open>The blocks of the branch are connected from the last hash of the list to the first.\<close>

fun Reorganize_loop :: "('d, 't, 's, 'z) sys_scheme \<Rightarrow> (int \<Rightarrow> bool) \<Rightarrow> bytes list \<Rightarrow> (('d, 't, 's) Chain.run, unit) M" where
  "Reorganize_loop S probablyPrime [] = retM ()"
| "Reorganize_loop S probablyPrime (h # hs) =
     bindM (readM (\<lambda>r. getBlockByHash S (db (r_chain r)) h)) (\<lambda>block.
     bindM (readM (\<lambda>r. checkBlockRegular S probablyPrime (db (r_chain r)) (r_tx r) block)) (\<lambda>_.
     thenM (modM (\<lambda>r. r\<lparr>r_block := block\<rparr>))
    (thenM (AddTempBlock S block) (Reorganize_loop S probablyPrime hs))))"

definition Reorganize_body :: "('d, 't, 's, 'z) sys_scheme \<Rightarrow> (int \<Rightarrow> bool) \<Rightarrow> bytes list \<Rightarrow> u64 \<Rightarrow> (('d, 't, 's) Chain.run, unit) M" where
  "Reorganize_body S probablyPrime hashs delHeight =
     thenM (DeleteTempBlockTest S delHeight)
    (thenM (Reorganize_loop S probablyPrime (rev hashs)) (commitTx S))"

definition ReorganizeChain :: "('d, 't, 's, 'z) sys_scheme \<Rightarrow> (int \<Rightarrow> bool) \<Rightarrow> bytes list \<Rightarrow> u64 \<Rightarrow> (('d, 's) chain, unit) M" where
  "ReorganizeChain S probablyPrime hashs delHeight = (\<lambda>c.
     case getSnapRoot S (db c) of
       Inl e \<Rightarrow> (Inl e, c)
     | Inr rollroot \<Rightarrow>
        (case Reorganize_body S probablyPrime hashs delHeight \<lparr>r_chain = c, r_tx = kv_new (KV S) (db c), r_block = zeroBlock\<rparr> of
           (Inr _, r) \<Rightarrow> (Inr (), r_chain r)
         | (Inl e, r) \<Rightarrow> (Inl e, if is_panic e then r_chain r else snd (rollState S rollroot (r_chain r)))))"

section \<open>Removing the last block\<close>

text \<open>
  The entries that the removal of a transaction deletes: the transaction under its hash and in the lists
  of its accounts, and what the code takes for the entries of a token when the input begins like a script
  for a new one.
\<close>

definition token_entries :: "bytes \<Rightarrow> bytes list" where
  "token_entries inp =
     (let spilt = split_quote inp in if spilt ! 0 = str ''new '' then [spilt ! 1, bc_pKey (spilt ! 1)] else [])"

definition addr_entries :: "('z) env_scheme \<Rightarrow> FinishedTransaction \<Rightarrow> addr \<Rightarrow> bytes list" where
  "addr_entries E tx a = [eMapKey a (Transaction_Hash E tx), Transaction_Hash E tx]"

definition tx_entries :: "('z) env_scheme \<Rightarrow> FinishedTransaction \<Rightarrow> bytes list" where
  "tx_entries E tx =
     (if IsCoinBaseTransaction tx then addr_entries E tx (To tx)
      else if IsPledgeTrasnaction tx \<or> IsPledgeBreakTransaction tx \<or> IsEvmContractTransaction tx then addr_entries E tx (From tx)
      else token_entries (Input tx) @ addr_entries E tx (From tx) @ addr_entries E tx (To tx))"

definition block_entries :: "('z) env_scheme \<Rightarrow> Block \<Rightarrow> bytes set" where
  "block_entries E b =
     insert (snapKeyOf (Height b)) (insert (heightKeyOf (Height b)) (insert (Hash b)
       (\<Union>tx\<in>set (Transactions b). set (tx_entries E tx))))"

lemma split_quote_ne [simp]: "split_quote cs \<noteq> []"
  by (cases cs) auto

context chain_sys
begin

text \<open>What a transaction that was opened on \<open>d\<close> reads when the keys of \<open>K\<close> are deleted in it and no other key is written.\<close>

definition cleared :: "'d \<Rightarrow> bytes set \<Rightarrow> 't \<Rightarrow> bool" where
  "cleared d K t \<longleftrightarrow> tracks d t \<and> (\<forall>k. bg_get (KV S) t k = (if k \<in> K then Inl NotExist else bgStore_Get (KV S) d k))"

lemma cleared_new: "cleared d {} (kv_new (KV S) d)"
  by (simp add: cleared_def tracks_new bgStore_Get_def)

lemma cleared_get: "cleared d K t \<Longrightarrow> bg_get (KV S) t k = (if k \<in> K then Inl NotExist else bgStore_Get (KV S) d k)"
  by (simp add: cleared_def)

lemma cleared_del: "cleared d K t \<Longrightarrow> bg_del (KV S) k t = (Inr u, t') \<Longrightarrow> cleared d (insert k K) t'"
  using tracks_del [of d t k] plain.Del_ok [of k t] by (auto simp: cleared_def)

lemma cleared_addr:
  "cleared d K t \<Longrightarrow> deleteTxbyaddrKV S a tx i t = (Inr u, t') \<Longrightarrow> cleared d (set (addr_entries S tx a) \<union> K) t'"
proof -
  assume c: "cleared d K t" and "deleteTxbyaddrKV S a tx i t = (Inr u, t')"
  then obtain u1 t1 where d: "bg_del (KV S) (eMapKey a (Transaction_Hash S tx)) t = (Inr u1, t1)"
    "bg_del (KV S) (Transaction_Hash S tx) t1 = (Inr u, t')"
    unfolding deleteTxbyaddrKV_def bg_mdel_def thenM_ok by blast
  from cleared_del [OF cleared_del [OF c d(1)] d(2)] show ?thesis by (simp add: addr_entries_def insert_commute)
qed

lemma cleared_token:
  "cleared d K t \<Longrightarrow> delToken S inp t = (Inr u, t') \<Longrightarrow> cleared d (set (token_entries inp) \<union> K) t'"
proof (cases "split_quote inp ! 0 = str ''new ''")
  case True
  assume c: "cleared d K t" and "delToken S inp t = (Inr u, t')"
  with True obtain u1 t1 where d: "bg_del (KV S) (split_quote inp ! 1) t = (Inr u1, t1)"
    "bg_del (KV S) (bc_pKey (split_quote inp ! 1)) t1 = (Inr u, t')"
    by (auto simp: delToken_def delTokenKey_def Let_def thenM_ok raiseM_ok split: if_splits)
  from cleared_del [OF cleared_del [OF c d(1)] d(2)] True show ?thesis by (simp add: token_entries_def Let_def insert_commute)
qed (simp add: delToken_def token_entries_def retM_ok)

lemma cleared_tx:
  assumes "cleared d K t" and "delete_tx S i tx t = (Inr (), t')"
  shows "cleared d (set (tx_entries S tx) \<union> K) t'"
proof (cases "IsCoinBaseTransaction tx \<or> IsPledgeTrasnaction tx \<or> IsPledgeBreakTransaction tx \<or> IsEvmContractTransaction tx")
  case True
  then show ?thesis
    using assms cleared_addr by (auto simp: delete_tx_def tx_entries_def split: if_splits)
next
  case False
  then obtain t1 t2 u1 u2 where "delToken S (Input tx) t = (Inr u1, t1)"
    "deleteTxbyaddrKV S (From tx) tx (word_of_nat i) t1 = (Inr u2, t2)" "deleteTxbyaddrKV S (To tx) tx (word_of_nat i) t2 = (Inr (), t')"
    using assms(2) by (auto simp: delete_tx_def monad_ok)
  from cleared_addr [OF cleared_addr [OF cleared_token [OF assms(1) this(1)] this(2)] this(3)] False
  show ?thesis by (simp add: tx_entries_def Un_ac)
qed

lemma cleared_txs:
  "cleared d K t \<Longrightarrow> delete_txs S i txs t = (Inr (), t') \<Longrightarrow> cleared d ((\<Union>tx\<in>set txs. set (tx_entries S tx)) \<union> K) t'"
proof (induction txs arbitrary: i t K)
  case Nil
  then show ?case by (simp add: monad_ok)
next
  case (Cons tx txs)
  then obtain t1 where "delete_tx S i tx t = (Inr (), t1)" "delete_txs S (Suc i) txs t1 = (Inr (), t')"
    by (auto simp: monad_ok)
  from Cons.IH [OF cleared_tx [OF Cons.prems(1) this(1)] this(2)] show ?case by (simp add: Un_ac)
qed

lemma onTx_ok: "onTx m r = (Inr u, r') \<longleftrightarrow> (\<exists>t. m (r_tx r) = (Inr u, t) \<and> r' = r\<lparr>r_tx := t\<rparr>)"
  by (simp add: onTx_def monad_ok)

text \<open>The deletions of one round, exactly.\<close>

lemma DeleteBlock_clear_ok:
  assumes "DeleteBlock_clear S dH \<lparr>r_chain = c, r_tx = kv_new (KV S) (db c), r_block = zeroBlock\<rparr> = (Inr sn, r)"
  obtains b where "getBlockByHeight S (db c) dH = Inr b" "bgStore_Get (KV S) (db c) (snapKeyOf (Height b - 1)) = Inr sn"
    "cleared (db c) (block_entries S b) (r_tx r)" "db (r_chain r) = db c" "sdb (r_chain r) = sdb c"
proof -
  obtain b t1 t2 t3 t4 u2 u3 u4 and prev :: Block where b: "getBlockByHeight S (db c) dH = Inr b"
    and t1: "delete_txs S 0 (Transactions b) (kv_new (KV S) (db c)) = (Inr (), t1)"
    and sn: "bg_get (KV S) t1 (snapKeyOf (Height b - 1)) = Inr sn"
    and t: "bg_del (KV S) (snapKeyOf (Height b)) t1 = (Inr u2, t2)" "bg_del (KV S) (heightKeyOf (Height b)) t2 = (Inr u3, t3)"
      "bg_del (KV S) (Hash b) t3 = (Inr u4, t4)"
    and r: "r = \<lparr>r_chain = SetBlockInfo (Height prev) (Timestamp prev) (commonOrZero S (Miner prev)) (Difficulty prev) c,
      r_tx = t4, r_block = zeroBlock\<rparr>"
    using assms by (auto simp: DeleteBlock_clear_def onTx_ok onChain_def bindM_ok thenM_ok readM_ok retM_ok zoomM_ok modM_ok)
  have c1: "cleared (db c) (\<Union>tx\<in>set (Transactions b). set (tx_entries S tx)) t1"
    using cleared_txs [OF cleared_new t1] by simp
  from cleared_del [OF cleared_del [OF cleared_del [OF c1 t(1)] t(2)] t(3)]
  have "cleared (db c) (block_entries S b) t4" by (simp add: block_entries_def insert_commute)
  moreover have "bgStore_Get (KV S) (db c) (snapKeyOf (Height b - 1)) = Inr sn"
    using sn cleared_get [OF c1] by (simp split: if_splits)
  ultimately show thesis using that b by (simp add: r SetBlockInfo_def)
qed

text \<open>
  One round, committed: every entry of the block is gone, the two entries that are written anew are what they
  should be if the database took the writes, and nothing else has changed.
\<close>

lemma DeleteBlock_step_ok:
  assumes "DeleteBlock_step S dH \<lparr>r_chain = c, r_tx = kv_new (KV S) (db c), r_block = zeroBlock\<rparr> = (Inr (), r)"
  obtains b sn where "getBlockByHeight S (db c) dH = Inr b" "bgStore_Get (KV S) (db c) (snapKeyOf (Height b - 1)) = Inr sn"
    "\<forall>k. k \<notin> {SnapRootKey, HeightKey} \<longrightarrow> bgStore_Get (KV S) (db (r_chain r)) k =
      (if k \<in> block_entries S b then Inl NotExist else bgStore_Get (KV S) (db c) k)"
    "DeleteBlock_noted S dH c \<longrightarrow> bgStore_Get (KV S) (db (r_chain r)) SnapRootKey = Inr sn \<and>
      bgStore_Get (KV S) (db (r_chain r)) HeightKey = Inr (E64func (dH - 1))"
proof -
  obtain sn r1 r2 r3 u2 u3 where cl: "DeleteBlock_clear S dH \<lparr>r_chain = c, r_tx = kv_new (KV S) (db c), r_block = zeroBlock\<rparr> = (Inr sn, r1)"
    and i2: "onTx (ignoreM (bg_set (KV S) SnapRootKey sn)) r1 = (Inr u2, r2)"
    and i3: "onTx (ignoreM (bg_set (KV S) HeightKey (E64func (dH - 1)))) r2 = (Inr u3, r3)" and com: "commitTx S r3 = (Inr (), r)"
    using assms unfolding DeleteBlock_step_def bindM_ok thenM_ok by (elim exE conjE) (rule that)
  obtain b where b: "getBlockByHeight S (db c) dH = Inr b" "bgStore_Get (KV S) (db c) (snapKeyOf (Height b - 1)) = Inr sn"
    "cleared (db c) (block_entries S b) (r_tx r1)" "db (r_chain r1) = db c"
    using DeleteBlock_clear_ok [OF cl] .
  note i2' = onTx_ignored [OF i2] and i3' = onTx_ignored [OF i3]
  have "tracks (db c) (r_tx r3)" using b(3) i2'(5) i3'(5) by (simp add: cleared_def)
  moreover have "db (r_chain r3) = db c" using i2'(1) i3'(1) b(4) by simp
  ultimately have get: "bgStore_Get (KV S) (db (r_chain r)) = bg_get (KV S) (r_tx r3)"
    using com tracks_commit by (auto simp: commitTx_def onChain_def monad_ok)
  show thesis
  proof (rule that [OF b(1,2)]; intro allI impI)
    fix k assume "k \<notin> {SnapRootKey, HeightKey}"
    then show "bgStore_Get (KV S) (db (r_chain r)) k = (if k \<in> block_entries S b then Inl NotExist else bgStore_Get (KV S) (db c) k)"
      using i2'(3) i3'(3) cleared_get [OF b(3)] by (simp add: get)
  next
    assume "DeleteBlock_noted S dH c"
    then have "accepts S SnapRootKey sn r1" "accepts S HeightKey (E64func (dH - 1)) r2"
      using cl i2 by (simp_all add: DeleteBlock_noted_def)
    then show "bgStore_Get (KV S) (db (r_chain r)) SnapRootKey = Inr sn \<and> bgStore_Get (KV S) (db (r_chain r)) HeightKey = Inr (E64func (dH - 1))"
      using i2'(6) i3'(6) by (simp add: get)
  qed
qed

lemma DeleteBlock_tip:
  assumes "DeleteBlock S h c = (Inr (), c')" and "getMaxBlockHeight S (db c) = Inr h"
    and "getBlockByHeight S (db c) h = Inr b" and "Height b = h"
  obtains sn where "bgStore_Get (KV S) (db c) (snapKeyOf (h - 1)) = Inr sn"
    "\<forall>k. k \<notin> {SnapRootKey, HeightKey} \<longrightarrow> bgStore_Get (KV S) (db c') k =
      (if k \<in> block_entries S b then Inl NotExist else bgStore_Get (KV S) (db c) k)"
    "DeleteBlock_noted S h c \<longrightarrow> bgStore_Get (KV S) (db c') SnapRootKey = Inr sn \<and>
      bgStore_Get (KV S) (db c') HeightKey = Inr (E64func (h - 1)) \<and> state_New (SD S) (BytesToHash S sn) (db c') = Inr (sdb c')"
proof -
  obtain r rt where r: "DeleteBlock_step S h \<lparr>r_chain = c, r_tx = kv_new (KV S) (db c), r_block = zeroBlock\<rparr> = (Inr (), r)"
    "getSnapRoot S (db (r_chain r)) = Inr rt" "rollState S rt (r_chain r) = (Inr (), c')"
    using assms(1,2) by (auto simp: DeleteBlock_def bindM_ok thenM_ok readM_ok retM_ok split: prod.splits)
  have db: "db c' = db (r_chain r)" "state_New (SD S) rt (db (r_chain r)) = Inr (sdb c')"
    using r(3) by (auto simp: rollState_def monad_ok updateNewStateByRoot_def NewEvm_def)
  obtain b' sn where s: "getBlockByHeight S (db c) h = Inr b'" "bgStore_Get (KV S) (db c) (snapKeyOf (Height b' - 1)) = Inr sn"
    "\<forall>k. k \<notin> {SnapRootKey, HeightKey} \<longrightarrow> bgStore_Get (KV S) (db (r_chain r)) k =
      (if k \<in> block_entries S b' then Inl NotExist else bgStore_Get (KV S) (db c) k)"
    "DeleteBlock_noted S h c \<longrightarrow> bgStore_Get (KV S) (db (r_chain r)) SnapRootKey = Inr sn \<and>
      bgStore_Get (KV S) (db (r_chain r)) HeightKey = Inr (E64func (h - 1))"
    using DeleteBlock_step_ok [OF r(1)] .
  have "b' = b" using s(1) assms(3) by simp
  moreover have "rt = BytesToHash S sn" if "bgStore_Get (KV S) (db (r_chain r)) SnapRootKey = Inr sn"
    using r(2) that by (simp add: getSnapRoot_def)
  ultimately show thesis
    using s(2-4) assms(4) db by (intro that [of sn]) auto
qed

end

section \<open>Properties\<close>

lemma short_get: "length k < 32 \<Longrightarrow> bgStore_Get (KV S) d k = the (short_view S d k)"
  by (simp add: short_view_def)

text \<open>
  C11. Deleting the last block removes exactly its entries. On a chain of height \<open>h\<close> whose last block carries
  that height, a successful \<open>DeleteBlock h\<close> deletes the hash and the state root of height \<open>h\<close>, the block under
  its hash, and the entries of its transactions: by hash, under the addresses of sender and receiver (of a
  coinbase only the receiver, of pledges and contracts only the sender) and those named by a token script;
  the height of the chain and the current state root are those of the height below, and the state is loaded
  from that root, the database having taken the two writes whose errors are dropped; every other key of the
  database, of whatever length, reads as before.
\<close>

theorem DeleteBlock_removes_tip:
  assumes "chain_sys S pending" and "DeleteBlock_noted S h c" and "getMaxBlockHeight S (db c) = Inr h"
    and "getBlockByHeight S (db c) h = Inr b" and "Height b = h" and "DeleteBlock S h c = (Inr (), c')"
  shows "\<exists>sn. bgStore_Get (KV S) (db c) (snapKeyOf (h - 1)) = Inr sn \<and>
    getMaxBlockHeight S (db c') = Inr (h - 1) \<and> state_New (SD S) (BytesToHash S sn) (db c') = Inr (sdb c') \<and>
    (\<forall>k. bgStore_Get (KV S) (db c') k =
       (if k = SnapRootKey then Inr sn else if k = HeightKey then Inr (E64func (h - 1))
        else if k \<in> {snapKeyOf h, heightKeyOf h, Hash b} \<or> (\<exists>tx\<in>set (Transactions b). k \<in> set (tx_entries S tx)) then Inl NotExist
        else bgStore_Get (KV S) (db c) k))"
proof -
  obtain sn where sn: "bgStore_Get (KV S) (db c) (snapKeyOf (h - 1)) = Inr sn"
    "\<forall>k. k \<notin> {SnapRootKey, HeightKey} \<longrightarrow> bgStore_Get (KV S) (db c') k =
      (if k \<in> block_entries S b then Inl NotExist else bgStore_Get (KV S) (db c) k)"
    "DeleteBlock_noted S h c \<longrightarrow> bgStore_Get (KV S) (db c') SnapRootKey = Inr sn \<and>
      bgStore_Get (KV S) (db c') HeightKey = Inr (E64func (h - 1)) \<and> state_New (SD S) (BytesToHash S sn) (db c') = Inr (sdb c')"
    using chain_sys.DeleteBlock_tip [OF assms(1,6,3-5)] .
  show ?thesis
    using sn(1,3) assms(2) sn(2) [unfolded block_entries_def assms(5)]
    by (intro exI [of _ sn]) (simp add: getMaxBlockHeight_def)
qed


definition demo_prev :: Block where
  "demo_prev = demo_block\<lparr>Height := 60350422, Hash := replicate 32 5, Transactions := []\<rparr>"

definition demo_deep :: "(memdb, memstate) chain" where
  "demo_deep = demo_chain\<lparr>db := [(HeightKey, E64func 60350422), (SnapRootKey, replicate 32 6), (snapKeyOf 60350422, replicate 32 6),
     (heightKeyOf 60350422, replicate 32 5), (replicate 32 5, projr (Serialize demo_sys demo_prev))]\<rparr>"

lemma demo_ser:
  assumes "b = demo_block\<lparr>Transactions := [], Height := h, Hash := replicate 32 k, SnapRoot := x, b_GasUsed := g\<rparr>"
    and "length x < 2 ^ 64"
  shows "\<exists>dat. Serialize demo_sys b = Inr dat \<and> Deserialize demo_sys dat = Inr b"
proof -
  have "length (big_Bytes 1000) \<le> 2" "length (big_Bytes 0) \<le> 2"
    by (rule length_big_Bytes; simp)+
  then have "block_wf b" using assms by (auto simp: block_wf_def demo_block_def valid_addr_def Protocol_def sigtype_defs)
  then show ?thesis by (rule demo_cbor.block_rt)
qed


lemma demo_index_keys: "heightKeyOf h \<noteq> []" "snapKeyOf h \<noteq> []" "HeightKey \<noteq> []" "SnapRootKey \<noteq> []"
  "heightKeyOf h \<noteq> replicate 32 x" "snapKeyOf h \<noteq> replicate 32 x" "HeightKey \<noteq> replicate 32 x" "SnapRootKey \<noteq> replicate 32 x"
  by (auto dest: arg_cong [where f = length])


definition demo_added_db :: "bytes \<Rightarrow> memdb" where
  "demo_added_db dat = [(HeightKey, E64func 60350423), (SnapRootKey, pad_block 32 (replicate 20 1 @ E64func 9000000)),
     (snapKeyOf 60350422, replicate 32 6), (heightKeyOf 60350422, replicate 32 5),
     (replicate 32 5, projr (Serialize demo_sys demo_prev)), (heightKeyOf 60350423, replicate 32 1), (replicate 32 1, dat),
     (snapKeyOf 60350423, pad_block 32 (replicate 20 1 @ E64func 9000000))]"

definition demo_settled :: Block where
  "demo_settled = demo_next\<lparr>SnapRoot := pad_block 32 (replicate 20 1 @ E64func 9000000), b_GasUsed := 0\<rparr>"

lemma demo_next_simps [simp]: "Height demo_next = 60350423" "Transactions demo_next = []" "Hash demo_next = replicate 32 1"
  by (simp_all add: demo_next_def demo_block_def)

lemma demo_add:
  assumes "Serialize demo_sys demo_settled = Inr dat"
  shows "\<exists>c'. AddBlock demo_sys (demo_deep, demo_next) = (Inr (), (c', demo_settled)) \<and> db c' = demo_added_db dat"
proof -
  have h: "getMaxBlockHeight demo_sys (db demo_deep) = Inr 60350422"
    by (simp add: demo_deep_def getMaxBlockHeight_def bgStore_Get_def bg_get_def mem_kv_def mem_get_def)
  have root: "getSnapRoot demo_sys (db demo_deep) = Inr (replicate 32 6)"
    by (simp add: demo_deep_def getSnapRoot_def bgStore_Get_def bg_get_def mem_kv_def mem_get_def ErrKeyNotFound_def demo_env_def)
  have "snapKeyOf 60350422 \<noteq> snapKeyOf 60350423" "(replicate 32 5 :: bytes) \<noteq> replicate 32 1" by (simp_all add: snapKeyOf_def replicate_eq_replicate)
  then show ?thesis
    using h root assms demo_index_keys demo_index_keys(5-8) [symmetric]
    by (simp add: demo_deep_def AddBlock_def AddBlock_body_def AddBlock_open_def AddBlock_fill_def monad_simps InitHeight_def Let_def onTx_def onChain_def
        factCommit_def setSnapRoot_def storeBlock_def commitTx_def bg_set_def mem_kv_def mem_set_def mem_commit_def
        mem_sdb_def SetBlockInfo_def NewEvm_def demo_chain_def demo_added_db_def demo_settled_def)
qed

lemma demo_get: "bgStore_Get mem_kv d k = (case map_of d k of None \<Rightarrow> Inl NotExist | Some v \<Rightarrow> Inr v)"
  by (simp add: bgStore_Get_def bg_get_def mem_kv_def mem_get_def split: option.splits)

lemma demo_prev_stored: "Deserialize demo_sys (projr (Serialize demo_sys demo_prev)) = Inr demo_prev"
proof -
  have "demo_prev = demo_block\<lparr>Transactions := [], Height := 60350422, Hash := replicate 32 5, SnapRoot := replicate 32 4, b_GasUsed := 0\<rparr>"
    by (simp add: demo_prev_def demo_block_def)
  from demo_ser [OF this] show ?thesis by auto
qed

lemma demo_settled_stored: "\<exists>dat. Serialize demo_sys demo_settled = Inr dat \<and> Deserialize demo_sys dat = Inr demo_settled"
  by (rule demo_ser [where h = 60350423 and k = 1 and x = "pad_block 32 (replicate 20 1 @ E64func 9000000)" and g = 0])
    (simp_all add: demo_settled_def demo_next_def demo_block_def)

lemma demo_delete:
  assumes "Deserialize demo_sys dat = Inr demo_settled" and "db c = demo_added_db dat"
  shows "getBlockByHeight demo_sys (db c) 60350423 = Inr demo_settled"
    and "getMaxBlockHeight demo_sys (db c) = Inr 60350423"
    and "\<exists>c'. DeleteBlock demo_sys 60350423 c = (Inr (), c')"
proof -
  have h: "getMaxBlockHeight demo_sys (db c) = Inr 60350423"
    using assms(2) by (simp add: demo_added_db_def getMaxBlockHeight_def demo_get)
  have ne: "snapKeyOf 60350422 \<noteq> snapKeyOf 60350423" "(replicate 32 5 :: bytes) \<noteq> replicate 32 1"
      "heightKeyOf 60350422 \<noteq> heightKeyOf 60350423"
     by (simp_all add: snapKeyOf_def heightKeyOf_def replicate_eq_replicate)
  note ks = demo_index_keys demo_index_keys(5-8) [symmetric] ne
  have b: "getBlockByHeight demo_sys (db c) 60350423 = Inr demo_settled"
    using assms ks ks(13) [symmetric] by (simp add: getBlockByHeight_def demo_added_db_def demo_get monad_simps)
  have p: "getBlockByHeight demo_sys (db c) 60350422 = Inr demo_prev"
    using assms(2) ks ks(13) [symmetric] demo_prev_stored by (simp add: getBlockByHeight_def demo_added_db_def demo_get monad_simps)
  have "Height demo_settled = 60350423" "Transactions demo_settled = []" "Hash demo_settled = replicate 32 1"
    by (simp_all add: demo_settled_def)
  then have "\<exists>c'. DeleteBlock demo_sys 60350423 c = (Inr (), c')"
    using h b p ks assms(2) unfolding demo_added_db_def
    by (simp add: DeleteBlock_def DeleteBlock_step_def DeleteBlock_clear_def monad_simps onTx_def onChain_def commitTx_def bg_set_def bg_get_def
        bg_del_def mem_kv_def mem_set_def mem_commit_def mem_get_def mem_delete_def mem_sdb_def SetBlockInfo_def NewEvm_def
        rollState_def updateNewStateByRoot_def getSnapRoot_def bgStore_Get_def)
  then show "getBlockByHeight demo_sys (db c) 60350423 = Inr demo_settled" "getMaxBlockHeight demo_sys (db c) = Inr 60350423"
    "\<exists>c'. DeleteBlock demo_sys 60350423 c = (Inr (), c')" using h b by blast+
qed

lemma demo_cycle:
  "\<exists>c1 c2. AddBlock demo_sys (demo_deep, demo_next) = (Inr (), (c1, demo_settled)) \<and>
     DeleteBlock demo_sys 60350423 c1 = (Inr (), c2) \<and>
     getBlockByHeight demo_sys (db c1) 60350423 = Inr demo_settled \<and> getMaxBlockHeight demo_sys (db c1) = Inr 60350423"
  using demo_settled_stored demo_add demo_delete by metis

lemma demo_settled_simps [simp]:
  "Height demo_settled = 60350423" "Transactions demo_settled = []" "Hash demo_settled = replicate 32 1"
  by (simp_all add: demo_settled_def)

lemma demo_delete_noted: "DeleteBlock_noted demo_sys h c"
  using demo_index_keys by (simp add: DeleteBlock_noted_def demo_accepts split: prod.splits sum.splits)

theorem DeleteBlock_removes_tip_witness:
  "\<exists>c1 c2. DeleteBlock demo_sys 60350423 c1 = (Inr (), c2) \<and> getMaxBlockHeight demo_sys (db c2) = Inr (60350423 - 1) \<and>
     bgStore_Get (KV demo_sys) (db c2) (heightKeyOf 60350423) = Inl NotExist \<and>
     bgStore_Get (KV demo_sys) (db c2) (replicate 32 1) = Inl NotExist"
proof -
  obtain c1 c2 where c: "DeleteBlock demo_sys 60350423 c1 = (Inr (), c2)" "getMaxBlockHeight demo_sys (db c1) = Inr 60350423"
    "getBlockByHeight demo_sys (db c1) 60350423 = Inr demo_settled"
    using demo_cycle by blast
  from DeleteBlock_removes_tip [OF demo_chain_sys.chain_sys_axioms demo_delete_noted c(2,3) demo_settled_simps(1) c(1)] c(1)
  show ?thesis using demo_index_keys(7,8) [of 1, symmetric] by (intro exI [of _ c1] exI [of _ c2]) auto
qed


section \<open>A failing reorganisation\<close>

context chain_sys
begin

lemma AddTempBlock_view: "keepsM (\<lambda>r. short_view S (db (r_chain r))) (AddTempBlock S b)"
  unfolding AddTempBlock_def Let_def
  by (intro keepsM_bind keepsM_then keepsM_if db_frames body_parts_view)

lemma SetBlockInfo_view: "keepsM (\<lambda>r. short_view S (db (r_chain r))) (onChain (modM (SetBlockInfo h t m d)))"
  by (rule keepsM_onChain [where g = "\<lambda>c. short_view S (db c)"], rule keepsM_mod) (simp add: SetBlockInfo_def)

lemma rollState_view: "keepsM (\<lambda>r. short_view S (db (r_chain r))) (onChain (rollState S rollroot))"
  by (rule keepsM_onChain [where g = "\<lambda>c. short_view S (db c)"], rule keepsM_I) (metis rollState_db snd_conv)

lemma DeleteTempBlock_view: "keepsM (\<lambda>r. short_view S (db (r_chain r))) (DeleteTempBlock_loop S n dH)"
proof (induction n arbitrary: dH)
  case (Suc n)
  have "keepsM (\<lambda>r. short_view S (db (r_chain r))) (DeleteTempBlock_step S dH)"
    unfolding DeleteTempBlock_step_def by (intro keepsM_bind keepsM_then db_frames SetBlockInfo_view)
  then show ?case using Suc by (auto intro: keepsM_then)
qed (auto intro: keepsM_ret)

lemma DeleteTempBlockTest_view: "keepsM (\<lambda>r. short_view S (db (r_chain r))) (DeleteTempBlockTest S ht)"
  unfolding DeleteTempBlockTest_def
  by (intro keepsM_bind keepsM_then db_frames DeleteTempBlock_view rollState_view)

lemma Reorganize_loop_view: "keepsM (\<lambda>r. short_view S (db (r_chain r))) (Reorganize_loop S pp hs)"
proof (induction hs)
  case (Cons h hs)
  show ?case
    unfolding Reorganize_loop.simps
    by (intro keepsM_bind keepsM_then db_frames AddTempBlock_view Cons keepsM_mod) simp
qed (auto intro: keepsM_ret)

lemma Reorganize_body_fail: "failKeeps (\<lambda>r. short_view S (db (r_chain r))) (Reorganize_body S pp hs ht)"
  unfolding Reorganize_body_def
  by (intro failKeeps_then failKeeps_commit DeleteTempBlockTest_view Reorganize_loop_view)

lemma ReorganizeChain_err:
  assumes "ReorganizeChain S pp hs ht c = (Inl e, c')"
  shows "short_view S (db c') = short_view S (db c)"
    and "\<not> is_panic e \<Longrightarrow> getSnapRoot S (db c) = Inr rt \<Longrightarrow> state_New (SD S) rt (db c') = Inr s \<Longrightarrow> sdb c' = s"
proof -
  let ?r0 = "\<lparr>r_chain = c, r_tx = kv_new (KV S) (db c), r_block = zeroBlock\<rparr>"
  obtain x r where x: "Reorganize_body S pp hs ht ?r0 = (x, r)" by (metis surj_pair)
  have c: "case getSnapRoot S (db c) of Inl _ \<Rightarrow> c' = c | Inr rt \<Rightarrow> x = Inl e \<and>
      c' = (if is_panic e then r_chain r else snd (rollState S rt (r_chain r)))"
    using assms x by (auto simp: ReorganizeChain_def split: sum.splits)
  have v: "x = Inl e \<Longrightarrow> short_view S (db (r_chain r)) = short_view S (db c)"
    using Reorganize_body_fail [of pp hs ht] x by (fastforce simp: failKeeps_def)
  show "short_view S (db c') = short_view S (db c)"
    using c v by (auto simp: rollState_db split: sum.splits)
  show "\<not> is_panic e \<Longrightarrow> getSnapRoot S (db c) = Inr rt \<Longrightarrow> state_New (SD S) rt (db c') = Inr s \<Longrightarrow> sdb c' = s"
    using c by (auto simp: rollState_db) (simp add: rollState_def monad_simps updateNewStateByRoot_def NewEvm_def)
qed

end

text \<open>
  C12. A failing reorganisation keeps the old chain. Whatever the error, after however many blocks were
  taken off and put on, every entry of the index reads as before, and unless the code panicked the
  account state is the one loaded from the old state root.
\<close>

theorem ReorganizeChain_failure_keeps_chain:
  assumes "chain_sys S pending" and "ReorganizeChain S probablyPrime hashs delHeight c = (Inl e, c')"
  shows "(\<forall>k. length k < 32 \<longrightarrow> bgStore_Get (KV S) (db c') k = bgStore_Get (KV S) (db c) k) \<and>
    (\<forall>rt s. \<not> is_panic e \<longrightarrow> getSnapRoot S (db c) = Inr rt \<longrightarrow> state_New (SD S) rt (db c') = Inr s \<longrightarrow> sdb c' = s)"
  using chain_sys.ReorganizeChain_err [OF assms] by (simp add: short_get)

theorem ReorganizeChain_failure_keeps_chain_witness:
  "\<exists>c'. ReorganizeChain demo_sys (\<lambda>n. False) [replicate 32 5] 60350423 demo_deep = (Inl (Err ''Wrong height to delete''), c') \<and>
     sdb c' = ([], []) \<and> bgStore_Get (KV demo_sys) (db c') HeightKey = Inr (E64func 60350422)"
proof -
  have h: "getMaxBlockHeight demo_sys (db demo_deep) = Inr 60350422" 
    by (simp add: demo_deep_def getMaxBlockHeight_def demo_get)
  have root: "getSnapRoot demo_sys (db demo_deep) = Inr (replicate 32 6)"
    by (simp add: demo_deep_def getSnapRoot_def demo_get demo_env_def)
  obtain c' where run: "ReorganizeChain demo_sys (\<lambda>n. False) [replicate 32 5] 60350423 demo_deep = (Inl (Err ''Wrong height to delete''), c')"
    using h root by (simp add: ReorganizeChain_def Reorganize_body_def DeleteTempBlockTest_def monad_simps)
  have "state_New (SD demo_sys) (replicate 32 6) (db c') = Inr ([], [])" by (simp add: mem_sdb_def)
  then show ?thesis
    using ReorganizeChain_failure_keeps_chain [OF demo_chain_sys.chain_sys_axioms run] run root
    by (auto simp: demo_deep_def demo_get)
qed

section \<open>The inputs of removed transactions\<close>

lemma split_quote_first: "34 \<notin> set xs \<Longrightarrow> split_quote (xs @ 34 # ys) = xs # split_quote ys"
  by (induction xs) auto

lemma split_quote_token:
  assumes "34 \<notin> set k"
  shows "split_quote (str ''new '' @ 34 # k @ 34 # ys) = str ''new '' # k # split_quote ys"
proof -
  have "34 \<notin> set (str ''new '')" by (simp add: str_def)
  from split_quote_first [OF this, of "k @ 34 # ys"] split_quote_first [OF assms, of ys] show ?thesis by simp
qed


text \<open>A transfer that names the index entry of an older block.\<close>

definition demo_eraser :: FinishedTransaction where
  "demo_eraser = demo_tx\<lparr>Input := str ''new '' @ 34 # heightKeyOf 60350421 @ 34 # []\<rparr>"

definition demo_trap :: Block where
  "demo_trap = demo_block\<lparr>Transactions := [demo_eraser]\<rparr>"

definition demo_trapped :: "bytes \<Rightarrow> (memdb, memstate) chain" where
  "demo_trapped dat = demo_chain\<lparr>db := [(HeightKey, E64func 60350423), (snapKeyOf 60350422, replicate 32 6),
     (heightKeyOf 60350421, replicate 32 8), (heightKeyOf 60350422, replicate 32 5), (heightKeyOf 60350423, replicate 32 1),
     (replicate 32 5, projr (Serialize demo_sys demo_prev)), (replicate 32 1, dat)]\<rparr>"

lemma demo_trap_stored: "\<exists>dat. Serialize demo_sys demo_trap = Inr dat \<and> Deserialize demo_sys dat = Inr demo_trap"
proof -
  have "length (big_Bytes 1000) \<le> 2" "length (big_Bytes 0) \<le> 2"
    by (rule length_big_Bytes; simp)+
  then have "block_wf demo_trap"
    by (simp add: block_wf_def demo_trap_def demo_block_def demo_eraser_def tx_wf_def sig_wf_def demo_tx_def valid_addr_def Protocol_def
        sigtype_defs)
  then show ?thesis by (rule demo_cbor.block_rt)
qed

lemma demo_heights: "heightKeyOf 60350422 \<noteq> heightKeyOf 60350421" "heightKeyOf 60350423 \<noteq> heightKeyOf 60350421"
  "heightKeyOf 60350423 \<noteq> heightKeyOf 60350422" "34 \<notin> set (heightKeyOf 60350421)"
  by (simp_all add: heightKeyOf_def) code_simp

lemma demo_trapped_gets:
  assumes "Deserialize demo_sys dat = Inr demo_trap"
  shows "getMaxBlockHeight demo_sys (db (demo_trapped dat)) = Inr 60350423"
    "getBlockByHeight demo_sys (db (demo_trapped dat)) 60350423 = Inr demo_trap"
    "getBlockByHeight demo_sys (db (demo_trapped dat)) 60350422 = Inr demo_prev"
    "bgStore_Get (KV demo_sys) (db (demo_trapped dat)) (heightKeyOf 60350421) = Inr (replicate 32 8)"
    "bgStore_Get (KV demo_sys) (db (demo_trapped dat)) (snapKeyOf 60350422) = Inr (replicate 32 6)"
proof -
  have ne: "(replicate 32 5 :: bytes) \<noteq> replicate 32 1" by (simp add: replicate_eq_replicate)
  note ks = demo_index_keys demo_index_keys(5-8) [symmetric] demo_heights demo_heights(1-3) [symmetric] ne ne [symmetric]
  show "getMaxBlockHeight demo_sys (db (demo_trapped dat)) = Inr 60350423"
    "getBlockByHeight demo_sys (db (demo_trapped dat)) 60350423 = Inr demo_trap"
    "getBlockByHeight demo_sys (db (demo_trapped dat)) 60350422 = Inr demo_prev"
    "bgStore_Get (KV demo_sys) (db (demo_trapped dat)) (heightKeyOf 60350421) = Inr (replicate 32 8)"
    "bgStore_Get (KV demo_sys) (db (demo_trapped dat)) (snapKeyOf 60350422) = Inr (replicate 32 6)"
    using ks assms demo_prev_stored by (simp_all add: demo_trapped_def getMaxBlockHeight_def getBlockByHeight_def demo_get monad_simps)
qed

lemma demo_del: "k \<noteq> [] \<Longrightarrow> \<exists>t'. bg_del (KV demo_sys) k t = (Inr (), t')"
  by (simp add: bg_del_def mem_kv_def mem_delete_def)

lemma demo_eraser_entries: "set (tx_entries demo_sys demo_eraser) \<subseteq> {heightKeyOf 60350421} \<union> {k. length k \<noteq> 17}"
  using split_quote_token [OF demo_heights(4), of "[]"]
  by (auto simp: tx_entries_def demo_eraser_def demo_tx_def is_tx_defs txtype_defs token_entries_def addr_entries_def
      Transaction_Hash_def bc_pKey_def demo_chain_sys.hash_length [simplified])

lemma demo_erase:
  assumes "Deserialize demo_sys dat = Inr demo_trap"
  shows "\<exists>c'. DeleteBlock demo_sys 60350423 (demo_trapped dat) = (Inr (), c')"
proof -
  let ?c = "demo_trapped dat" and ?t0 = "kv_new (KV demo_sys) (db (demo_trapped dat))"
  note g = demo_trapped_gets [OF assms]
  have h: "Height demo_trap = 60350423" "Hash demo_trap = replicate 32 1" "Transactions demo_trap = [demo_eraser]"
    by (simp_all add: demo_trap_def demo_block_def)
  have e: "Type demo_eraser = TransferTransaction" "Input demo_eraser = str ''new '' @ 34 # heightKeyOf 60350421 @ 34 # []"
    by (simp_all add: demo_eraser_def demo_tx_def)
  have "eMapKey m k \<noteq> []" "bc_pKey k \<noteq> []" "Transaction_Hash demo_sys demo_eraser \<noteq> []" for m k
    by (auto simp: bc_pKey_def Transaction_Hash_def dest: arg_cong [where f = length])
  then obtain t1 where t1: "delete_txs demo_sys 0 (Transactions demo_trap) ?t0 = (Inr (), t1)"
    using e split_quote_token [OF demo_heights(4), of "[]"] demo_index_keys(1) h(3)
    by (simp add: delete_tx_def is_tx_defs txtype_defs delToken_def delTokenKey_def deleteTxbyaddrKV_def bg_mdel_def bg_del_def
        monad_simps mem_kv_def mem_delete_def)
  have "bg_get (KV demo_sys) t1 (snapKeyOf 60350422) = Inr (replicate 32 6)"
    using demo_chain_sys.cleared_get [OF demo_chain_sys.cleared_txs [OF demo_chain_sys.cleared_new t1]] g(5) h(3) demo_eraser_entries
    by auto
  then obtain r where step: "DeleteBlock_step demo_sys 60350423 \<lparr>r_chain = ?c, r_tx = ?t0, r_block = zeroBlock\<rparr> = (Inr (), r)"
    using t1 g h demo_index_keys by (simp add: DeleteBlock_step_def DeleteBlock_clear_def monad_simps onTx_def onChain_def commitTx_def
      bg_set_def bg_del_def mem_kv_def mem_set_def mem_commit_def mem_delete_def SetBlockInfo_def del: delete_txs.simps)
  obtain sn where "DeleteBlock_noted demo_sys 60350423 ?c \<longrightarrow> bgStore_Get (KV demo_sys) (db (r_chain r)) SnapRootKey = Inr sn \<and>
      bgStore_Get (KV demo_sys) (db (r_chain r)) HeightKey = Inr (E64func (60350423 - 1))"
    using demo_chain_sys.DeleteBlock_step_ok [OF step] .
  then have "getSnapRoot demo_sys (db (r_chain r)) = Inr (BytesToHash demo_sys sn)"
    using demo_delete_noted by (simp add: getSnapRoot_def)
  then show ?thesis
    using g(1) step by (simp add: DeleteBlock_def monad_simps rollState_def updateNewStateByRoot_def NewEvm_def mem_sdb_def)
qed


text \<open>An input that begins like a token script and holds no quote stops the program.\<close>

lemma removal_panics_without_quote:
  "Type tx = TransferTransaction \<Longrightarrow> Input tx = str ''new '' \<Longrightarrow>
   delete_tx S i tx t = (Inl (Panic ''index out of range''), t)"
proof -
  have "split_quote (str ''new '') = [str ''new '']" by (simp add: str_def)
  then show "Type tx = TransferTransaction \<Longrightarrow> Input tx = str ''new '' \<Longrightarrow> delete_tx S i tx t = (Inl (Panic ''index out of range''), t)"
    by (simp add: delete_tx_def is_tx_defs txtype_defs delToken_def monad_simps)
qed

text \<open>The product of gas limit and price is taken modulo two to the 64 before it is compared.\<close>

lemma gas_check_wraps: "checkGas 0x4000000000200B20 4 = Inr () \<and> 2 ^ 64 < unat (0x4000000000200B20 :: u64) * 4"
  by (simp add: checkGas_def MINGASLIMIT_def MAXGASLIMIT_def)

text \<open>A new block sits on the tip, with the root of its transactions and the current state root.\<close>

lemma NewBlock_on_tip:
  assumes "NewBlock S c txs minaddr = Inr b"
  shows "getMaxBlockHeight S (db c) = Inr (Height b - 1)" and "InitHeight < Height b \<Longrightarrow> getHash S (db c) (Height b - 1) = Inr (PrevHash b)"
    and "getSnapRoot S (db c) = Inr (SnapRoot b)" and "Miner b = minaddr"
    and "GetMtHash (New (sha256 S) (map (SignedTransaction_MarshalCBOR S) (map SignedTransaction.truncate (Transactions b)))) = Inr (Root b)"
proof -
  have [simp]: "SignedTransaction.truncate (finish_tx h tx) = tx" for h and tx :: SignedTransaction
    by (simp add: finish_tx_def SignedTransaction.defs FinishedTransaction.defs)
  from assms show "getMaxBlockHeight S (db c) = Inr (Height b - 1)" "InitHeight < Height b \<Longrightarrow> getHash S (db c) (Height b - 1) = Inr (PrevHash b)"
    "getSnapRoot S (db c) = Inr (SnapRoot b)" "Miner b = minaddr"
    "GetMtHash (New (sha256 S) (map (SignedTransaction_MarshalCBOR S) (map SignedTransaction.truncate (Transactions b)))) = Inr (Root b)"
    by (auto simp: NewBlock_def bindE_def Let_def o_def split: sum.splits if_splits)
qed

end
