(* ===== verification/Consensus.thy ===== *)
theory Consensus
  imports Reorg
begin

text \<open>
  The choice of the chain (\<open>pkg/consensus\<close>): the pool of orphan blocks, the search for the point where
  two branches meet, the acceptance of a block on the tip or beside it, and \<open>ProcessBlock\<close>, through which
  every block of the miner and of the network enters the node.
\<close>

section \<open>The state\<close>

record OrphanBlock =
  o_Block :: Block
  Expiration :: int

text \<open>The field \<open>BlockHeader\<close> of the code is never used.\<close>

record ('d, 's) consensus =
  Bc :: "('d, 's) chain"
  Oranphs :: "chash \<rightharpoonup> OrphanBlock"
  PrevOrphans :: "chash \<rightharpoonup> OrphanBlock list"
  oldestOrphan :: "OrphanBlock option"

definition consensus_New :: "('d, 's) chain \<Rightarrow> ('d, 's) consensus" where
  "consensus_New bc = \<lparr>Bc = bc, Oranphs = Map.empty, PrevOrphans = Map.empty, oldestOrphan = None\<rparr>"

text \<open>A hash of any other length than 32 becomes the zero hash.\<close>

definition HashSize :: nat where "HashSize = 32"

definition orphan_key :: "bytes \<Rightarrow> chash" where
  "orphan_key inp = (if length inp \<noteq> HashSize then replicate HashSize 0 else inp)"

definition MaxEqealBlockWeight :: nat where "MaxEqealBlockWeight = 10"

text \<open>Calls whose error is logged and answered with a boolean; a panic still ends the run.\<close>

definition attempt :: "('st, 'a) M \<Rightarrow> ('st, 'a option) M" where
  "attempt m = (\<lambda>s. case m s of
     (Inl e, s') \<Rightarrow> if is_panic e then (Inl e, s') else (Inr None, s')
   | (Inr a, s') \<Rightarrow> (Inr (Some a), s'))"

text \<open>A loop that does not return, inside a longer computation.\<close>

definition runE :: "'a Classgroup.run \<Rightarrow> err + 'a" where
  "runE r = (case r of None \<Rightarrow> Inl no_return | Some x \<Rightarrow> x)"

definition BlockExists :: "('d, 't, 's, 'z) sys_scheme \<Rightarrow> bytes \<Rightarrow> (('d, 's) chain, bool) M" where
  "BlockExists S hash = bindM (attempt (readM (\<lambda>c. getBlockByHash S (db c) hash))) (\<lambda>x. retM (x \<noteq> None))"

section \<open>Orphan blocks\<close>

definition OrphanBlockIsExist :: "('d, 's) consensus \<Rightarrow> bytes \<Rightarrow> Block option" where
  "OrphanBlockIsExist st hash = map_option o_Block (Oranphs st (orphan_key hash))"

definition prevOf :: "('d, 's) consensus \<Rightarrow> chash \<Rightarrow> OrphanBlock list" where
  "prevOf st p = (case PrevOrphans st p of None \<Rightarrow> [] | Some os \<Rightarrow> os)"

abbreviation hashOf :: "OrphanBlock \<Rightarrow> chash" where "hashOf orphan \<equiv> orphan_key (Hash (o_Block orphan))"
abbreviation parentOf :: "OrphanBlock \<Rightarrow> chash" where "parentOf orphan \<equiv> orphan_key (PrevHash (o_Block orphan))"

definition removeOrphanBlock :: "OrphanBlock \<Rightarrow> ('d, 's) consensus \<Rightarrow> ('d, 's) consensus" where
  "removeOrphanBlock orphan st =
     (let orphanHash = hashOf orphan; prevhash = parentOf orphan;
          orphans = filter (\<lambda>o1. orphanHash \<noteq> hashOf o1) (prevOf st prevhash)
      in st\<lparr>Oranphs := (Oranphs st)(orphanHash := None),
            PrevOrphans := (PrevOrphans st)(prevhash := if orphans = [] then None else Some orphans)\<rparr>)"

definition hour :: int where "hour = 3600000000000"

text \<open>
  \<open>AddOrphanBlock\<close> ranges over a map, in an order that Go does not fix: \<open>order\<close> holds its keys. The clock
  is read once.
\<close>

fun expireOrphans :: "int \<Rightarrow> chash list \<Rightarrow> ('d, 's) consensus \<Rightarrow> ('d, 's) consensus" where
  "expireOrphans nw [] st = st"
| "expireOrphans nw (k # ks) st =
     (case Oranphs st k of
        None \<Rightarrow> expireOrphans nw ks st
      | Some orphan \<Rightarrow>
         if Expiration orphan < nw then expireOrphans nw ks (removeOrphanBlock orphan st)
         else if (case oldestOrphan st of None \<Rightarrow> True | Some old \<Rightarrow> Expiration orphan < Expiration old)
         then expireOrphans nw ks (st\<lparr>oldestOrphan := Some orphan\<rparr>)
         else expireOrphans nw ks st)"

definition AddOrphanBlock :: "int \<Rightarrow> chash list \<Rightarrow> Block \<Rightarrow> ('d, 's) consensus \<Rightarrow> ('d, 's) consensus" where
  "AddOrphanBlock nw order block st =
     (let hash = orphan_key (Hash block); prevhash = orphan_key (PrevHash block);
          oBlock = \<lparr>o_Block = block, Expiration = nw + hour\<rparr>;
          st = expireOrphans nw order st
      in if Oranphs st hash \<noteq> None then st
         else st\<lparr>Oranphs := (Oranphs st)(hash \<mapsto> oBlock),
                 PrevOrphans := (PrevOrphans st)(prevhash \<mapsto> prevOf st prevhash @ [oBlock])\<rparr>)"

section \<open>The point where two branches meet\<close>

text \<open>
  Both walks go down one block at a time, until they meet or a block is missing. \<open>get\<close> is the lookup by
  hash of the chain.
\<close>

partial_function (option) FindBranchPoint_loop ::
    "(bytes \<Rightarrow> err + Block) \<Rightarrow> bytes \<Rightarrow> bytes \<Rightarrow> bytes list \<Rightarrow> u64 \<Rightarrow> (bytes list \<times> u64) Classgroup.run" where
  "FindBranchPoint_loop get mainhash branchchainhash hashs ht =
     (if mainhash = branchchainhash then Some (Inr (hashs, ht))
      else case get mainhash of Inl e \<Rightarrow> Some (Inl e) | Inr mblock \<Rightarrow>
      (case get branchchainhash of Inl e \<Rightarrow> Some (Inl e) | Inr bblock \<Rightarrow>
       FindBranchPoint_loop get (PrevHash mblock) (PrevHash bblock) (hashs @ [branchchainhash]) (Height bblock)))"

definition FindBranchPoint :: "('d, 't, 's, 'z) sys_scheme \<Rightarrow> 'd \<Rightarrow> bytes \<Rightarrow> bytes \<Rightarrow> (bytes list \<times> u64) Classgroup.run" where
  "FindBranchPoint S d prevhash tiphash = FindBranchPoint_loop (getBlockByHash S d) tiphash prevhash [] 0"

section \<open>Acceptance\<close>

text \<open>The pair says whether the block was taken and whether it is on the main chain.\<close>

definition easier :: "Block \<Rightarrow> Block \<Rightarrow> err + bool" where
  "easier tipblock b =
     bindE (derefBig (GlobalDifficulty tipblock)) (\<lambda>x. bindE (derefBig (GlobalDifficulty b)) (\<lambda>y. Inr (x < y)))"

definition extendTip :: "('d, 't, 's, 'z) sys_scheme \<Rightarrow> (int \<Rightarrow> bool) \<Rightarrow> Block \<Rightarrow> Block \<Rightarrow> (('d, 's) chain, bool \<times> bool) M" where
  "extendTip S probablyPrime tipblock b =
     bindM (if Height b mod 10 \<noteq> 2 \<and> InitHeight + 1 < Height b then liftE (easier tipblock b) else retM False) (\<lambda>easy.
     if easy then retM (False, False)
     else bindM (if Height b \<noteq> 1 then attempt (readM (\<lambda>c. CheckBlockRegular S probablyPrime c b)) else retM (Some ())) (\<lambda>x.
     if x = None then retM (False, False)
     else bindM (attempt (\<lambda>c. case AddBlock S (c, b) of (y, (c', b')) \<Rightarrow> (y, c'))) (\<lambda>y.
     retM (y \<noteq> None, y \<noteq> None))))"

definition reorganise :: "('d, 't, 's, 'z) sys_scheme \<Rightarrow> (int \<Rightarrow> bool) \<Rightarrow> Block \<Rightarrow> Block \<Rightarrow> Block \<Rightarrow> (('d, 's) chain, bool \<times> bool) M" where
  "reorganise S probablyPrime tipblock parent b =
     bindM (attempt (AddUncleBlock S b)) (\<lambda>x.
     if x = None then retM (False, False)
     else bindM (attempt (readM (\<lambda>c. runE (FindBranchPoint S (db c) (Hash parent) (Hash tipblock))))) (\<lambda>y.
     case y of
       None \<Rightarrow> retM (False, False)
     | Some (branchhash, delHeight) \<Rightarrow>
        bindM (attempt (ReorganizeChain S probablyPrime (Hash b # branchhash) delHeight)) (\<lambda>z.
        if z = None then thenM (attempt (DeleteUncleBlock S b)) (retM (False, False)) else retM (True, True))))"

definition maybeAcceptBlock :: "('d, 't, 's, 'z) sys_scheme \<Rightarrow> (int \<Rightarrow> bool) \<Rightarrow> Block \<Rightarrow> (('d, 's) chain, bool \<times> bool) M" where
  "maybeAcceptBlock S probablyPrime b =
     bindM (attempt (readM (\<lambda>c. Tip S (db c)))) (\<lambda>x.
     case x of
       None \<Rightarrow> retM (False, False)
     | Some tipblock \<Rightarrow>
        if PrevHash b = Hash tipblock then extendTip S probablyPrime tipblock b
        else bindM (attempt (readM (\<lambda>c. getBlockByHash S (db c) (PrevHash b)))) (\<lambda>y.
          case y of
            None \<Rightarrow> retM (False, False)
          | Some parent \<Rightarrow>
             if Height parent = Height tipblock then reorganise S probablyPrime tipblock parent b
             else if Height parent < Height tipblock then
               bindM (attempt (AddUncleBlock S b)) (\<lambda>z. retM (z \<noteq> None, False))
             else retM (False, False)))"

text \<open>
  \<open>ProcessOrphan\<close>. The queue starts with the hash of the block and nine zero hashes. The first orphan of
  the list of a hash is taken until the list is empty; then the next hash is taken from the queue. When the
  acceptance of an orphan does not return, neither does the loop.
\<close>

partial_function (option) ProcessOrphan_loop ::
    "('d, 't, 's, 'z) sys_scheme \<Rightarrow> (int \<Rightarrow> bool) \<Rightarrow> chash list \<Rightarrow> bool \<Rightarrow> ('d, 's) consensus \<Rightarrow> ((err + bool) \<times> ('d, 's) consensus) option" where
  "ProcessOrphan_loop S probablyPrime prevhashs main st =
     (case prevhashs of
        [] \<Rightarrow> Some (Inr main, st)
      | prevhash # ps \<Rightarrow>
         (case prevOf st prevhash of
            [] \<Rightarrow> ProcessOrphan_loop S probablyPrime ps main st
          | orphan # _ \<Rightarrow>
             let st = removeOrphanBlock orphan st in
             case maybeAcceptBlock S probablyPrime (o_Block orphan) (Bc st) of
               (Inl e, c) \<Rightarrow> if e = no_return then None else Some (Inl e, st\<lparr>Bc := c\<rparr>)
             | (Inr (ok, main'), c) \<Rightarrow>
                if \<not> ok then Some (Inr main', st\<lparr>Bc := c\<rparr>)
                else ProcessOrphan_loop S probablyPrime (prevhashs @ [hashOf orphan]) main' (st\<lparr>Bc := c\<rparr>)))"

definition ProcessOrphan ::
    "('d, 't, 's, 'z) sys_scheme \<Rightarrow> (int \<Rightarrow> bool) \<Rightarrow> Block \<Rightarrow> ('d, 's) consensus \<Rightarrow> ((err + bool) \<times> ('d, 's) consensus) option" where
  "ProcessOrphan S probablyPrime block =
     ProcessOrphan_loop S probablyPrime (orphan_key (Hash block) # replicate (MaxEqealBlockWeight - 1) (replicate HashSize 0)) False"

definition onBc :: "(('d, 's) chain, 'a) M \<Rightarrow> (('d, 's) consensus, 'a) M" where
  "onBc = zoomM Bc (\<lambda>c. Bc_update (\<lambda>_. c))"

definition connectBlock ::
    "('d, 't, 's, 'z) sys_scheme \<Rightarrow> (int \<Rightarrow> bool) \<Rightarrow> Block \<Rightarrow> (('d, 's) consensus, bool) M" where
  "connectBlock S probablyPrime newblock =
     bindM (onBc (maybeAcceptBlock S probablyPrime newblock)) (\<lambda>(succ, mainChain).
     if \<not> succ then retM False
     else bindM (\<lambda>st. case ProcessOrphan S probablyPrime newblock st of
                        None \<Rightarrow> (Inl no_return, st) | Some r \<Rightarrow> r)
          (\<lambda>ok. retM (ok \<or> mainChain)))"

definition ProcessBlock ::
    "('d, 't, 's, 'z) sys_scheme \<Rightarrow> (int \<Rightarrow> bool) \<Rightarrow> int \<Rightarrow> chash list \<Rightarrow> Block \<Rightarrow> (('d, 's) consensus, bool) M" where
  "ProcessBlock S probablyPrime nw order newblock =
     bindM (onBc (BlockExists S (Hash newblock))) (\<lambda>known.
     if known then retM False
     else bindM (readM (\<lambda>st. Inr (Oranphs st (orphan_key (Hash newblock)) \<noteq> None))) (\<lambda>orphan.
     if orphan then retM False
     else bindM (onBc (attempt (readM (\<lambda>c. getMaxBlockHeight S (db c))))) (\<lambda>maxHeight.
     if maxHeight = None then retM False
     else if maxHeight = Some InitHeight then
       bindM (onBc (attempt (\<lambda>c. case AddBlock S (c, newblock) of (y, (c', b')) \<Rightarrow> (y, c')))) (\<lambda>y. retM (y \<noteq> None))
     else bindM (onBc (BlockExists S (PrevHash newblock))) (\<lambda>prev.
     if \<not> prev then thenM (modM (AddOrphanBlock nw order newblock)) (retM False)
     else connectBlock S probablyPrime newblock))))"

text \<open>\<open>CheckNonce\<close> records the next nonce before it compares.\<close>

definition CheckNonce :: "(addr \<Rightarrow> err + u64) \<Rightarrow> addr \<Rightarrow> u64 \<Rightarrow> (addr \<rightharpoonup> u64) \<Rightarrow> bool \<times> (addr \<rightharpoonup> u64)" where
  "CheckNonce getN from txNonce nonceMp =
     (case (case nonceMp from of Some n \<Rightarrow> Inr n | None \<Rightarrow> getN from) of
        Inl e \<Rightarrow> (False, nonceMp)
      | Inr nonce \<Rightarrow> (nonce = txNonce, nonceMp(from \<mapsto> nonce + 1)))"

section \<open>The walks of \<open>FindBranchPoint\<close>\<close>

text \<open>The block \<open>n\<close> steps below a hash.\<close>

primrec walk :: "(bytes \<Rightarrow> err + Block) \<Rightarrow> nat \<Rightarrow> bytes \<Rightarrow> bytes option" where
  "walk get 0 h = Some h"
| "walk get (Suc n) h = (case get h of Inl _ \<Rightarrow> None | Inr b \<Rightarrow> walk get n (PrevHash b))"

text \<open>A stored parent lies below its child.\<close>

definition descends :: "(bytes \<Rightarrow> err + Block) \<Rightarrow> bool" where
  "descends get \<longleftrightarrow> (\<forall>h b p. get h = Inr b \<longrightarrow> get (PrevHash b) = Inr p \<longrightarrow> Height p < Height b)"

lemma FindBranchPoint_loop_returns:
  assumes "descends get"
  shows "\<exists>r. FindBranchPoint_loop get m b hs ht = Some r"
proof (induction "case get m of Inl _ \<Rightarrow> 0 | Inr x \<Rightarrow> Suc (unat (Height x))" arbitrary: m b hs ht rule: less_induct)
  case less
  show ?case
  proof (cases "get m")
    case (Inl e)
    then show ?thesis by (subst FindBranchPoint_loop.simps) simp
  next
    case m: (Inr x)
    show ?thesis
    proof (cases "get b")
      case (Inl e)
      then show ?thesis using m by (subst FindBranchPoint_loop.simps) simp
    next
      case (Inr y)
      have "(case get (PrevHash x) of Inl _ \<Rightarrow> 0 | Inr p \<Rightarrow> Suc (unat (Height p))) < Suc (unat (Height x))"
        using assms m by (auto simp: descends_def word_less_nat_alt split: sum.splits)
      then have "\<exists>r. FindBranchPoint_loop get (PrevHash x) (PrevHash y) (hs @ [b]) (Height y) = Some r"
        using less m by simp
      then show ?thesis using m Inr by (subst FindBranchPoint_loop.simps) simp
    qed
  qed
qed

text \<open>What a run from \<open>m\<close> and \<open>b\<close> adds to the list it starts with.\<close>

definition meeting :: "(bytes \<Rightarrow> err + Block) \<Rightarrow> bytes \<Rightarrow> bytes \<Rightarrow> bytes list \<Rightarrow> u64 \<Rightarrow> bytes list \<Rightarrow> u64 \<Rightarrow> bool" where
  "meeting get m b hs0 ht0 hs ht \<longleftrightarrow>
     (\<exists>n. hs = hs0 @ map (\<lambda>i. the (walk get i b)) [0..<n] \<and> walk get n b = walk get n m \<and> walk get n b \<noteq> None \<and>
        (\<forall>i<n. walk get i b \<noteq> walk get i m) \<and> (if n = 0 then ht = ht0 else \<exists>y. get (last hs) = Inr y \<and> Height y = ht))"

lemma meeting_step:
  assumes "m \<noteq> b" and "get m = Inr x" and "get b = Inr y"
    and "meeting get (PrevHash x) (PrevHash y) (hs0 @ [b]) (Height y) hs ht"
  shows "meeting get m b hs0 ht0 hs ht"
proof -
  obtain n where n: "hs = (hs0 @ [b]) @ map (\<lambda>i. the (walk get i (PrevHash y))) [0..<n]"
    "walk get n (PrevHash y) = walk get n (PrevHash x)" "walk get n (PrevHash y) \<noteq> None"
    "\<forall>i<n. walk get i (PrevHash y) \<noteq> walk get i (PrevHash x)"
    "if n = 0 then ht = Height y else \<exists>z. get (last hs) = Inr z \<and> Height z = ht"
    using assms(4) unfolding meeting_def by blast
  have "map (\<lambda>i. the (walk get i b)) [0..<Suc n] = b # map (\<lambda>i. the (walk get i (PrevHash y))) [0..<n]"
    unfolding upt_conv_Cons [OF zero_less_Suc] map_Suc_upt [symmetric] using assms(3) by simp
  moreover have "\<forall>i<Suc n. walk get i b \<noteq> walk get i m"
    using n(4) assms(1-3) by (auto simp: less_Suc_eq_0_disj)
  moreover have "\<exists>z. get (last hs) = Inr z \<and> Height z = ht"
    using n(1,5) assms(3) by (cases "n = 0") auto
  ultimately show ?thesis
    using n(1-3) assms(2,3) unfolding meeting_def by (intro exI [of _ "Suc n"]) simp
qed

lemma FindBranchPoint_loop_meets:
  assumes run: "FindBranchPoint_loop get m b hs0 ht0 = Some r"
  shows "case r of
      Inl e \<Rightarrow> \<exists>n u v. walk get n b = Some u \<and> walk get n m = Some v \<and> (get u = Inl e \<or> get v = Inl e)
    | Inr (hs, ht) \<Rightarrow> meeting get m b hs0 ht0 hs ht"
proof (rule FindBranchPoint_loop.raw_induct [where P = "\<lambda>get m b hs0 ht0 r. case r of
      Inl e \<Rightarrow> \<exists>n u v. walk get n b = Some u \<and> walk get n m = Some v \<and> (get u = Inl e \<or> get v = Inl e)
    | Inr (hs, ht) \<Rightarrow> meeting get m b hs0 ht0 hs ht", OF _ run])
  fix f and get :: "bytes \<Rightarrow> err + Block" and m b hs0 ht0 r
  assume IH: "\<And>get m b hs0 ht0 r. f get m b hs0 ht0 = Some r \<Longrightarrow> case r of
      Inl e \<Rightarrow> \<exists>n u v. walk get n b = Some u \<and> walk get n m = Some v \<and> (get u = Inl e \<or> get v = Inl e)
    | Inr (hs, ht) \<Rightarrow> meeting get m b hs0 ht0 hs ht"
    and eq: "(if m = b then Some (Inr (hs0, ht0))
      else case get m of Inl e \<Rightarrow> Some (Inl e) | Inr mblock \<Rightarrow>
      (case get b of Inl e \<Rightarrow> Some (Inl e) | Inr bblock \<Rightarrow>
       f get (PrevHash mblock) (PrevHash bblock) (hs0 @ [b]) (Height bblock))) = Some r"
  consider "m = b" | e where "m \<noteq> b" "get m = Inl e" | x e where "m \<noteq> b" "get m = Inr x" "get b = Inl e"
    | x y where "m \<noteq> b" "get m = Inr x" "get b = Inr y"
    by (cases "get m"; cases "get b") auto
  then show "case r of
      Inl e \<Rightarrow> \<exists>n u v. walk get n b = Some u \<and> walk get n m = Some v \<and> (get u = Inl e \<or> get v = Inl e)
    | Inr (hs, ht) \<Rightarrow> meeting get m b hs0 ht0 hs ht"
  proof cases
    case 1
    then show ?thesis using eq by (auto simp: meeting_def intro!: exI [of _ 0])
  next
    case 2
    then show ?thesis using eq by (auto intro!: exI [of _ 0])
  next
    case 3
    then show ?thesis using eq by (auto intro!: exI [of _ 0])
  next
    case (4 x y)
    then have "f get (PrevHash x) (PrevHash y) (hs0 @ [b]) (Height y) = Some r" using eq by simp
    note ih = IH [OF this]
    show ?thesis
    proof (cases r)
      case (Inl e)
      then obtain n u v where "walk get n (PrevHash y) = Some u" "walk get n (PrevHash x) = Some v" "get u = Inl e \<or> get v = Inl e"
        using ih by auto
      then show ?thesis using 4 Inl by (auto intro!: exI [of _ "Suc n"])
    next
      case (Inr a)
      then show ?thesis using ih meeting_step [OF 4] by (cases a) simp
    qed
  qed
qed

text \<open>
  C16. The search for the branch point finds the first common block. When every stored parent lies below
  its child it always returns; the hashes it returns are those of the branch from its upper end down to
  the block above the first block that both branches have the same number of steps down, in this order,
  and the height it returns is that of the lowest of them. It fails only where a block is missing.
\<close>

theorem FindBranchPoint_first_common:
  assumes "descends (getBlockByHash S d)"
  shows "case FindBranchPoint S d prevhash tiphash of
      None \<Rightarrow> False
    | Some (Inl e) \<Rightarrow> \<exists>n u v. walk (getBlockByHash S d) n prevhash = Some u \<and> walk (getBlockByHash S d) n tiphash = Some v \<and>
        (getBlockByHash S d u = Inl e \<or> getBlockByHash S d v = Inl e)
    | Some (Inr (hs, ht)) \<Rightarrow> hs = map (\<lambda>i. the (walk (getBlockByHash S d) i prevhash)) [0..<length hs] \<and>
        walk (getBlockByHash S d) (length hs) prevhash = walk (getBlockByHash S d) (length hs) tiphash \<and>
        walk (getBlockByHash S d) (length hs) prevhash \<noteq> None \<and>
        (\<forall>i<length hs. walk (getBlockByHash S d) i prevhash \<noteq> walk (getBlockByHash S d) i tiphash) \<and>
        (hs \<noteq> [] \<longrightarrow> (\<exists>b. getBlockByHash S d (last hs) = Inr b \<and> Height b = ht))"
proof -
  obtain r where r: "FindBranchPoint S d prevhash tiphash = Some r"
    using FindBranchPoint_loop_returns [OF assms] unfolding FindBranchPoint_def by blast
  from FindBranchPoint_loop_meets [OF r [unfolded FindBranchPoint_def]] show ?thesis
    unfolding r option.case
    by (cases r) (auto simp: meeting_def split: if_splits)
qed

text \<open>Two blocks beside each other above a block that is not stored.\<close>

definition demo_fork :: "bytes \<Rightarrow> memdb" where
  "demo_fork dat = [(replicate 32 5, projr (Serialize demo_sys demo_prev)), (replicate 32 1, dat)]"

lemma demo_fork_get:
  assumes "Deserialize demo_sys dat = Inr demo_settled"
  shows "getBlockByHash demo_sys (demo_fork dat) h =
    (if h = replicate 32 5 then Inr demo_prev else if h = replicate 32 1 then Inr demo_settled else Inl NotExist)"
proof -
  have ne: "(replicate 32 1 :: bytes) \<noteq> replicate 32 5" by (simp add: replicate_eq_replicate)
  then show ?thesis using assms demo_prev_stored
    by (simp add: getBlockByHash_def demo_fork_def demo_get monad_simps)
qed

lemma demo_fork_parents: "PrevHash demo_prev = replicate 32 0" "PrevHash demo_settled = replicate 32 0" "Height demo_prev = 60350422"
  by (simp_all add: demo_prev_def demo_settled_def demo_next_def demo_block_def)

theorem FindBranchPoint_first_common_witness:
  "\<exists>dat. FindBranchPoint demo_sys (demo_fork dat) (replicate 32 5) (replicate 32 1) = Some (Inr ([replicate 32 5], 60350422)) \<and>
     walk (getBlockByHash demo_sys (demo_fork dat)) 1 (replicate 32 5) = walk (getBlockByHash demo_sys (demo_fork dat)) 1 (replicate 32 1)"
proof -
  obtain dat where d: "Deserialize demo_sys dat = Inr demo_settled" using demo_settled_stored by blast
  note get = demo_fork_get [OF d]
  have ne: "(replicate 32 1 :: bytes) \<noteq> replicate 32 5" "(replicate 32 0 :: bytes) \<noteq> replicate 32 5" "(replicate 32 0 :: bytes) \<noteq> replicate 32 1"
    by (simp_all add: replicate_eq_replicate)
  have desc: "descends (getBlockByHash demo_sys (demo_fork dat))"
    using ne by (auto simp: descends_def get demo_fork_parents split: if_splits)
  have run: "FindBranchPoint demo_sys (demo_fork dat) (replicate 32 5) (replicate 32 1) = Some (Inr ([replicate 32 5], 60350422))"
    unfolding FindBranchPoint_def using ne
    by (subst FindBranchPoint_loop.simps, subst FindBranchPoint_loop.simps)
      (simp add: get demo_fork_parents)
  from FindBranchPoint_first_common [OF desc, of "replicate 32 5" "replicate 32 1"] run show ?thesis
    by (intro exI [of _ dat]) (simp)
qed

section \<open>The orphan pool\<close>

text \<open>
  The two maps describe the same finite set of orphans: an orphan is found under its hash exactly when it
  is in the list of its parent, no hash is twice in a list, and no list is empty.
\<close>

definition pool_ok :: "('d, 's) consensus \<Rightarrow> bool" where
  "pool_ok st \<longleftrightarrow> finite (dom (Oranphs st)) \<and>
     (\<forall>h orphan. Oranphs st h = Some orphan \<longleftrightarrow> hashOf orphan = h \<and> orphan \<in> set (prevOf st (parentOf orphan))) \<and>
     (\<forall>p os. PrevOrphans st p = Some os \<longrightarrow> os \<noteq> [] \<and> distinct (map hashOf os) \<and> (\<forall>orphan\<in>set os. parentOf orphan = p))"

lemma pool_ok_Bc [simp]: "pool_ok (st\<lparr>Bc := c\<rparr>) = pool_ok st" "prevOf (st\<lparr>Bc := c\<rparr>) p = prevOf st p"
  by (simp_all add: pool_ok_def prevOf_def)

lemma pool_ok_oldest [simp]: "pool_ok (st\<lparr>oldestOrphan := x\<rparr>) = pool_ok st"
  by (simp add: pool_ok_def prevOf_def)

lemma pool_ok_New: "pool_ok (consensus_New bc)"
  by (simp add: pool_ok_def consensus_New_def prevOf_def)

lemma prevOf_parent: "pool_ok st \<Longrightarrow> orphan \<in> set (prevOf st p) \<Longrightarrow> parentOf orphan = p"
  by (cases "PrevOrphans st p") (auto simp: pool_ok_def prevOf_def)

lemma prevOf_listed: "pool_ok st \<Longrightarrow> orphan \<in> set (prevOf st p) \<Longrightarrow> Oranphs st (hashOf orphan) = Some orphan"
  using prevOf_parent [of st orphan p] unfolding pool_ok_def by auto

lemma prevOf_distinct: "pool_ok st \<Longrightarrow> distinct (map hashOf (prevOf st p))"
  by (auto simp: pool_ok_def prevOf_def split: option.splits)

lemma prevOf_remove:
  "prevOf (removeOrphanBlock orphan st) p =
     (if p = parentOf orphan then filter (\<lambda>o1. hashOf orphan \<noteq> hashOf o1) (prevOf st p) else prevOf st p)"
  by (auto simp: removeOrphanBlock_def prevOf_def Let_def)

lemma Oranphs_remove: "Oranphs (removeOrphanBlock orphan st) = (Oranphs st)(hashOf orphan := None)"
  by (simp add: removeOrphanBlock_def Let_def)

lemma Bc_remove [simp]: "Bc (removeOrphanBlock orphan st) = Bc st"
  by (simp add: removeOrphanBlock_def Let_def)

lemma remove_pool_ok:
  assumes ok: "pool_ok st" and mem: "Oranphs st (hashOf orphan) = Some orphan"
  shows "pool_ok (removeOrphanBlock orphan st)"
proof -
  let ?st = "removeOrphanBlock orphan st"
  have both: "Oranphs st h = Some o1 \<longleftrightarrow> hashOf o1 = h \<and> o1 \<in> set (prevOf st (parentOf o1))" for h o1
    using ok by (simp add: pool_ok_def)
  have "Oranphs ?st h = Some o1 \<longleftrightarrow> hashOf o1 = h \<and> o1 \<in> set (prevOf ?st (parentOf o1))" for h o1
  proof (cases "hashOf o1 = hashOf orphan")
    case True
    have "o1 \<notin> set (prevOf ?st (parentOf o1))"
    proof
      assume m: "o1 \<in> set (prevOf ?st (parentOf o1))"
      then have "o1 \<in> set (prevOf st (parentOf o1))" by (auto simp: prevOf_remove split: if_splits)
      then have "Oranphs st (hashOf orphan) = Some o1" using both True by auto
      then have "o1 = orphan" using mem by simp
      then show False using m by (simp add: prevOf_remove)
    qed
    moreover have "Oranphs ?st h \<noteq> Some o1"
      using both [of h o1] True by (auto simp: Oranphs_remove)
    ultimately show ?thesis by blast
  next
    case False
    then have "Oranphs ?st h = Some o1 \<longleftrightarrow> Oranphs st h = Some o1" using both [of h o1] both [of "hashOf orphan" o1] by (auto simp: Oranphs_remove)
    moreover have "o1 \<in> set (prevOf ?st (parentOf o1)) \<longleftrightarrow> o1 \<in> set (prevOf st (parentOf o1))"
      using False by (auto simp: prevOf_remove)
    ultimately show ?thesis using both by blast
  qed
  moreover have "os \<noteq> [] \<and> distinct (map hashOf os) \<and> (\<forall>o1\<in>set os. parentOf o1 = p)" if "PrevOrphans ?st p = Some os" for p os
  proof -
    have "os = prevOf ?st p" "os \<noteq> []"
      using that ok by (auto simp: prevOf_def removeOrphanBlock_def Let_def pool_ok_def split: if_splits)
    then show ?thesis using prevOf_distinct [OF ok, of p] prevOf_parent [OF ok, of _ p]
      by (auto simp: prevOf_remove distinct_map inj_on_def split: if_splits)
  qed
  moreover have "finite (dom (Oranphs ?st))" using ok by (simp add: pool_ok_def Oranphs_remove)
  ultimately show ?thesis unfolding pool_ok_def by blast
qed

lemma expire_pool_ok: "pool_ok st \<Longrightarrow> pool_ok (expireOrphans nw order st)"
proof (induction order arbitrary: st)
  case (Cons k ks)
  show ?case
  proof (cases "Oranphs st k")
    case (Some orphan)
    then have "hashOf orphan = k" using Cons.prems by (auto simp: pool_ok_def)
    then show ?thesis using Some Cons remove_pool_ok [OF Cons.prems, of orphan] by simp
  qed (use Cons in simp)
qed simp

lemma add_pool_ok:
  assumes "pool_ok st"
  shows "pool_ok (AddOrphanBlock nw order block st)"
proof -
  define st1 where "st1 = expireOrphans nw order st"
  define ob where "ob = \<lparr>o_Block = block, Expiration = nw + hour\<rparr>"
  have ok: "pool_ok st1" using expire_pool_ok [OF assms] by (simp add: st1_def)
  let ?st = "st1\<lparr>Oranphs := (Oranphs st1)(hashOf ob \<mapsto> ob), PrevOrphans := (PrevOrphans st1)(parentOf ob \<mapsto> prevOf st1 (parentOf ob) @ [ob])\<rparr>"
  have run: "AddOrphanBlock nw order block st = (if Oranphs st1 (hashOf ob) \<noteq> None then st1 else ?st)"
    by (simp add: AddOrphanBlock_def Let_def st1_def ob_def)
  show ?thesis
  proof (cases "Oranphs st1 (hashOf ob)")
    case None
    have both: "Oranphs st1 h = Some o1 \<longleftrightarrow> hashOf o1 = h \<and> o1 \<in> set (prevOf st1 (parentOf o1))" for h o1
      using ok by (simp add: pool_ok_def)
    have prev: "prevOf ?st p = (if p = parentOf ob then prevOf st1 p @ [ob] else prevOf st1 p)" for p
      by (simp add: prevOf_def)
    have new: "hashOf o1 \<noteq> hashOf ob" if "o1 \<in> set (prevOf st1 p)" for o1 p
      using prevOf_listed [OF ok that] None by auto
    have "Oranphs ?st h = Some o1 \<longleftrightarrow> hashOf o1 = h \<and> o1 \<in> set (prevOf ?st (parentOf o1))" for h o1
      using both [of h o1] new None unfolding prev by auto
    moreover have "os \<noteq> [] \<and> distinct (map hashOf os) \<and> (\<forall>o1\<in>set os. parentOf o1 = p)" if "PrevOrphans ?st p = Some os" for p os
    proof -
      have "os = prevOf ?st p" "os \<noteq> []"
        using that ok by (auto simp: prevOf_def pool_ok_def split: if_splits)
      then show ?thesis using prevOf_distinct [OF ok, of p] prevOf_parent [OF ok, of _ p] new [of _ p]
        unfolding prev by (auto split: if_splits) blast
    qed
    moreover have "finite (dom (Oranphs ?st))" using ok by (simp add: pool_ok_def)
    ultimately have "pool_ok ?st" unfolding pool_ok_def by blast
    then show ?thesis using run None by simp
  qed (use run ok in simp)
qed

text \<open>Every round takes an orphan out of the pool or a hash off the queue.\<close>

lemma card_remove:
  assumes "pool_ok st" and "orphan \<in> set (prevOf st p)"
  shows "card (dom (Oranphs (removeOrphanBlock orphan st))) < card (dom (Oranphs st))"
proof -
  have "finite (dom (Oranphs st))" "hashOf orphan \<in> dom (Oranphs st)"
    using assms prevOf_listed [OF assms] by (auto simp: pool_ok_def)
  then show ?thesis by (intro psubset_card_mono) (auto simp: Oranphs_remove)
qed

text \<open>The chain after the acceptance of the blocks of a list, one after the other, if all of them are taken.\<close>

fun accept_all :: "('d, 't, 's, 'z) sys_scheme \<Rightarrow> (int \<Rightarrow> bool) \<Rightarrow> Block list \<Rightarrow> ('d, 's) chain \<Rightarrow> ('d, 's) chain option" where
  "accept_all S probablyPrime [] c = Some c"
| "accept_all S probablyPrime (b # bs) c =
     (case maybeAcceptBlock S probablyPrime b c of
        (Inr (ok, main), c') \<Rightarrow> if ok then accept_all S probablyPrime bs c' else None
      | (Inl e, c') \<Rightarrow> None)"

text \<open>
  What the loop makes of an orphan that is tried and not taken, and how it can end when the orphans of a list
  have been accepted and \<open>c\<close> is the chain: no orphan is left to try, or one more, out of \<open>X\<close>, is not taken.
\<close>

definition not_taken :: "((err + bool) \<times> ('d, 's) consensus) option \<Rightarrow> (err + bool \<times> bool) \<times> ('d, 's) chain \<Rightarrow> bool" where
  "not_taken R a \<longleftrightarrow>
     (case a of
        (Inr (ok, main), c') \<Rightarrow> \<not> ok \<and> (\<exists>st'. R = Some (Inr main, st') \<and> Bc st' = c')
      | (Inl e, c') \<Rightarrow> if e = no_return then R = None else (\<exists>st'. R = Some (Inl e, st') \<and> Bc st' = c'))"

definition loop_ends ::
    "('d, 't, 's, 'z) sys_scheme \<Rightarrow> (int \<Rightarrow> bool) \<Rightarrow> ((err + bool) \<times> ('d, 's) consensus) option \<Rightarrow> OrphanBlock set \<Rightarrow> ('d, 's) chain \<Rightarrow> bool" where
  "loop_ends S probablyPrime R X c \<longleftrightarrow> (\<forall>x st'. R = Some (x, st') \<longrightarrow> pool_ok st') \<and>
     ((\<exists>main st'. R = Some (Inr main, st') \<and> Bc st' = c) \<or>
      (\<exists>orphan\<in>X. not_taken R (maybeAcceptBlock S probablyPrime (o_Block orphan) c)))"

lemma pool_ran:
  assumes "pool_ok st" and "orphan \<in> set (prevOf st p)"
  shows "orphan \<in> ran (Oranphs st)" and "ran (Oranphs (removeOrphanBlock orphan st)) = ran (Oranphs st) - {orphan}"
proof -
  have at: "Oranphs st h = Some o1 \<Longrightarrow> hashOf o1 = h" for h o1
    using assms(1) unfolding pool_ok_def by blast
  note o = prevOf_listed [OF assms]
  show "orphan \<in> ran (Oranphs st)" using o by (rule ranI)
  have "Oranphs st h = Some o1 \<and> h \<noteq> hashOf orphan \<longleftrightarrow> Oranphs st h = Some o1 \<and> o1 \<noteq> orphan" for h o1
    using at [of h o1] o by (metis option.inject)
  then show "ran (Oranphs (removeOrphanBlock orphan st)) = ran (Oranphs st) - {orphan}"
    unfolding Oranphs_remove ran_def fun_upd_def by (intro set_eqI) (simp, metis)
qed

lemma ProcessOrphan_loop_trace:
  assumes "pool_ok st"
  shows "\<exists>os c. distinct os \<and> set os \<subseteq> ran (Oranphs st) \<and> accept_all S pp (map o_Block os) (Bc st) = Some c \<and>
    loop_ends S pp (ProcessOrphan_loop S pp hs main st) (ran (Oranphs st) - set os) c"
  using assms
proof (induction "(card (dom (Oranphs st)), length hs)" arbitrary: hs main st rule: wf_induct_rule [OF wf_lex_prod [OF wf_less wf_less]])
  case (1 hs st main)
  show ?case
  proof (cases hs)
    case Nil
    then have "loop_ends S pp (ProcessOrphan_loop S pp hs main st) (ran (Oranphs st)) (Bc st)"
      using 1(2) by (subst ProcessOrphan_loop.simps) (simp add: loop_ends_def)
    then show ?thesis by (intro exI [of _ "[]"] exI [of _ "Bc st"]) simp
  next
    case (Cons p ps)
    show ?thesis
    proof (cases "prevOf st p")
      case Nil
      then have "ProcessOrphan_loop S pp hs main st = ProcessOrphan_loop S pp ps main st"
        using Cons by (subst ProcessOrphan_loop.simps) simp
      moreover note 1(1) [of st ps main, OF _ 1(2)]
      ultimately show ?thesis by (simp add: Cons)
    next
      case os: (Cons orphan rest)
      then have mem: "orphan \<in> set (prevOf st p)" by simp
      let ?st = "removeOrphanBlock orphan st"
      note ok = remove_pool_ok [OF 1(2) prevOf_listed [OF 1(2) mem]] and ran = pool_ran [OF 1(2) mem]
      obtain x c where x: "maybeAcceptBlock S pp (o_Block orphan) (Bc st) = (x, c)" by (metis surj_pair)
      show ?thesis
      proof (cases "\<exists>m. x = Inr (True, m)")
        case True
        then obtain m where m: "x = Inr (True, m)" by blast
        have eq: "ProcessOrphan_loop S pp hs main st = ProcessOrphan_loop S pp (hs @ [hashOf orphan]) m (?st\<lparr>Bc := c\<rparr>)"
          using Cons os x m by (subst ProcessOrphan_loop.simps) (simp add: Let_def)
        have "\<exists>os c'. distinct os \<and> set os \<subseteq> ran (Oranphs ?st) \<and> accept_all S pp (map o_Block os) c = Some c' \<and>
            loop_ends S pp (ProcessOrphan_loop S pp hs main st) (ran (Oranphs ?st) - set os) c'"
          using 1(1) [of "?st\<lparr>Bc := c\<rparr>" "hs @ [hashOf orphan]" m] card_remove [OF 1(2) mem] ok by (simp add: eq)
        then obtain os' c' where "distinct os'" "set os' \<subseteq> ran (Oranphs st) - {orphan}" "accept_all S pp (map o_Block os') c = Some c'"
            "loop_ends S pp (ProcessOrphan_loop S pp hs main st) (ran (Oranphs st) - {orphan} - set os') c'"
          unfolding ran by blast
        then show ?thesis
          using ran(1) x m by (intro exI [of _ "orphan # os'"] exI [of _ c']) (auto simp: set_diff_eq)
      next
        case False
        have eq: "ProcessOrphan_loop S pp hs main st = (case x of
            Inl e \<Rightarrow> if e = no_return then None else Some (Inl e, ?st\<lparr>Bc := c\<rparr>) | Inr (b, m) \<Rightarrow> Some (Inr m, ?st\<lparr>Bc := c\<rparr>))"
          using Cons os x False by (subst ProcessOrphan_loop.simps) (auto simp: Let_def split: sum.splits)
        have "not_taken (ProcessOrphan_loop S pp hs main st) (maybeAcceptBlock S pp (o_Block orphan) (Bc st))"
          using False unfolding eq x not_taken_def by (auto split: sum.splits)
        moreover have "pool_ok st'" if "ProcessOrphan_loop S pp hs main st = Some (y, st')" for y st'
          using that ok unfolding eq by (auto split: sum.splits if_splits)
        ultimately have "loop_ends S pp (ProcessOrphan_loop S pp hs main st) (ran (Oranphs st)) (Bc st)"
          using ran(1) unfolding loop_ends_def by blast
        then show ?thesis by (intro exI [of _ "[]"] exI [of _ "Bc st"]) simp
      qed
    qed
  qed
qed

lemma ProcessOrphan_loop_pool_ok:
  "pool_ok st \<Longrightarrow> ProcessOrphan_loop S pp hs main st = Some (r, st') \<Longrightarrow> pool_ok st'"
  using ProcessOrphan_loop_trace [of st S pp hs main] by (auto simp: loop_ends_def)

lemma onBc_pool_ok: "onBc m s = (x, s') \<Longrightarrow> pool_ok s \<Longrightarrow> pool_ok s'"
  by (auto simp: onBc_def monad_simps split: prod.splits)

lemma ProcessBlock_pool_ok:
  assumes "pool_ok st" and "ProcessBlock S pp nw order b st = (r, st')"
  shows "pool_ok st'"
proof -
  have orphans: "ProcessOrphan S pp b s = Some (x, s') \<Longrightarrow> pool_ok s \<Longrightarrow> pool_ok s'" for s x s'
    using ProcessOrphan_loop_pool_ok unfolding ProcessOrphan_def by blast
  have connect: "connectBlock S pp b s = (x, s') \<Longrightarrow> pool_ok s \<Longrightarrow> pool_ok s'" for s x s'
    unfolding connectBlock_def bindM_def retM_def
    by (auto split: prod.splits sum.splits if_splits option.splits dest: onBc_pool_ok orphans)
  show ?thesis
    using assms(2,1) unfolding ProcessBlock_def bindM_def thenM_def retM_def readM_def modM_def
    by (auto split: prod.splits sum.splits if_splits dest!: onBc_pool_ok connect intro: add_pool_ok)
qed

text \<open>The states of a running node: every block goes through \<open>ProcessBlock\<close>; a panic ends the node.\<close>

inductive node_state :: "('d, 't, 's, 'z) sys_scheme \<Rightarrow> (int \<Rightarrow> bool) \<Rightarrow> ('d, 's) consensus \<Rightarrow> bool"
  for S :: "('d, 't, 's, 'z) sys_scheme" and probablyPrime :: "int \<Rightarrow> bool" where
  node_start: "node_state S probablyPrime (consensus_New bc)"
| node_block: "node_state S probablyPrime st \<Longrightarrow> ProcessBlock S probablyPrime nw order b st = (Inr r, st') \<Longrightarrow> node_state S probablyPrime st'"

inductive_cases node_stateE: "node_state S probablyPrime st"

lemma node_pool_ok: "node_state S pp st \<Longrightarrow> pool_ok st"
  by (induction rule: node_state.induct) (auto intro: pool_ok_New ProcessBlock_pool_ok)

section \<open>Properties\<close>

text \<open>
  C17. The orphan pool is consistent in every state a node can reach, whatever blocks arrive, at whatever
  times and in whatever order the map is ranged over: it is finite, an orphan is found under its hash
  exactly when it is in the list of its parent, and no list is empty or holds a hash twice.
\<close>

theorem orphan_pool_consistent:
  assumes "node_state S probablyPrime st"
  shows "finite (dom (Oranphs st)) \<and>
    (\<forall>h orphan. Oranphs st h = Some orphan \<longleftrightarrow> hashOf orphan = h \<and> orphan \<in> set (prevOf st (parentOf orphan))) \<and>
    (\<forall>p os. PrevOrphans st p = Some os \<longrightarrow> os \<noteq> [] \<and> distinct (map hashOf os) \<and> (\<forall>orphan\<in>set os. parentOf orphan = p))"
  using node_pool_ok [OF assms] unfolding pool_ok_def .

definition demo_tip :: "(memdb, memstate) chain" where
  "demo_tip = demo_chain\<lparr>db := demo_added_db []\<rparr>"

definition demo_lost :: Block where
  "demo_lost = demo_next\<lparr>Hash := replicate 32 7, PrevHash := replicate 32 8\<rparr>"

definition demo_waiting :: "(memdb, memstate) consensus" where
  "demo_waiting = AddOrphanBlock 100 [] demo_lost (consensus_New demo_tip)"

lemma demo_tip_missing: "getBlockByHash demo_sys (db demo_tip) (replicate 32 7) = Inl NotExist"
    "getBlockByHash demo_sys (db demo_tip) (replicate 32 8) = Inl NotExist"
  using demo_index_keys(5-8) [symmetric]
  by (simp_all add: getBlockByHash_def demo_tip_def demo_added_db_def demo_get monad_simps replicate_eq_replicate)

lemma demo_waiting_run:
  "ProcessBlock demo_sys (\<lambda>_. True) 100 [] demo_lost (consensus_New demo_tip) = (Inr False, demo_waiting)"
proof -
  have "getMaxBlockHeight demo_sys (db demo_tip) = Inr 60350423"
    by (simp add: demo_tip_def demo_added_db_def getMaxBlockHeight_def demo_get)
  then show ?thesis using demo_tip_missing
    by (simp add: ProcessBlock_def onBc_def monad_simps BlockExists_def attempt_def demo_waiting_def consensus_New_def demo_lost_def
        InitHeight_def)
qed

lemma demo_node: "node_state demo_sys (\<lambda>_. True) demo_waiting"
  by (rule node_block [OF node_start demo_waiting_run])

theorem orphan_pool_consistent_witness:
  "Oranphs demo_waiting (replicate 32 7) = Some \<lparr>o_Block = demo_lost, Expiration = 3600000000100\<rparr> \<and>
   \<lparr>o_Block = demo_lost, Expiration = 3600000000100\<rparr> \<in> set (prevOf demo_waiting (replicate 32 8))"
proof -
  let ?o = "\<lparr>o_Block = demo_lost, Expiration = 3600000000100\<rparr>"
  have "Oranphs demo_waiting (replicate 32 7) = Some ?o"
    by (simp add: demo_waiting_def AddOrphanBlock_def Let_def consensus_New_def demo_lost_def orphan_key_def HashSize_def hour_def)
  moreover have "parentOf ?o = replicate 32 8" by (simp add: demo_lost_def orphan_key_def HashSize_def)
  ultimately show ?thesis using orphan_pool_consistent [OF demo_node] by metis
qed


lemma demo_waiting_pool: "Oranphs demo_waiting = [replicate 32 7 \<mapsto> \<lparr>o_Block = demo_lost, Expiration = 3600000000100\<rparr>]"
  by (simp add: demo_waiting_def AddOrphanBlock_def Let_def consensus_New_def demo_lost_def orphan_key_def HashSize_def hour_def)

text \<open>A chain that knows the parent of the waiting orphan takes it as a block beside its tip.\<close>

lemma demo_lost_accepted:
  "\<exists>c c'. Tip demo_sys (db c) = Inr demo_settled \<and> maybeAcceptBlock demo_sys pp demo_lost c = (Inr (True, False), c')"
proof -
  obtain dat where d: "Deserialize demo_sys dat = Inr demo_settled" using demo_settled_stored by blast
  define c where "c = demo_chain\<lparr>db := demo_added_db dat @ [(replicate 32 8, projr (Serialize demo_sys demo_prev))]\<rparr>"
  note ks = demo_index_keys demo_index_keys(5-8) [symmetric]
  have "getMaxBlockHeight demo_sys (db c) = Inr 60350423"
    by (simp add: c_def demo_added_db_def getMaxBlockHeight_def demo_get)
  then have tip: "Tip demo_sys (db c) = Inr demo_settled" and parent: "getBlockByHash demo_sys (db c) (replicate 32 8) = Inr demo_prev"
    using d ks demo_prev_stored
    by (simp_all add: Tip_def getHash_def getBlockByHash_def c_def demo_added_db_def demo_get monad_simps replicate_eq_replicate)
  have u: "PrevHash demo_lost = replicate 32 8" "Hash demo_lost = replicate 32 7" by (simp_all add: demo_lost_def)
  obtain b where b: "Serialize demo_sys demo_lost = Inr b"
    by (simp add: Serialize_def Block_MarshalCBOR_def demo_lost_def demo_next_def demo_block_def)
  have "Height demo_prev < Height demo_settled" "Height demo_prev \<noteq> Height demo_settled" by (simp_all add: demo_fork_parents)
  then have "\<exists>c'. maybeAcceptBlock demo_sys pp demo_lost c = (Inr (True, False), c')"
    using tip parent u b by (simp add: maybeAcceptBlock_def AddUncleBlock_def monad_simps attempt_def bg_set_def mem_kv_def mem_set_def
      replicate_eq_replicate)
  with tip show ?thesis by blast
qed


text \<open>The one write of a block beside the chain, committed or not.\<close>

context chain_sys
begin

lemma uncle_commit:
  assumes "bg_set (KV S) k v (kv_new (KV S) d) = (Inr u, t)" and "kv_commit (KV S) t d = (z, d')"
  shows "bgStore_Get (KV S) d' = (case z of Inr _ \<Rightarrow> (bgStore_Get (KV S) d)(k := Inr v) | Inl _ \<Rightarrow> bgStore_Get (KV S) d)"
proof (cases z)
  case (Inl e)
  then show ?thesis using commit_get_err assms(2) by simp
next
  case (Inr w)
  from tracks_commit [OF tracks_set [OF tracks_new assms(1)] assms(2) [unfolded Inr]] plain.Set_ok [OF assms(1)]
  show ?thesis by (simp add: Inr bgStore_Get_def fun_eq_iff)
qed

end

text \<open>
  C19. A block beside the chain is stored without any check. When the parent of a block lies below the tip, the
  bytes of the block are written to the database under the bytes it gives as its hash, and the block is taken
  whenever the database accepts this write, whatever its work, its transactions and its height; nothing
  compares the hash with the content. Once the write is committed the entry under that key is the block, and
  every other entry stays: a block that calls itself \<open>height\<close> replaces the height of the chain. A commit that
  fails changes nothing, but its error is dropped and the block counts as taken.
\<close>

theorem uncle_block_takes_any_key:
  assumes "chain_sys S pending" and "Tip S (db c) = Inr tipblock" and "PrevHash b \<noteq> Hash tipblock"
    and "getBlockByHash S (db c) (PrevHash b) = Inr parent" and "Height parent < Height tipblock"
    and "Serialize S b = Inr dat"
  shows "case bg_set (KV S) (Hash b) dat (kv_new (KV S) (db c)) of
      (Inl e, t) \<Rightarrow> maybeAcceptBlock S probablyPrime b c = (if is_panic e then Inl e else Inr (False, False), c)
    | (Inr u, t) \<Rightarrow> \<exists>c'. maybeAcceptBlock S probablyPrime b c = (Inr (True, False), c') \<and>
        bgStore_Get (KV S) (db c') = (case fst (kv_commit (KV S) t (db c)) of
           Inr _ \<Rightarrow> (bgStore_Get (KV S) (db c))(Hash b := Inr dat)
         | Inl _ \<Rightarrow> bgStore_Get (KV S) (db c))"
proof -
  obtain y t where t: "bg_set (KV S) (Hash b) dat (kv_new (KV S) (db c)) = (y, t)" by (metis surj_pair)
  have ne: "Height parent \<noteq> Height tipblock" using assms(5) by auto
  show ?thesis
  proof (cases y)
    case (Inl e)
    then show ?thesis using assms(2-6) ne t by (simp add: maybeAcceptBlock_def AddUncleBlock_def monad_simps attempt_def)
  next
    case (Inr u)
    obtain z d' where d': "kv_commit (KV S) t (db c) = (z, d')" by (metis surj_pair)
    have "maybeAcceptBlock S probablyPrime b c = (Inr (True, False), c\<lparr>db := d'\<rparr>)"
      using assms(2-6) ne t Inr d' by (simp add: maybeAcceptBlock_def AddUncleBlock_def monad_simps attempt_def)
    moreover have "bgStore_Get (KV S) d' = (case z of Inr _ \<Rightarrow> (bgStore_Get (KV S) (db c))(Hash b := Inr dat) | Inl _ \<Rightarrow> bgStore_Get (KV S) (db c))"
      using chain_sys.uncle_commit [OF assms(1) t [unfolded Inr] d'] .
    ultimately show ?thesis using t Inr d' by simp
  qed
qed

definition demo_usurper :: Block where
  "demo_usurper = demo_next\<lparr>Hash := HeightKey, PrevHash := replicate 32 5\<rparr>"

theorem uncle_block_takes_any_key_witness:
  "\<exists>c c' dat. maybeAcceptBlock demo_sys (\<lambda>_. False) demo_usurper c = (Inr (True, False), c') \<and>
     getMaxBlockHeight demo_sys (db c) = Inr 60350423 \<and> bgStore_Get mem_kv (db c') HeightKey = Inr dat \<and>
     Serialize demo_sys demo_usurper = Inr dat"
proof -
  obtain dat where d: "Deserialize demo_sys dat = Inr demo_settled" using demo_settled_stored by blast
  define c where "c = demo_chain\<lparr>db := demo_added_db dat\<rparr>"
  have h: "getMaxBlockHeight demo_sys (db c) = Inr 60350423"
    by (simp add: c_def demo_added_db_def getMaxBlockHeight_def demo_get)
  note ks = demo_index_keys demo_index_keys(5-8) [symmetric]
  have tip: "Tip demo_sys (db c) = Inr demo_settled" and parent: "getBlockByHash demo_sys (db c) (replicate 32 5) = Inr demo_prev"
    using d h ks demo_prev_stored
    by (simp_all add: Tip_def getHash_def getBlockByHash_def c_def demo_added_db_def demo_get monad_simps replicate_eq_replicate)
  obtain dat' where s: "Serialize demo_sys demo_usurper = Inr dat'"
    by (simp add: Serialize_def Block_MarshalCBOR_def demo_usurper_def demo_next_def demo_block_def)
  have u: "PrevHash demo_usurper = replicate 32 5" "Hash demo_usurper = HeightKey" "PrevHash demo_usurper \<noteq> Hash demo_settled"
    by (simp_all add: demo_usurper_def demo_settled_def replicate_eq_replicate)
  have ht: "Height demo_prev < Height demo_settled" by (simp add: demo_fork_parents)
  obtain t where t: "bg_set (KV demo_sys) (Hash demo_usurper) dat' (kv_new (KV demo_sys) (db c)) = (Inr (), t)"
    using ks(3) u(2) by (simp add: bg_set_def mem_kv_def mem_set_def)
  have "fst (kv_commit (KV demo_sys) t (db c)) = Inr ()" by (simp add: mem_kv_def mem_commit_def)
  with uncle_block_takes_any_key [OF demo_chain_sys.chain_sys_axioms tip u(3) parent [folded u(1)] ht s, of "\<lambda>_. False"] t
  obtain c' where "maybeAcceptBlock demo_sys (\<lambda>_. False) demo_usurper c = (Inr (True, False), c')"
    "bgStore_Get mem_kv (db c') HeightKey = Inr dat'" using u(2) by auto
  then show ?thesis using h s by blast
qed

text \<open>An orphan that is refused stops the loop: its siblings and their descendants stay in the pool.\<close>

lemma refused_orphan_stops_loop:
  assumes "prevOf st (orphan_key (Hash block)) = orphan # os"
    and "maybeAcceptBlock S probablyPrime (o_Block orphan) (Bc st) = (Inr (False, main), c)"
  shows "ProcessOrphan S probablyPrime block st = Some (Inr main, (removeOrphanBlock orphan st)\<lparr>Bc := c\<rparr>)"
  using assms unfolding ProcessOrphan_def by (subst ProcessOrphan_loop.simps) (simp add: Let_def)

text \<open>A wrong nonce is recorded as if it had been right.\<close>

lemma CheckNonce_records_wrong_nonce:
  "getN from = Inr n \<Longrightarrow> k \<noteq> n \<Longrightarrow> CheckNonce getN from k Map.empty = (False, [from \<mapsto> n + 1]) \<and>
     \<not> fst (CheckNonce getN from n [from \<mapsto> n + 1])"
  by (simp add: CheckNonce_def)

end
