(* ===== verification/Miner.thy ===== *)
theory Miner
  imports Reorg
begin

text \<open>
  The miner (\<open>pkg/miner/miner.go\<close>) as far as it computes: the targets it works against, the ranges of
  nonces of its workers, the search in a range, the completion of a mined block; and the pool of client
  connections (\<open>pkg/miner/pool.go\<close>). Channels, goroutines and messages to other nodes are not modelled.
\<close>

section \<open>Configuration\<close>

text \<open>The variables \<open>cpuNum\<close> and \<open>Cycle\<close>; \<open>numCPU\<close> is \<open>runtime.NumCPU()\<close>.\<close>

definition SetConf :: "int \<Rightarrow> int \<Rightarrow> int \<Rightarrow> int \<times> u64 \<Rightarrow> int \<times> u64" where
  "SetConf numCPU avlcpunum cycle conf =
     (if 0 < avlcpunum \<and> avlcpunum \<le> numCPU then avlcpunum else fst conf,
      if 0 < cycle then word_of_int cycle else snd conf)"

section \<open>Targets of the miner\<close>

text \<open>The variables \<open>globalBits\<close> and \<open>localBits\<close>.\<close>

record bits =
  gBits :: u32
  lBits :: u32

definition miner_GetBasePledge :: "('d, 't, 's, 'z) sys_scheme \<Rightarrow> 'd \<Rightarrow> err + u64" where
  "miner_GetBasePledge S d =
     bindE (getWholeNetworkPledgeAndNum S (kv_new (KV S) d)) (\<lambda>(tot, pledgeTotal).
       let bigTotal = Uint64ToBigInt tot; bigPledgeTotal = Uint64ToBigInt pledgeTotal;
           rate = (if bigTotal \<noteq> 0 then big_Uint64 (bigPledgeTotal * 100 div bigTotal) else 0);
           maxPledge = 1200000000000000
       in if 100 < rate then Inl (Err ''rate is not in the range of 0~100'')
          else Inr (maxPledge * (100 - rate) div 100))"

text \<open>An error of \<open>Tip\<close> is only logged; the tip is nil then.\<close>

definition UpdateDifficultyFromLastBlock :: "('d, 't, 's, 'z) sys_scheme \<Rightarrow> 'd \<Rightarrow> (bits, Block option) M" where
  "UpdateDifficultyFromLastBlock S d =
     bindM (readM (\<lambda>_. case Tip S d of Inr b \<Rightarrow> Inr (Some b) | Inl e \<Rightarrow> if is_panic e then Inl e else Inr None)) (\<lambda>tip.
     bindM (readM (\<lambda>_. miner_GetBasePledge S d)) (\<lambda>basePledge.
     bindM (readM (\<lambda>v. case tip of None \<Rightarrow> Inr (CompactToBig (gBits v)) | Some b \<Rightarrow> derefBig (GlobalDifficulty b))) (\<lambda>newGlobal.
     bindM (liftE (NextMinerDifficulty newGlobal 0 basePledge)) (\<lambda>newLocal.
     thenM (modM (\<lambda>v. v\<lparr>gBits := BigToCompact newGlobal, lBits := BigToCompact newLocal\<rparr>))
     (retM tip)))))"

text \<open>The used times of the last \<open>n\<close> blocks, found by their hashes.\<close>

fun usedTimeBack :: "('d, 't, 's, 'z) sys_scheme \<Rightarrow> 'd \<Rightarrow> nat \<Rightarrow> bytes \<Rightarrow> err + u64" where
  "usedTimeBack S d 0 hash = Inr 0"
| "usedTimeBack S d (Suc n) hash =
     bindE (getBlockByHash S d hash) (\<lambda>ob. bindE (usedTimeBack S d n (PrevHash ob)) (\<lambda>r. Inr (UsedTime ob + r)))"

definition calcNextRequiredDifficulty :: "('d, 't, 's, 'z) sys_scheme \<Rightarrow> u64 \<Rightarrow> 'd \<Rightarrow> (bits, unit) M" where
  "calcNextRequiredDifficulty S Cycle d =
     bindM (UpdateDifficultyFromLastBlock S d) (\<lambda>tip.
     case tip of
       None \<Rightarrow> retM ()
     | Some b \<Rightarrow>
        if \<not> 1 < Height b then retM ()
        else if Cycle = 0 then raiseM (Panic ''integer divide by zero'')
        else if (Height b - 1) mod Cycle \<noteq> 0 then retM ()
        else
          bindM (liftE (usedTimeBack S d 10 (Hash b))) (\<lambda>subTime.
          bindM (readM (\<lambda>v. Inr (CalcNextGlobalRequiredDifficulty 0 subTime (gBits v)))) (\<lambda>newGlobalBits.
          bindM (liftE (getBasePledge S (kv_new (KV S) d))) (\<lambda>basePledge.
          bindM (liftE (NextMinerDifficulty (CompactToBig newGlobalBits) 0 basePledge)) (\<lambda>newLocal.
          modM (\<lambda>v. v\<lparr>gBits := newGlobalBits, lBits := BigToCompact newLocal\<rparr>))))))"

section \<open>Mining\<close>

text \<open>The ranges of the workers: worker \<open>i\<close> of \<open>cpuNum\<close>.\<close>

definition sectionNum :: "u64 \<Rightarrow> u64" where "sectionNum cpuNum = MAXUINT64 div cpuNum"

definition section_bounds :: "u64 \<Rightarrow> u64 \<Rightarrow> u64 \<times> u64" where
  "section_bounds cpuNum i = (i * sectionNum cpuNum, (i + 1) * sectionNum cpuNum)"

text \<open>
  A worker up to its first find; then it hands the block over and the other workers are stopped. The hash
  is \<^const>\<open>workHash\<close>: \<open>pkg/miner/hash\<close> holds the same code as \<open>pkg/util/difficulty/hash\<close>.
\<close>

fun mine_range :: "('d, 't, 's, 'z) sys_scheme \<Rightarrow> (int \<Rightarrow> bool) \<Rightarrow> Block \<Rightarrow> int \<Rightarrow> nat \<Rightarrow> u64 \<Rightarrow> err + Block option" where
  "mine_range S probablyPrime b target 0 i = Inr None"
| "mine_range S probablyPrime b target (Suc n) i =
     (let b1 = b\<lparr>b_Nonce := i, Difficulty := Some target\<rparr> in
      bindE (workHash S probablyPrime (MinerHash S b1)) (\<lambda>h.
      if HashToBig h < target then Inr (Some b1) else mine_range S probablyPrime b target n (i + 1)))"

definition sectionCalcDifficulty ::
    "('d, 't, 's, 'z) sys_scheme \<Rightarrow> (int \<Rightarrow> bool) \<Rightarrow> Block \<Rightarrow> u64 \<Rightarrow> u64 \<Rightarrow> int \<Rightarrow> err + Block option" where
  "sectionCalcDifficulty S probablyPrime b start fin target =
     mine_range S probablyPrime b target (unat fin - unat start) start"

text \<open>What \<open>KtocoinMiner\<close> does to a mined block before it is processed; \<open>t\<close> is the time since the last block.\<close>

definition finish_mined :: "('d, 't, 's, 'z) sys_scheme \<Rightarrow> bits \<Rightarrow> int \<Rightarrow> Block \<Rightarrow> err + Block" where
  "finish_mined S v t b =
     (let b1 = b\<lparr>Difficulty := Some (CompactToBig (lBits v)), GlobalDifficulty := Some (CompactToBig (gBits v))\<rparr>;
          b2 = (if 0 < t then b1\<lparr>UsedTime := word_of_int t\<rparr> else b1)
      in (case SetHash S b2 of (Inl e, b3) \<Rightarrow> Inl e | (Inr u, b3) \<Rightarrow> Inr b3))"

section \<open>The compact form is stable\<close>

lemma nbytes_eqI: "256 ^ j \<le> n \<Longrightarrow> n < 256 ^ Suc j \<Longrightarrow> nbytes n = Suc j"
proof -
  assume a: "256 ^ j \<le> n" "n < 256 ^ Suc j"
  have "(0 :: nat) < 256 ^ j" by simp
  then have "0 < n" using a(1) by linarith
  note b = be_bytes_bounds [OF this]
  have "(256 :: nat) ^ (nbytes n - 1) < 256 ^ Suc j" "(256 :: nat) ^ j < 256 ^ nbytes n" using a b by linarith+
  then have "nbytes n - 1 < Suc j" "j < nbytes n" by (simp_all only: power_strict_increasing_iff)
  then show "nbytes n = Suc j" by linarith
qed

lemma packed_again:
  assumes "0 < k" and "2 ^ 15 \<le> m" and "m < 2 ^ 23"
  shows "cexp (m * 256 ^ k) = k + 3 \<and> cmant (m * 256 ^ k) = m"
proof (cases "2 ^ 16 \<le> m")
  case True
  have "256 ^ (k + 2) = 2 ^ 16 * (256 :: nat) ^ k" "256 ^ Suc (k + 2) = 2 ^ 24 * (256 :: nat) ^ k" by (simp_all add: power_add)
  moreover have "2 ^ 16 * 256 ^ k \<le> m * 256 ^ k" using True by (intro mult_le_mono1)
  moreover have "m * 256 ^ k < 2 ^ 24 * 256 ^ k" using assms(3) by (intro mult_less_mono1) simp_all
  ultimately have "nbytes (m * 256 ^ k) = Suc (k + 2)" by (intro nbytes_eqI) simp_all
  then show ?thesis using assms by (simp add: cexp_def cmant_def mant0_def)
next
  case False
  have "256 ^ (k + 1) = 256 * (256 :: nat) ^ k" "256 ^ Suc (k + 1) = 2 ^ 16 * (256 :: nat) ^ k" by simp_all
  moreover have "256 * 256 ^ k \<le> m * 256 ^ k" using assms(2) by (intro mult_le_mono1) simp
  moreover have "m * 256 ^ k < 2 ^ 16 * 256 ^ k" using False by (intro mult_less_mono1) simp_all
  ultimately have nb: "nbytes (m * 256 ^ k) = Suc (k + 1)" by (intro nbytes_eqI) simp_all
  have "mant0 (m * 256 ^ k) = m * 256"
  proof (cases "k = 1")
    case False
    then obtain j where "k = Suc j" "0 < j" using assms(1) by (cases k) auto
    then show ?thesis using nb by (simp add: mant0_def)
  qed (use nb in \<open>simp add: mant0_def\<close>)
  then show ?thesis using nb assms(2) by (simp add: cexp_def cmant_def)
qed

lemma compact_stable_pos:
  assumes "0 < n" and "cexp n < 256"
  shows "BigToCompact (CompactToBig (BigToCompact (int n))) = BigToCompact (int n)"
proof -
  note c = cmant_bounds [OF assms(1)] and b = be_bytes_bounds [OF assms(1)]
  have v: "CompactToBig (BigToCompact (int n))
           = int (if cexp n \<le> 3 then cmant n div 256 ^ (3 - cexp n) else cmant n * 256 ^ (cexp n - 3))"
    using c assms(2) unfolding BigToCompact_pos [OF assms(1)]
    by (intro CompactToBig_unat compact_pack) simp_all
  show ?thesis
  proof (cases "cexp n \<le> 3")
    case True
    then consider "nbytes n = 1" | "nbytes n = 2" | "nbytes n = 3" "mant0 n < 2 ^ 23"
      using b(3) unfolding cexp_def by (auto split: if_splits) linarith+
    then have "cmant n div 256 ^ (3 - cexp n) = n"
      by cases (auto simp: cmant_def cexp_def mant0_def)
    then show ?thesis using v True by simp
  next
    case False
    define k where "k = cexp n - 3"
    have k: "0 < k" "cexp n = k + 3" using False by (simp_all add: k_def)
    note p = packed_again [OF k(1), of "cmant n"]
    have "0 < cmant n * 256 ^ k" using c by simp
    from BigToCompact_pos [OF this] BigToCompact_pos [OF assms(1)] p c k v False
    show ?thesis by (simp flip: k_def)
  qed
qed

lemma compact_stable:
  assumes "0 \<le> n" and "n < 256 ^ 254"
  shows "BigToCompact (CompactToBig (BigToCompact n)) = BigToCompact n"
proof (cases "n = 0")
  case True
  then show ?thesis by (simp add: BigToCompact_def CompactToBig_def)
next
  case False
  define m where "m = nat n"
  have "n = int m" "0 < m" "m < 256 ^ 254" using False assms by (simp_all add: m_def nat_less_iff)
  then show ?thesis using compact_stable_pos [OF _ cexp_bound] by simp
qed

section \<open>The miner and the check of a block\<close>

lemma miner_GetBasePledge_eq: "miner_GetBasePledge S d = getBasePledge S (kv_new (KV S) d)"
  by (simp add: miner_GetBasePledge_def getBasePledge_def)

lemma Tip_tx:
  assumes "Tip S d = Inr tip" and "0 < Height tip" and "getMaxBlockHeight S d = Inr (Height tip)"
  shows "getMaxBlockHeight_tx S (kv_new (KV S) d) = Inr (Height tip)"
    and "getBlockByHeight_tx S (kv_new (KV S) d) (Height tip) = Inr tip"
proof -
  show "getMaxBlockHeight_tx S (kv_new (KV S) d) = Inr (Height tip)"
    using assms(3) by (simp add: getMaxBlockHeight_def getMaxBlockHeight_tx_def bgStore_Get_def)
  have "\<not> Height tip < 1" using assms(2) word_less_1 by auto
  then show "getBlockByHeight_tx S (kv_new (KV S) d) (Height tip) = Inr tip"
    using assms(1,3) by (simp add: Tip_def getBlockByHeight_tx_def getHash_def bgStore_Get_def monad_simps)
qed

text \<open>The blocks of the last heights are those that the previous hashes lead to.\<close>

fun linked :: "('d, 't, 's, 'z) sys_scheme \<Rightarrow> 'd \<Rightarrow> nat \<Rightarrow> u64 \<Rightarrow> bytes \<Rightarrow> bool" where
  "linked S d 0 h hash = True"
| "linked S d (Suc n) h hash =
     (\<exists>b. getBlockByHash S d hash = Inr b \<and> getBlockByHeight_tx S (kv_new (KV S) d) h = Inr b \<and> linked S d n (h - 1) (PrevHash b))"

lemma linked_sums: "linked S d n h hash \<Longrightarrow> sumUsedTime S (kv_new (KV S) d) h n = usedTimeBack S d n hash"
  by (induction n arbitrary: h hash) (auto simp: monad_simps)

lemma linked_returns: "linked S d n h hash \<Longrightarrow> \<exists>x. usedTimeBack S d n hash = Inr x"
proof (induction n arbitrary: h hash)
  case (Suc n)
  then obtain b where "getBlockByHash S d hash = Inr b" "linked S d n (h - 1) (PrevHash b)" by auto
  then show ?case using Suc.IH by (fastforce simp: monad_simps)
qed simp

lemma retarget_cond: "h \<noteq> 0 \<Longrightarrow> (1 < h \<and> (h - 1) mod 10 = 0) = (h \<noteq> 1 \<and> (h :: u64) mod 10 = 1)"
proof -
  assume "h \<noteq> 0"
  then have u: "0 < unat h" by (simp add: unat_gt_0)
  have m: "unat (h - 1) = unat h - 1" using \<open>h \<noteq> 0\<close> by (simp add: unat_minus_one)
  have "(h - 1) mod 10 = 0 \<longleftrightarrow> (unat h - 1) mod 10 = 0" "h mod 10 = 1 \<longleftrightarrow> unat h mod 10 = 1"
    by (simp_all add: word_unat_eq_iff unat_mod m)
  moreover have "(unat h - 1) mod 10 = 0 \<longleftrightarrow> unat h mod 10 = 1" using u by presburger
  moreover have "1 < h \<longleftrightarrow> h \<noteq> 1" using u by (auto simp: word_less_nat_alt word_unat_eq_iff)
  ultimately show ?thesis by simp
qed

lemma NextMiner_range:
  "NextMinerDifficulty g p bp = Inr t \<Longrightarrow> g \<le> t \<and> t \<le> g * 10"
  by (auto simp: NextMinerDifficulty_def Let_def split: if_splits)

text \<open>The second part of the recalculation, with the cycle of ten blocks.\<close>

definition retarget :: "('d, 't, 's, 'z) sys_scheme \<Rightarrow> 'd \<Rightarrow> u64 \<Rightarrow> Block \<Rightarrow> (bits, unit) M" where
  "retarget S d bp b =
     (if 1 < Height b \<and> (Height b - 1) mod 10 = 0 then
        bindM (liftE (usedTimeBack S d 10 (Hash b))) (\<lambda>subTime.
        bindM (readM (\<lambda>v. Inr (CalcNextGlobalRequiredDifficulty 0 subTime (gBits v)))) (\<lambda>newGlobalBits.
        bindM (liftE (NextMinerDifficulty (CompactToBig newGlobalBits) 0 bp)) (\<lambda>newLocal.
        modM (\<lambda>v. v\<lparr>gBits := newGlobalBits, lBits := BigToCompact newLocal\<rparr>))))
      else retM ())"

lemma calcNext_split:
  assumes "calcNextRequiredDifficulty S 10 d v = (Inr (), v')" and "Tip S d = Inr tip" and "GlobalDifficulty tip = Some g"
  obtains bp m where "getBasePledge S (kv_new (KV S) d) = Inr bp" and "NextMinerDifficulty g 0 bp = Inr m"
    and "retarget S d bp tip (v\<lparr>gBits := BigToCompact g, lBits := BigToCompact m\<rparr>) = (Inr (), v')"
proof -
  have ten: "((10 :: u64) = 0) = False" by simp
  show thesis
    using assms that
    by (cases "getBasePledge S (kv_new (KV S) d)"; cases "NextMinerDifficulty g 0 (projr (getBasePledge S (kv_new (KV S) d)))")
      (auto simp: calcNextRequiredDifficulty_def UpdateDifficultyFromLastBlock_def retarget_def miner_GetBasePledge_eq ten
        bindM_def thenM_def readM_def liftE_def modM_def retM_def derefBig_def split: if_splits)
qed

text \<open>The targets a miner sets out with, and the global target that a node computes for the next block.\<close>

definition window_ok :: "('d, 't, 's, 'z) sys_scheme \<Rightarrow> 'd \<Rightarrow> Block \<Rightarrow> bool" where
  "window_ok S d tip \<longleftrightarrow> (Height tip \<noteq> 1 \<and> Height tip mod 10 = 1 \<longrightarrow>
     linked S d 10 (Height tip) (Hash tip) \<and> (\<forall>x. usedTimeBack S d 10 (Hash tip) = Inr x \<longrightarrow> 0 \<le> sint x))"

lemma miner_bits:
  assumes "Tip S d = Inr tip" and "0 < Height tip" and "getMaxBlockHeight S d = Inr (Height tip)"
    and "GlobalDifficulty tip = Some g" and "0 \<le> g" and "g < 256 ^ 253" and w: "window_ok S d tip"
    and run: "calcNextRequiredDifficulty S 10 d v = (Inr (), v')"
  shows "\<exists>gd bp m. updateDifficulty S (kv_new (KV S) d) (Height tip) = Inr (Some gd) \<and>
    getBasePledge S (kv_new (KV S) d) = Inr bp \<and> NextMinerDifficulty gd 0 bp = Inr m \<and>
    0 \<le> gd \<and> gd < 256 ^ 253 \<and> BigToCompact (CompactToBig (gBits v')) = BigToCompact gd \<and> lBits v' = BigToCompact m"
proof -
  let ?t = "kv_new (KV S) d"
  note tx = Tip_tx [OF assms(1-3)]
  have h0: "Height tip \<noteq> 0" using assms(2) by auto
  obtain bp m where bp: "getBasePledge S ?t = Inr bp" and m: "NextMinerDifficulty g 0 bp = Inr m"
    and rest: "retarget S d bp tip (v\<lparr>gBits := BigToCompact g, lBits := BigToCompact m\<rparr>) = (Inr (), v')"
    using run assms(1,4) by (rule calcNext_split)
  have upd: "updateDifficulty S ?t (Height tip) =
      (if Height tip \<noteq> 1 \<and> Height tip mod 10 = 1 then
         bindE (usedTimeBack S d 10 (Hash tip)) (\<lambda>x. Inr (Some (CompactToBig (CalcNextGlobalRequiredDifficulty 0 x (BigToCompact g)))))
       else Inr (Some g))"
    using tx w linked_sums [of S d 10 "Height tip" "Hash tip"] assms(4) by (simp add: window_ok_def updateDifficulty_def monad_simps derefBig_def)
  show ?thesis
  proof (cases "Height tip \<noteq> 1 \<and> Height tip mod 10 = 1")
    case False
    then have "v' = v\<lparr>gBits := BigToCompact g, lBits := BigToCompact m\<rparr>"
      using rest retarget_cond [OF h0] by (auto simp: retarget_def retM_ok split: if_splits)
    moreover have "BigToCompact (CompactToBig (BigToCompact g)) = BigToCompact g"
      using assms(5,6) by (intro compact_stable) simp_all
    ultimately show ?thesis using upd False bp m assms(5,6) by auto
  next
    case True
    obtain x where x: "usedTimeBack S d 10 (Hash tip) = Inr x" using linked_returns [of S d 10 "Height tip" "Hash tip"] w True by (auto simp: window_ok_def)
    define c where "c = CalcNextGlobalRequiredDifficulty 0 x (BigToCompact g)"
    obtain m2 where m2: "NextMinerDifficulty (CompactToBig c) 0 bp = Inr m2" and v': "gBits v' = c" "lBits v' = BigToCompact m2"
      using rest True retarget_cond [OF h0] x bp
      by (auto simp: retarget_def c_def monad_ok split: if_splits)
    define n where "n = min powLimit (CompactToBig (BigToCompact g) * sint x div 100)"
    have c: "c = BigToCompact n"
      by (simp add: c_def n_def CalcNextGlobalRequiredDifficulty_def Let_def min_def not_less) 
    have "0 \<le> CompactToBig (BigToCompact g)" using compact_round [of g] assms(5,6) by (simp add: Let_def)
    then have n: "0 \<le> n" "n \<le> powLimit" using w True x by (auto simp: window_ok_def n_def powLimit_def pos_imp_zdiv_nonneg_iff)
    then have "0 \<le> CompactToBig c \<and> CompactToBig c \<le> n"
      using compact_round [of n] unfolding c by (simp add: Let_def powLimit_def)
    then have "0 \<le> CompactToBig c" "CompactToBig c < 256 ^ 253" using n(2) by (simp_all add: powLimit_def)
    then show ?thesis using upd True x bp m2 v' by (simp add: monad_simps flip: c_def)
  qed
qed

lemma miner_targets_accepted:
  assumes "Tip S (db c) = Inr tip" and "0 < Height tip" and "getMaxBlockHeight S (db c) = Inr (Height tip)"
    and "GlobalDifficulty tip = Some g" and "0 \<le> g" and "g < 256 ^ 253" and "window_ok S (db c) tip"
    and "txSnapRoot S (kv_new (KV S) (db c)) = Inr rt" and "state_New (SD S) rt (db c) = Inr st"
    and "calcNextRequiredDifficulty S 10 (db c) v = (Inr (), v')"
    and "Height b = Height tip + 1" and "Difficulty b = Some (CompactToBig (lBits v'))"
    and "GlobalDifficulty b = Some (CompactToBig (gBits v'))"
  shows "DifficultDetection S probablyPrime c b =
    bindE (workHash S probablyPrime (MinerHash S b)) (\<lambda>h.
    if CompactToBig (lBits v') \<le> HashToBig h then Inl (Err ''incorrect difficulty'') else Inr ())"
proof -
  obtain gd bp m where u: "updateDifficulty S (kv_new (KV S) (db c)) (Height tip) = Inr (Some gd)"
    "getBasePledge S (kv_new (KV S) (db c)) = Inr bp" "NextMinerDifficulty gd 0 bp = Inr m"
    and r: "0 \<le> gd" "gd < 256 ^ 253" and g: "BigToCompact (CompactToBig (gBits v')) = BigToCompact gd"
    and l: "lBits v' = BigToCompact m"
    using miner_bits [OF assms(1-7,10)] by blast
  have "0 \<le> m \<and> m < 256 ^ 254" using NextMiner_range [OF u(3)] r by auto
  then have "BigToCompact (CompactToBig (lBits v')) = BigToCompact m" unfolding l by (intro compact_stable) simp_all
  then show ?thesis
    using u g assms(8,9,11-13) by (simp add: DifficultDetection_def difficultDetection_def derefBig_def monad_simps)
qed

text \<open>
  C15.
  A block with the height after the tip that carries the targets the miner computes after the tip
  passes \<open>DifficultDetection\<close> exactly when the hash of its header lies below the local target: the
  miner reads the last blocks by their hashes and keeps the targets in the compact form, a node reads
  them by height and computes with the exact targets, and the two agree (for a cycle of ten blocks,
  when the previous hashes of the last ten blocks name the blocks of the index).
\<close>

theorem miner_meets_verifier:
  assumes "Tip S (db c) = Inr tip" and "0 < Height tip" and "getMaxBlockHeight S (db c) = Inr (Height tip)"
    and "GlobalDifficulty tip = Some g" and "0 \<le> g" and "g < 256 ^ 253" and "window_ok S (db c) tip"
    and "txSnapRoot S (kv_new (KV S) (db c)) = Inr rt" and "state_New (SD S) rt (db c) = Inr st"
    and "calcNextRequiredDifficulty S 10 (db c) v = (Inr (), v')"
    and "Height b = Height tip + 1" and "Difficulty b = Some (CompactToBig (lBits v'))"
    and "GlobalDifficulty b = Some (CompactToBig (gBits v'))"
  shows "DifficultDetection S probablyPrime c b =
    bindE (workHash S probablyPrime (MinerHash S b)) (\<lambda>h.
    if CompactToBig (lBits v') \<le> HashToBig h then Inl (Err ''incorrect difficulty'') else Inr ())"
  using assms by (rule miner_targets_accepted)

lemma mine_range_found:
  "mine_range S probablyPrime b target n i = Inr (Some b1) \<Longrightarrow>
     \<exists>j h. b1 = b\<lparr>b_Nonce := j, Difficulty := Some target\<rparr> \<and> workHash S probablyPrime (MinerHash S b1) = Inr h \<and> HashToBig h < target"
  by (induction n arbitrary: i) (auto simp: Let_def bindE_ok split: if_splits)

lemma finish_mined_header:
  assumes "finish_mined S v t b = Inr b2"
  shows "Height b2 = Height b \<and> MinerHash S b2 = MinerHash S b \<and>
    Difficulty b2 = Some (CompactToBig (lBits v)) \<and> GlobalDifficulty b2 = Some (CompactToBig (gBits v))"
  using assms by (auto simp: finish_mined_def SetHash_def Let_def MinerHash_def miner_preimage_def split: sum.splits prod.splits if_splits)

text \<open>What a worker finds in its range passes the check of the node after it is completed.\<close>

lemma mined_block_accepted:
  assumes "Tip S (db c) = Inr tip" and "0 < Height tip" and "getMaxBlockHeight S (db c) = Inr (Height tip)"
    and "GlobalDifficulty tip = Some g" and "0 \<le> g" and "g < 256 ^ 253" and "window_ok S (db c) tip"
    and "txSnapRoot S (kv_new (KV S) (db c)) = Inr rt" and "state_New (SD S) rt (db c) = Inr st"
    and "calcNextRequiredDifficulty S 10 (db c) v = (Inr (), v')"
    and "Height b = Height tip + 1"
    and mined: "sectionCalcDifficulty S probablyPrime b start fin (CompactToBig (lBits v')) = Inr (Some b1)"
    and fin: "finish_mined S v' t b1 = Inr b2"
  shows "DifficultDetection S probablyPrime c b2 = Inr ()"
proof -
  obtain j h where b1: "b1 = b\<lparr>b_Nonce := j, Difficulty := Some (CompactToBig (lBits v'))\<rparr>"
    and h: "workHash S probablyPrime (MinerHash S b1) = Inr h" "HashToBig h < CompactToBig (lBits v')"
    using mine_range_found [OF mined [unfolded sectionCalcDifficulty_def]] by blast
  note f = finish_mined_header [OF fin]
  have "Height b2 = Height tip + 1" using f b1 assms(11) by simp
  from miner_targets_accepted [OF assms(1-10) this, of probablyPrime] f h show ?thesis by (simp add: monad_simps)
qed

section \<open>An example\<close>

definition demo_hard :: Block where
  "demo_hard = demo_settled\<lparr>GlobalDifficulty := Some 1000\<rparr>"

lemma demo_hard_simps [simp]: "Height demo_hard = 60350423" "Hash demo_hard = replicate 32 1" "GlobalDifficulty demo_hard = Some 1000"
  by (simp_all add: demo_hard_def)

lemma demo_hard_stored: "\<exists>dat. Serialize demo_sys demo_hard = Inr dat \<and> Deserialize demo_sys dat = Inr demo_hard"
proof -
  have "length (big_Bytes 1000) \<le> 2" by (rule length_big_Bytes; simp)+
  then have "block_wf demo_hard"
    by (auto simp: block_wf_def demo_hard_def demo_settled_def demo_next_def demo_block_def valid_addr_def Protocol_def sigtype_defs)
  then show ?thesis by (rule demo_cbor.block_rt)
qed

lemma demo_target: "NextMinerDifficulty 1000 0 1200000000000000 = Inr 1000"
proof -
  have "fround p 1000 = 1000" if "53 \<le> p" for p
  proof -
    have "(2 :: int) ^ 53 \<le> 2 ^ p" using that by (intro power_increasing) simp_all
    then have "(1000 :: int) \<le> 2 ^ p" by simp
    then show ?thesis using fround_between [of 1000 0 1000 1000 p] that by (simp add: pow2_def)
  qed
  moreover have "fround 64 0 = 0" using fround_between [of 0 0 0 0 64] by simp
  ultimately show ?thesis by (simp add: NextMinerDifficulty_def Float_Int_def)
qed

lemma demo_tip:
  assumes "Deserialize demo_sys dat = Inr demo_hard" and "d = demo_added_db dat"
  shows "Tip demo_sys d = Inr demo_hard" "getMaxBlockHeight demo_sys d = Inr 60350423"
    "txSnapRoot demo_sys (kv_new mem_kv d) = Inr (pad_block 32 (replicate 20 1 @ E64func 9000000))"
    "calcNextRequiredDifficulty demo_sys 10 d v = (Inr (), v\<lparr>gBits := BigToCompact 1000, lBits := BigToCompact 1000\<rparr>)"
proof -
  have ks: "heightKeyOf 60350423 \<noteq> heightKeyOf 60350422" "heightKeyOf 60350423 \<noteq> snapKeyOf 60350422"
    "(replicate 32 1 :: bytes) \<noteq> replicate 32 5" by (simp_all add: heightKeyOf_def snapKeyOf_def replicate_eq_replicate)
  have h: "getMaxBlockHeight demo_sys d = Inr 60350423" using assms(2) by (simp add: demo_added_db_def getMaxBlockHeight_def demo_get)
  have tip: "Tip demo_sys d = Inr demo_hard"
    using h ks assms demo_index_keys demo_index_keys(5-8) [symmetric]
    by (simp add: Tip_def getHash_def demo_get monad_simps demo_added_db_def)
  have "getMaxBlockHeight_tx demo_sys (kv_new mem_kv d) = Inr 60350423"
    using h by (simp add: getMaxBlockHeight_def getMaxBlockHeight_tx_def bgStore_Get_def)
  from network_supply_bounds [OF this] have bp: "getBasePledge demo_sys (kv_new mem_kv d) = Inr 1200000000000000" by auto
  show "txSnapRoot demo_sys (kv_new mem_kv d) = Inr (pad_block 32 (replicate 20 1 @ E64func 9000000))"
    using assms(2) by (simp add: txSnapRoot_def bg_get_def mem_defs demo_added_db_def demo_env_def)
  show "calcNextRequiredDifficulty demo_sys 10 d v = (Inr (), v\<lparr>gBits := BigToCompact 1000, lBits := BigToCompact 1000\<rparr>)"
    using tip bp demo_target
    by (simp add: calcNextRequiredDifficulty_def UpdateDifficultyFromLastBlock_def miner_GetBasePledge_eq derefBig_def monad_simps)
  show "Tip demo_sys d = Inr demo_hard" "getMaxBlockHeight demo_sys d = Inr 60350423" by (fact tip, fact h)
qed

theorem miner_meets_verifier_witness:
  "\<exists>d v'. calcNextRequiredDifficulty demo_sys 10 d \<lparr>gBits = 0, lBits = 0\<rparr> = (Inr (), v') \<and>
     DifficultDetection demo_sys (\<lambda>_. True) (demo_chain\<lparr>db := d\<rparr>)
       (demo_next\<lparr>Height := 60350424, Difficulty := Some (CompactToBig (lBits v')), GlobalDifficulty := Some (CompactToBig (gBits v'))\<rparr>) =
     bindE (workHash demo_sys (\<lambda>_. True) (MinerHash demo_sys (demo_next\<lparr>Height := 60350424,
       Difficulty := Some (CompactToBig (lBits v')), GlobalDifficulty := Some (CompactToBig (gBits v'))\<rparr>))) (\<lambda>h.
     if CompactToBig (lBits v') \<le> HashToBig h then Inl (Err ''incorrect difficulty'') else Inr ())"
proof -
  obtain dat where dat: "Deserialize demo_sys dat = Inr demo_hard" using demo_hard_stored by blast
  define d where "d = demo_added_db dat"
  define v' :: bits where "v' = \<lparr>gBits = BigToCompact 1000, lBits = BigToCompact 1000\<rparr>"
  note t = demo_tip [OF dat d_def]
  have run: "calcNextRequiredDifficulty demo_sys 10 d \<lparr>gBits = 0, lBits = 0\<rparr> = (Inr (), v')" by (simp add: t v'_def)
  have "window_ok demo_sys d demo_hard" by (simp add: window_ok_def)
  moreover have "state_New (SD demo_sys) (pad_block 32 (replicate 20 1 @ E64func 9000000)) d = Inr ([], [])" by (simp add: mem_sdb_def)
  ultimately show ?thesis
    using miner_meets_verifier [of demo_sys "demo_chain\<lparr>db := d\<rparr>" demo_hard 1000] t run by fastforce
qed

section \<open>The ranges of the workers\<close>

lemma section_bounds_unat:
  assumes "i < cpuNum"
  shows "unat (fst (section_bounds cpuNum i)) = unat i * unat (sectionNum cpuNum)"
    and "unat (snd (section_bounds cpuNum i)) = (unat i + 1) * unat (sectionNum cpuNum)"
proof -
  let ?q = "unat (sectionNum cpuNum)"
  have q: "?q = (2 ^ 64 - 1) div unat cpuNum" by (simp add: sectionNum_def MAXUINT64_def unat_div unsigned_minus_1_eq_mask mask_eq_exp_minus_1)
  have i: "unat i + 1 \<le> unat cpuNum" using assms by (simp add: word_less_nat_alt)
  then have "(unat i + 1) * ?q \<le> unat cpuNum * ?q" by (intro mult_le_mono1)
  also have "\<dots> \<le> 2 ^ 64 - 1" unfolding q by (rule times_div_less_eq_dividend)
  finally have b: "(unat i + 1) * ?q \<le> 2 ^ 64 - 1" .
  have "unat cpuNum < 18446744073709551616" using unsigned_less [of cpuNum, where ?'a = nat] by simp
  then have i1: "unat (i + 1) = unat i + 1" using i unat_plus_u64 [of i 1] by simp
  have "unat i * ?q \<le> (unat i + 1) * ?q" by (intro mult_le_mono1) simp
  then have "unat i * ?q < 2 ^ 64" "unat (i + 1) * ?q < 2 ^ 64" using b i1 by simp_all
  then show "unat (fst (section_bounds cpuNum i)) = unat i * ?q" "unat (snd (section_bounds cpuNum i)) = (unat i + 1) * ?q"
    using i1 by (simp_all add: section_bounds_def unat_mult_lem [THEN iffD1])
qed

text \<open>No nonce is tried by two workers, and those below \<open>cpuNum * sectionNum\<close> are tried by one.\<close>

lemma sections_partition:
  assumes "unat n < unat cpuNum * unat (sectionNum cpuNum)"
  shows "\<exists>!i. i < cpuNum \<and> fst (section_bounds cpuNum i) \<le> n \<and> n < snd (section_bounds cpuNum i)"
proof -
  let ?q = "unat (sectionNum cpuNum)"
  have q: "0 < ?q" using assms by (cases "?q = 0") auto
  have range: "fst (section_bounds cpuNum i) \<le> n \<and> n < snd (section_bounds cpuNum i) \<longleftrightarrow> unat n div ?q = unat i" if "i < cpuNum" for i
    using section_bounds_unat [OF that] q less_eq_div_iff_mult_less_eq [of ?q "unat i" "unat n"]
      div_less_iff_less_mult [of ?q "unat n" "unat i + 1"]
    by (auto simp: word_le_nat_alt word_less_nat_alt)
  have d: "unat n div ?q < unat cpuNum" using assms q by (simp add: div_less_iff_less_mult)
  define i where "i = (of_nat (unat n div ?q) :: u64)"
  have "unat i = unat n div ?q" using d unsigned_less [of cpuNum, where ?'a = nat] by (simp add: i_def unsigned_of_nat take_bit_nat_eq_self)
  then have "i < cpuNum" "unat n div ?q = unat i" using d by (simp_all add: word_less_nat_alt)
  then show ?thesis using range by (intro ex1I [of _ i]) (auto simp: word_unat_eq_iff dest!: range [symmetric])
qed

section \<open>Client connections\<close>

text \<open>The connection is of a library; \<open>dial\<close> stands for \<open>grpc.Dial\<close>.\<close>

record 'c clientInfo =
  ci_c :: 'c
  ci_num :: int

record 'c cpool =
  Cap :: int
  Len :: int
  p_m :: "string \<rightharpoonup> 'c clientInfo"

definition newPool :: "'c cpool" where
  "newPool = \<lparr>Cap = 5, Len = 0, p_m = Map.empty\<rparr>"

text \<open>The loop of \<open>updatePool\<close> over the map, in the order of \<open>ks\<close>.\<close>

fun scanPool :: "(string \<rightharpoonup> 'c clientInfo) \<Rightarrow> string list \<Rightarrow> string list \<Rightarrow> string \<Rightarrow> int \<Rightarrow> string list \<times> string" where
  "scanPool m [] delKeyList minK minNum = (delKeyList, minK)"
| "scanPool m (k # ks) delKeyList minK minNum =
     (case m k of
        None \<Rightarrow> scanPool m ks delKeyList minK minNum
      | Some v \<Rightarrow> if ci_num v = 0 then scanPool m ks (delKeyList @ [k]) minK minNum
                  else if ci_num v < minNum then scanPool m ks delKeyList k (ci_num v)
                  else scanPool m ks delKeyList minK minNum)"

definition dropKey :: "string \<Rightarrow> 'c cpool \<Rightarrow> 'c cpool" where
  "dropKey k p = p\<lparr>p_m := (p_m p)(k := None), Len := Len p - 1\<rparr>"

text \<open>\<open>make([]string, p.Len)\<close> is a slice of \<open>p.Len\<close> empty strings.\<close>

definition updatePool :: "string list \<Rightarrow> 'c cpool \<Rightarrow> err + 'c cpool" where
  "updatePool ks p =
     (if Len p < 0 then Inl (Panic ''makeslice: len out of range'')
      else let (delKeyList, minK) = scanPool (p_m p) ks (replicate (nat (Len p)) []) [] 2147483647;
               p1 = fold dropKey delKeyList p
           in Inr (if Cap p1 \<le> Len p1 then dropKey minK p1 else p1))"

definition GetClient :: "(string \<Rightarrow> err + 'c) \<Rightarrow> string list \<Rightarrow> string \<Rightarrow> 'c cpool \<Rightarrow> err + 'c \<times> 'c cpool" where
  "GetClient dial ks url p =
     (case p_m p url of
        Some v \<Rightarrow> Inr (ci_c v, p\<lparr>p_m := (p_m p)(url \<mapsto> v\<lparr>ci_num := ci_num v + 1\<rparr>)\<rparr>)
      | None \<Rightarrow>
          bindE (dial url) (\<lambda>cc.
          bindE (if Len p < Cap p then Inr p else updatePool ks p) (\<lambda>p1.
          Inr (cc, p1\<lparr>p_m := (p_m p1)(url \<mapsto> \<lparr>ci_c = cc, ci_num = 1\<rparr>), Len := Len p1 + 1\<rparr>))))"

text \<open>The second result: the connection is closed.\<close>

definition PutClient :: "string \<Rightarrow> 'c \<Rightarrow> 'c cpool \<Rightarrow> 'c cpool \<times> bool" where
  "PutClient url cc p =
     (case p_m p url of
        Some v \<Rightarrow> (p\<lparr>p_m := (p_m p)(url \<mapsto> v\<lparr>ci_num := ci_num v - 1\<rparr>)\<rparr>, False)
      | None \<Rightarrow> if Len p < Cap p then (p\<lparr>p_m := (p_m p)(url \<mapsto> \<lparr>ci_c = cc, ci_num = 0\<rparr>)\<rparr>, False) else (p, True))"

lemma scan_busy:
  "(\<forall>k v. m k = Some v \<longrightarrow> ci_num v \<noteq> 0) \<Longrightarrow> fst (scanPool m ks dl minK minNum) = dl"
  by (induction ks arbitrary: minK minNum) (auto split: option.splits)

lemma drop_empty_keys:
  "p_m p [] = None \<Longrightarrow> fold dropKey (replicate n []) p = p\<lparr>Len := Len p - int n\<rparr>"
proof (induction n arbitrary: p)
  case (Suc n)
  then have "dropKey [] p = p\<lparr>Len := Len p - 1\<rparr>" by (simp add: dropKey_def fun_upd_idem)
  then show ?case using Suc by (simp add: algebra_simps)
qed simp

lemma updatePool_busy:
  assumes "0 \<le> Len p" and "0 < Cap p" and "p_m p [] = None" and "\<forall>k v. p_m p k = Some v \<longrightarrow> ci_num v \<noteq> 0"
  shows "updatePool ks p = Inr (p\<lparr>Len := 0\<rparr>)"
  using scan_busy [OF assms(4), of ks "replicate (nat (Len p)) []" "[]" 2147483647] drop_empty_keys [OF assms(3)] assms(1,2)
  by (auto simp: updatePool_def split: prod.splits)

definition all_busy :: "string set \<Rightarrow> 'c cpool \<Rightarrow> bool" where
  "all_busy U p \<longleftrightarrow> Cap p = 5 \<and> 0 \<le> Len p \<and> dom (p_m p) = U \<and> (\<forall>k v. p_m p k = Some v \<longrightarrow> ci_num v \<noteq> 0)"

lemma GetClient_busy:
  assumes "all_busy U p" and "[] \<notin> U" and "url \<notin> U" and "dial url = Inr cc"
  shows "\<exists>p'. GetClient dial ks url p = Inr (cc, p') \<and> all_busy (insert url U) p'"
proof -
  have "p_m p url = None" "p_m p [] = None" using assms by (auto simp: all_busy_def)
  then show ?thesis using assms updatePool_busy [of p ks] by (auto simp: GetClient_def all_busy_def monad_simps)
qed

text \<open>A run that asks for the clients of several addresses, with the orders of the map as they come.\<close>

fun openAll :: "(string \<Rightarrow> err + 'c) \<Rightarrow> (nat \<Rightarrow> string list) \<Rightarrow> string list \<Rightarrow> 'c cpool \<Rightarrow> err + 'c cpool" where
  "openAll dial ord [] p = Inr p"
| "openAll dial ord (url # urls) p =
     bindE (GetClient dial (ord 0) url p) (\<lambda>(cc, p'). openAll dial (\<lambda>i. ord (Suc i)) urls p')"

lemma openAll_busy:
  assumes "all_busy U p" and "[] \<notin> U \<union> set urls" and "distinct urls" and "U \<inter> set urls = {}"
    and "\<forall>u\<in>set urls. \<exists>cc. dial u = Inr cc"
  shows "\<exists>p'. openAll dial ord urls p = Inr p' \<and> all_busy (U \<union> set urls) p'"
  using assms
proof (induction urls arbitrary: U p ord)
  case (Cons url urls)
  obtain cc where "dial url = Inr cc" using Cons.prems by auto
  moreover have "[] \<notin> U" "url \<notin> U" using Cons.prems by auto
  ultimately obtain p1 where p1: "GetClient dial (ord 0) url p = Inr (cc, p1)" "all_busy (insert url U) p1"
    using GetClient_busy [OF Cons.prems(1)] by blast
  have "[] \<notin> insert url U \<union> set urls" "distinct urls" "insert url U \<inter> set urls = {}" "\<forall>u\<in>set urls. \<exists>cc. dial u = Inr cc"
    using Cons.prems by auto
  from Cons.IH [OF p1(2) this] obtain p' where
    "openAll dial (\<lambda>i. ord (Suc i)) urls p1 = Inr p'" "all_busy (insert url U \<union> set urls) p'" by blast
  then show ?case using p1(1) by (simp add: monad_simps)
qed auto

text \<open>
  C34.
  The limit of five connections is not enforced. Clients that are asked for at any number of
  addresses and not given back are all kept in the map: \<open>updatePool\<close> starts from a slice of
  \<open>Len\<close> empty strings, deletes these keys too and counts \<open>Len\<close> down for each, so that the test
  that would evict a client never holds and the count no longer is the number of connections.
\<close>

theorem connection_cap_not_enforced:
  assumes "[] \<notin> set urls" and "distinct urls" and "\<forall>u\<in>set urls. \<exists>cc. dial u = Inr cc"
  shows "\<exists>p. openAll dial ord urls newPool = Inr p \<and> Cap p = 5 \<and> card (dom (p_m p)) = length urls"
proof -
  have "all_busy {} (newPool :: 'b cpool)" by (simp add: all_busy_def newPool_def)
  from openAll_busy [OF this _ assms(2) _ assms(3), of ord] assms(1) obtain p where
    "openAll dial ord urls newPool = Inr p" "all_busy (set urls) p" by auto
  then show ?thesis using distinct_card [OF assms(2)] by (auto simp: all_busy_def)
qed

theorem connection_cap_not_enforced_witness:
  "\<exists>p. openAll (\<lambda>_. Inr ()) (\<lambda>_. []) [''a'', ''b'', ''c'', ''d'', ''e'', ''f'', ''g''] newPool = Inr p \<and> Cap p = 5 \<and> card (dom (p_m p)) = 7"
  using connection_cap_not_enforced [of "[''a'', ''b'', ''c'', ''d'', ''e'', ''f'', ''g'']" "\<lambda>_. Inr ()" "\<lambda>_. []"]
  by (simp del: openAll.simps add: eval_nat_numeral)

end
