(* ===== verification/Sync.thy ===== *)
theory Sync
  imports Reorg
begin

text \<open>
  Synchronisation between nodes: the answers of a node about its chain (\<open>pkg/server/rpcserver/rpcserver.go\<close>),
  the client that downloads blocks from a peer (\<open>pkg/miner/insideclient.go\<close>) and the handling of announced
  blocks (\<open>pkg/controller/controller.go\<close>).
\<close>

section \<open>The answers of a node\<close>

text \<open>
  The fields of the generated message \<open>RespBlockchain\<close> that the code uses. An empty slice in a request
  arrives as nil. A height is 64 bits, so that the loop of \<open>GetAfterHashs\<close> wraps around.
\<close>

record respBlockchain =
  Code :: int
  Issamechain :: bool
  Isbranchchain :: bool
  Heigher :: bool
  rHeight :: u64
  Hashs :: "bytes list"

definition resp0 :: respBlockchain where
  "resp0 = \<lparr>Code = 0, Issamechain = False, Isbranchchain = False, Heigher = False, rHeight = 0, Hashs = []\<rparr>"

partial_function (option) hashs_from :: "('d, 't, 's, 'z) sys_scheme \<Rightarrow> 'd \<Rightarrow> u64 \<Rightarrow> bytes list Classgroup.run" where
  "hashs_from S d h =
     (case getHash S d h of
        Inl e \<Rightarrow> Some (if e = NotExist then Inr [] else Inl e)
      | Inr hash \<Rightarrow> Option.bind (hashs_from S d (h + 1)) (\<lambda>re. Some (bindE re (\<lambda>hs. Inr (hash # hs)))))"

definition GetAfterHashs :: "('d, 't, 's, 'z) sys_scheme \<Rightarrow> 'd \<Rightarrow> u64 \<Rightarrow> bytes list Classgroup.run" where
  "GetAfterHashs S d ht = hashs_from S d (ht + 1)"

text \<open>A database error other than \<open>NotExist\<close> is returned, a missing hash is nil.\<close>

definition hashAt :: "('d, 't, 's, 'z) sys_scheme \<Rightarrow> 'd \<Rightarrow> u64 \<Rightarrow> err + bytes" where
  "hashAt S d h = (case getHash S d h of Inl e \<Rightarrow> if e = NotExist then Inr [] else Inl e | Inr x \<Rightarrow> Inr x)"

definition srv_GetBlock :: "('d, 't, 's, 'z) sys_scheme \<Rightarrow> 'd \<Rightarrow> bytes \<Rightarrow> err + bytes" where
  "srv_GetBlock S d hash = bindE (getBlockByHash S d hash) (\<lambda>b. Serialize S b)"

definition GetBlockTip :: "('d, 't, 's, 'z) sys_scheme \<Rightarrow> 'd \<Rightarrow> err + bytes" where
  "GetBlockTip S d = bindE (Tip S d) (\<lambda>b. Serialize S b)"

definition FindbranchPoint :: "('d, 't, 's, 'z) sys_scheme \<Rightarrow> 'd \<Rightarrow> bytes \<Rightarrow> u64 \<Rightarrow> err + bool \<times> u64" where
  "FindbranchPoint S d hash ht =
     bindE (hashAt S d ht) (\<lambda>x. Inr (if x \<noteq> hash then (False, 0) else (True, ht)))"

text \<open>
  The answer about a block beside the main chain: the block where its branch leaves the main chain and what
  follows on the main chain. \<open>fuel\<close> is the number of blocks that \<open>FindChainBranch\<close> may visit.
\<close>

definition branchHashs :: "nat \<Rightarrow> ('d, 't, 's, 'z) sys_scheme \<Rightarrow> 'd \<Rightarrow> bytes \<Rightarrow> bytes list Classgroup.run" where
  "branchHashs fuel S d hash =
     bindR (FindChainBranch fuel S d hash) (\<lambda>mainchainblock.
     bindR (GetAfterHashs S d (Height mainchainblock)) (\<lambda>afterhash.
     Some (Inr (Hash mainchainblock # afterhash))))"

definition srv_GetBlockchain :: "nat \<Rightarrow> ('d, 't, 's, 'z) sys_scheme \<Rightarrow> 'd \<Rightarrow> bytes \<Rightarrow> u64 \<Rightarrow> respBlockchain Classgroup.run" where
  "srv_GetBlockchain fuel S d hash ht =
     (if hash = [] \<and> ht = 1 then
        bindR (GetAfterHashs S d 0) (\<lambda>hs. Some (Inr (resp0\<lparr>Hashs := hs, Issamechain := True\<rparr>)))
      else
        bindR (Some (Tip S d)) (\<lambda>tipblock.
        if Hash tipblock = hash then Some (Inr (resp0\<lparr>Issamechain := True\<rparr>))
        else if Height tipblock < ht then
          Some (Inr (resp0\<lparr>Heigher := True, rHeight := Height tipblock, Hashs := [Hash tipblock]\<rparr>))
        else
          bindR (Some (hashAt S d ht)) (\<lambda>x.
          if x = hash then
            bindR (GetAfterHashs S d ht) (\<lambda>hs. Some (Inr (resp0\<lparr>Hashs := hs, Issamechain := True\<rparr>)))
          else if getBlockByHash S d hash = Inl NotExist then Some (Inr resp0)
          else bindR (branchHashs fuel S d hash) (\<lambda>hs. Some (Inr (resp0\<lparr>Hashs := hs, Isbranchchain := True\<rparr>))))))"

definition SyncBlockchain :: "nat \<Rightarrow> ('d, 't, 's, 'z) sys_scheme \<Rightarrow> 'd \<Rightarrow> bytes \<Rightarrow> u64 \<Rightarrow> respBlockchain Classgroup.run" where
  "SyncBlockchain fuel S d hash ht =
     bindR (Some (Tip S d)) (\<lambda>tipblock.
     if hash = [] \<and> ht = 0 then
       bindR (GetAfterHashs S d 0) (\<lambda>hs.
       Some (Inr (resp0\<lparr>Hashs := take 1000 hs, Issamechain := True, rHeight := Height tipblock\<rparr>)))
     else if Height tipblock < ht then Some (Inr resp0)
     else if Hash tipblock = hash then Some (Inr (resp0\<lparr>Issamechain := True, rHeight := Height tipblock\<rparr>))
     else
       bindR (Some (hashAt S d ht)) (\<lambda>x.
       if x = hash then
         bindR (GetAfterHashs S d ht) (\<lambda>hs.
         Some (Inr (resp0\<lparr>Hashs := take 1000 hs, Issamechain := True, rHeight := Height tipblock\<rparr>)))
       else
         (case getBlockByHash S d hash of
            Inl e \<Rightarrow> Some (if e = NotExist then Inr resp0 else Inl e)
          | Inr b \<Rightarrow>
              bindR (branchHashs fuel S d hash) (\<lambda>hs.
              Some (Inr (resp0\<lparr>Hashs := take 1000 hs, Isbranchchain := True, rHeight := Height tipblock\<rparr>))))))"

text \<open>A received block goes to the channel \<open>ch\<close> of the miner, one of another network is dropped silently.\<close>

definition srv_SendBlock :: "('d, 't, 's, 'z) sys_scheme \<Rightarrow> string \<Rightarrow> bytes \<Rightarrow> string \<Rightarrow> Block list \<Rightarrow> err + Block list" where
  "srv_SendBlock S genesisHash dat inGenesis ch =
     (if genesisHash \<noteq> inGenesis then Inr ch else bindE (Deserialize S dat) (\<lambda>b. Inr (ch @ [b])))"

section \<open>The client\<close>

text \<open>
  What a peer answers to the requests of one run. An honest peer answers from its database; a request
  that it does not answer runs into the time limit of the client.
\<close>

record remote =
  r_Sync :: "bytes \<Rightarrow> u64 \<Rightarrow> err + respBlockchain"
  r_GetBlockchain :: "bytes \<Rightarrow> u64 \<Rightarrow> err + respBlockchain"
  r_GetBlock :: "bytes \<Rightarrow> err + bytes"
  r_Tip :: "err + bytes"
  r_HashsByHeight :: "u64 \<Rightarrow> err + bytes list"
  r_Findbranch :: "bytes \<Rightarrow> u64 \<Rightarrow> err + bool \<times> u64"
  r_SendBlock :: "bytes \<Rightarrow> err + unit"

definition answered :: "'a Classgroup.run \<Rightarrow> err + 'a" where
  "answered r = (case r of None \<Rightarrow> Inl (Err ''deadline exceeded'') | Some x \<Rightarrow> x)"

definition honest :: "nat \<Rightarrow> ('d, 't, 's, 'z) sys_scheme \<Rightarrow> 'd \<Rightarrow> remote" where
  "honest fuel S d =
     \<lparr>r_Sync = (\<lambda>hash h. answered (SyncBlockchain fuel S d hash h)),
      r_GetBlockchain = (\<lambda>hash h. answered (srv_GetBlockchain fuel S d hash h)),
      r_GetBlock = srv_GetBlock S d, r_Tip = GetBlockTip S d,
      r_HashsByHeight = (\<lambda>h. answered (GetAfterHashs S d h)),
      r_Findbranch = FindbranchPoint S d,
      r_SendBlock = (\<lambda>dat. bindE (Deserialize S dat) (\<lambda>b. Inr ()))\<rparr>"

definition fetch :: "('d, 't, 's, 'z) sys_scheme \<Rightarrow> remote \<Rightarrow> bytes \<Rightarrow> err + Block" where
  "fetch S R hash = bindE (r_GetBlock R hash) (\<lambda>dat. Deserialize S dat)"

definition addBlock :: "('d, 't, 's, 'z) sys_scheme \<Rightarrow> Block \<Rightarrow> (('d, 's) chain, unit) M" where
  "addBlock S b = (\<lambda>c. case AddBlock S (c, b) of (x, (c', b')) \<Rightarrow> (x, c'))"

text \<open>
  The initial synchronisation downloads the blocks of the answer. Near the tip of the peer it adds
  them one by one, otherwise a hundred at a time; the result of the loops is the list of blocks that wait.
\<close>

definition hundred :: "('d, 't, 's, 'z) sys_scheme \<Rightarrow> Block list \<Rightarrow> (('d, 's) chain, Block list) M" where
  "hundred S blocks = (if length blocks = 100 then thenM (AddBlocks S blocks) (retM []) else retM blocks)"

fun initSame :: "('d, 't, 's, 'z) sys_scheme \<Rightarrow> remote \<Rightarrow> u64 \<Rightarrow> bytes list \<Rightarrow> Block list \<Rightarrow> (('d, 's) chain, Block list) M" where
  "initSame S R peak [] blocks = retM blocks"
| "initSame S R peak (hash # hs) blocks =
     bindM (liftE (fetch S R hash)) (\<lambda>b.
     if peak - Height b < 200 then
       thenM (if blocks \<noteq> [] then AddBlocks S blocks else retM ())
      (thenM (addBlock S b) (initSame S R peak hs []))
     else bindM (hundred S (blocks @ [b])) (\<lambda>blocks. initSame S R peak hs blocks))"

fun initBranch :: "('d, 't, 's, 'z) sys_scheme \<Rightarrow> remote \<Rightarrow> bytes list \<Rightarrow> Block list \<Rightarrow> (('d, 's) chain, Block list) M" where
  "initBranch S R [] blocks = retM blocks"
| "initBranch S R (hash # hs) blocks =
     bindM (liftE (fetch S R hash)) (\<lambda>b.
     bindM (hundred S (blocks @ [b])) (\<lambda>blocks. initBranch S R hs blocks))"

text \<open>The heights from \<open>i\<close> down, \<open>n\<close> of them.\<close>

fun initLoop :: "('d, 't, 's, 'z) sys_scheme \<Rightarrow> remote \<Rightarrow> nat \<Rightarrow> u64 \<Rightarrow> (('d, 's) chain, int) M" where
  "initLoop S R 0 i = retM 0"
| "initLoop S R (Suc n) i =
     bindM (if 0 < i then readM (\<lambda>c. getBlockByHeight S (db c) i) else retM zeroBlock) (\<lambda>tipblock.
     bindM (liftE (r_Sync R (Hash tipblock) (Height tipblock))) (\<lambda>resp.
     if Code resp = -1 then retM (-1)
     else if Issamechain resp then
       thenM (DeleteBlock S (i + 1))
      (bindM (initSame S R (rHeight resp) (Hashs resp) []) (\<lambda>blocks.
       thenM (AddBlocks S blocks) (retM (int (length (Hashs resp))))))
     else if Isbranchchain resp then
       (case Hashs resp of
          [] \<Rightarrow> raiseM (Panic ''index out of range'')
        | parenthash # hs \<Rightarrow>
            bindM (readM (\<lambda>c. getBlockByHash S (db c) parenthash)) (\<lambda>b.
            thenM (DeleteBlock S (Height b + 1))
           (bindM (initBranch S R hs []) (\<lambda>blocks.
            thenM (AddBlocks S blocks) (retM (int (length (Hashs resp))))))))
     else initLoop S R n (i - 1)))"

definition GetBlockInitchains :: "('d, 't, 's, 'z) sys_scheme \<Rightarrow> remote \<Rightarrow> (('d, 's) chain, int) M" where
  "GetBlockInitchains S R =
     bindM (readM (\<lambda>c. getMaxBlockHeight S (db c))) (\<lambda>h.
     initLoop S R (if InitHeight \<le> h then unat h - unat InitHeight + 1 else 0) h)"

text \<open>The older form adds every block on its own.\<close>

fun initEach :: "('d, 't, 's, 'z) sys_scheme \<Rightarrow> remote \<Rightarrow> bytes list \<Rightarrow> (('d, 's) chain, unit) M" where
  "initEach S R [] = retM ()"
| "initEach S R (hash # hs) = bindM (liftE (fetch S R hash)) (\<lambda>b. thenM (addBlock S b) (initEach S R hs))"

fun initLoop1 :: "('d, 't, 's, 'z) sys_scheme \<Rightarrow> remote \<Rightarrow> nat \<Rightarrow> u64 \<Rightarrow> (('d, 's) chain, int) M" where
  "initLoop1 S R 0 i = retM 0"
| "initLoop1 S R (Suc n) i =
     bindM (if 0 < i then readM (\<lambda>c. getBlockByHeight S (db c) i) else retM zeroBlock) (\<lambda>tipblock.
     bindM (liftE (r_Sync R (Hash tipblock) (Height tipblock))) (\<lambda>resp.
     if Code resp = -1 then retM (-1)
     else if Issamechain resp then
       thenM (DeleteBlock S (i + 1))
      (thenM (initEach S R (Hashs resp)) (retM (int (length (Hashs resp)))))
     else if Isbranchchain resp then
       (case Hashs resp of
          [] \<Rightarrow> raiseM (Panic ''index out of range'')
        | parenthash # hs \<Rightarrow>
            bindM (readM (\<lambda>c. getBlockByHash S (db c) parenthash)) (\<lambda>b.
            thenM (DeleteBlock S (Height b + 1))
           (thenM (initEach S R hs) (retM (int (length (Hashs resp)))))))
     else initLoop1 S R n (i - 1)))"

definition GetBlockInitchain :: "('d, 't, 's, 'z) sys_scheme \<Rightarrow> remote \<Rightarrow> (('d, 's) chain, int) M" where
  "GetBlockInitchain S R =
     bindM (readM (\<lambda>c. getMaxBlockHeight S (db c))) (\<lambda>h. initLoop1 S R (unat h - unat InitHeight) h)"

text \<open>The highest height down from \<open>i\<close> at which the peer has the same block; 0 stands for none and for an error.\<close>

fun branchLoop :: "('d, 't, 's, 'z) sys_scheme \<Rightarrow> remote \<Rightarrow> 'd \<Rightarrow> nat \<Rightarrow> u64 \<Rightarrow> u64" where
  "branchLoop S R d 0 i = 0"
| "branchLoop S R d (Suc n) i =
     (case getBlockByHeight S d i of
        Inl e \<Rightarrow> 0
      | Inr myself \<Rightarrow>
          (case r_Findbranch R (Hash myself) i of
             Inl e \<Rightarrow> 0
           | Inr (ex, ht) \<Rightarrow> if ex then ht else branchLoop S R d n (i - 1)))"

definition client_FindBranchPoint :: "('d, 't, 's, 'z) sys_scheme \<Rightarrow> remote \<Rightarrow> 'd \<Rightarrow> u64 \<Rightarrow> u64" where
  "client_FindBranchPoint S R d ht = branchLoop S R d (unat ht - unat InitHeight) ht"

text \<open>
  The regular synchronisation. Its state is the chain, the blocks handed to the channel of the miner
  and the blocks sent to the peer; an error is logged and ends the run.
\<close>

record ('d, 's) syncing =
  sy_chain :: "('d, 's) chain"
  sy_rpc :: "Block list"
  sy_sent :: "Block list"

definition onSyChain :: "(('d, 's) chain, 'a) M \<Rightarrow> (('d, 's) syncing, 'a) M" where
  "onSyChain m = zoomM sy_chain (\<lambda>c. sy_chain_update (\<lambda>_. c)) m"

fun handOver :: "('d, 't, 's, 'z) sys_scheme \<Rightarrow> remote \<Rightarrow> bytes list \<Rightarrow> (('d, 's) syncing, unit) M" where
  "handOver S R [] = retM ()"
| "handOver S R (hash # hs) =
     bindM (liftE (fetch S R hash)) (\<lambda>b. thenM (modM (\<lambda>y. y\<lparr>sy_rpc := sy_rpc y @ [b]\<rparr>)) (handOver S R hs))"

fun storeUncles :: "('d, 't, 's, 'z) sys_scheme \<Rightarrow> remote \<Rightarrow> bytes list \<Rightarrow> (('d, 's) syncing, unit) M" where
  "storeUncles S R [] = retM ()"
| "storeUncles S R (hash # hs) =
     bindM (liftE (fetch S R hash)) (\<lambda>b. thenM (onSyChain (AddUncleBlock S b)) (storeUncles S R hs))"

definition SendBlcok :: "('d, 't, 's, 'z) sys_scheme \<Rightarrow> remote \<Rightarrow> Block \<Rightarrow> (('d, 's) syncing, unit) M" where
  "SendBlcok S R b =
     bindM (liftE (case Serialize S b of Inl e \<Rightarrow> Inl (Panic ''exit'') | Inr dat \<Rightarrow> Inr dat)) (\<lambda>dat.
     thenM (liftE (r_SendBlock R dat)) (modM (\<lambda>y. y\<lparr>sy_sent := sy_sent y @ [b]\<rparr>)))"

text \<open>The blocks of the \<open>n\<close> heights from \<open>i\<close> up.\<close>

fun sendUp :: "('d, 't, 's, 'z) sys_scheme \<Rightarrow> remote \<Rightarrow> nat \<Rightarrow> u64 \<Rightarrow> (('d, 's) syncing, unit) M" where
  "sendUp S R 0 i = retM ()"
| "sendUp S R (Suc n) i =
     bindM (readM (\<lambda>y. getBlockByHeight S (db (sy_chain y)) i)) (\<lambda>b. thenM (SendBlcok S R b) (sendUp S R n (i + 1)))"

definition adoptHeavier :: "('d, 't, 's, 'z) sys_scheme \<Rightarrow> (int \<Rightarrow> bool) \<Rightarrow> remote \<Rightarrow> u64 \<Rightarrow> u64 \<Rightarrow> (('d, 's) syncing, unit) M" where
  "adoptHeavier S probablyPrime R h rh =
     (if 5000 < h - rh then retM ()
      else bindM (readM (\<lambda>y. Inr (client_FindBranchPoint S R (db (sy_chain y)) rh))) (\<lambda>branch.
        if branch = 0 then retM ()
        else bindM (liftE (r_HashsByHeight R branch)) (\<lambda>hs.
          thenM (storeUncles S R hs) (onSyChain (ReorganizeChain S probablyPrime (rev hs) (branch + 1))))))"

definition sendMissing :: "('d, 't, 's, 'z) sys_scheme \<Rightarrow> remote \<Rightarrow> u64 \<Rightarrow> u64 \<Rightarrow> (('d, 's) syncing, unit) M" where
  "sendMissing S R h rh =
     bindM (readM (\<lambda>y. Inr (client_FindBranchPoint S R (db (sy_chain y)) rh))) (\<lambda>branch.
     if 100 < h - branch then retM ()
     else bindM (readM (\<lambda>y. getMaxBlockHeight S (db (sy_chain y)))) (\<lambda>h. sendUp S R (unat h - unat branch) (branch + 1)))"

definition higherPeer :: "('d, 't, 's, 'z) sys_scheme \<Rightarrow> (int \<Rightarrow> bool) \<Rightarrow> remote \<Rightarrow> u64 \<Rightarrow> respBlockchain \<Rightarrow> (('d, 's) syncing, unit) M" where
  "higherPeer S probablyPrime R h resp =
     (if h - rHeight resp < 20 then retM ()
      else thenM (failIf (Hashs resp = []) (Panic ''index out of range''))
     (bindM (liftE (bindE (r_Tip R) (\<lambda>dat. Deserialize S dat))) (\<lambda>tblock.
      bindM (readM (\<lambda>y. getBlockByHeight S (db (sy_chain y)) (Height tblock))) (\<lambda>equalHeightBlock.
      bindM (liftE (derefBig (GlobalDifficulty tblock))) (\<lambda>tg.
      bindM (liftE (derefBig (GlobalDifficulty equalHeightBlock))) (\<lambda>eg.
      if tg < eg then adoptHeavier S probablyPrime R h (rHeight resp) else sendMissing S R h (rHeight resp)))))))"

fun syncLoop :: "('d, 't, 's, 'z) sys_scheme \<Rightarrow> (int \<Rightarrow> bool) \<Rightarrow> remote \<Rightarrow> u64 \<Rightarrow> nat \<Rightarrow> u64 \<Rightarrow> (('d, 's) syncing, unit) M" where
  "syncLoop S probablyPrime R h 0 i = retM ()"
| "syncLoop S probablyPrime R h (Suc n) i =
     bindM (if 1 < i then readM (\<lambda>y. getBlockByHeight S (db (sy_chain y)) i) else retM zeroBlock) (\<lambda>tipblock.
     bindM (liftE (r_GetBlockchain R (Hash tipblock) (Height tipblock))) (\<lambda>resp.
     if Code resp = -1 then retM ()
     else if Issamechain resp then handOver S R (Hashs resp)
     else if Isbranchchain resp then
       (case Hashs resp of [] \<Rightarrow> raiseM (Panic ''slice bounds out of range'') | p # hs \<Rightarrow> handOver S R hs)
     else if Heigher resp then higherPeer S probablyPrime R h resp
     else syncLoop S probablyPrime R h n (i - 1)))"

definition client_GetBlockchain :: "('d, 't, 's, 'z) sys_scheme \<Rightarrow> (int \<Rightarrow> bool) \<Rightarrow> remote \<Rightarrow> (('d, 's) syncing, unit) M" where
  "client_GetBlockchain S probablyPrime R =
     bindM (readM (\<lambda>y. getMaxBlockHeight S (db (sy_chain y)))) (\<lambda>h.
     syncLoop S probablyPrime R h (if InitHeight \<le> h then unat h - unat InitHeight + 1 else 0) h)"

section \<open>Known peers\<close>

text \<open>The set \<open>Hosts\<close> and the addresses of an answer.\<close>

fun GetIPAddress :: "string list \<Rightarrow> string set \<Rightarrow> string set" where
  "GetIPAddress [] hosts = hosts"
| "GetIPAddress (a # as) hosts = (if 10 < card hosts then hosts else GetIPAddress as (insert a hosts))"

definition RemoveHostaddr :: "string \<Rightarrow> string set \<Rightarrow> string set" where
  "RemoveHostaddr ip hosts = (if card hosts < 6 then hosts else hosts - {ip})"

definition addressmanager :: "string \<Rightarrow> string set \<Rightarrow> string set" where
  "addressmanager ip hosts = (if ip \<notin> hosts then hosts else hosts - {ip})"

lemma GetIPAddress_bound: "finite hosts \<Longrightarrow> card hosts \<le> 11 \<Longrightarrow> card (GetIPAddress as hosts) \<le> 11"
  by (induction as arbitrary: hosts) (auto simp: card_insert_if)

lemma RemoveHostaddr_bound: "finite hosts \<Longrightarrow> 5 \<le> card hosts \<Longrightarrow> 5 \<le> card (RemoveHostaddr ip hosts)"
  by (auto simp: RemoveHostaddr_def card_Diff_singleton_if)

section \<open>The answers in numbers\<close>

lemma hashs_from_run:
  "(\<forall>j<n. getHash S d (h + of_nat j) = Inr (f j)) \<Longrightarrow> getHash S d (h + of_nat n) = Inl NotExist \<Longrightarrow>
     hashs_from S d h = Some (Inr (map f [0..<n]))"
proof (induction n arbitrary: h f)
  case 0
  then show ?case by (subst hashs_from.simps) simp
next
  case (Suc n)
  have "hashs_from S d (h + 1) = Some (Inr (map (\<lambda>j. f (Suc j)) [0..<n]))"
  proof (rule Suc.IH)
    show "\<forall>j<n. getHash S d (h + 1 + of_nat j) = Inr (f (Suc j))"
    proof (intro allI impI)
      fix j assume "j < n"
      then have "getHash S d (h + of_nat (Suc j)) = Inr (f (Suc j))" using Suc.prems(1) by blast
      then show "getHash S d (h + 1 + of_nat j) = Inr (f (Suc j))" by (simp add: add.assoc)
    qed
    show "getHash S d (h + 1 + of_nat n) = Inl NotExist" using Suc.prems(2) by (simp add: add.assoc)
  qed
  moreover have "getHash S d h = Inr (f 0)" using Suc.prems(1) by force
  moreover have "map f [0..<Suc n] = f 0 # map (\<lambda>j. f (Suc j)) [0..<n]" by (simp add: upt_conv_Cons map_Suc_upt [symmetric] del: upt_Suc)
  ultimately show ?case by (subst hashs_from.simps) (simp add: monad_simps)
qed

text \<open>A node whose index and blocks fit together up to its tip.\<close>

definition serves :: "('d, 't, 's, 'z) sys_scheme \<Rightarrow> 'd \<Rightarrow> u64 \<Rightarrow> (u64 \<Rightarrow> Block) \<Rightarrow> bool" where
  "serves S d H blk \<longleftrightarrow>
     getMaxBlockHeight S d = Inr H \<and> InitHeight \<le> H \<and> unat H + 1 < 2 ^ 64 \<and> getHash S d (H + 1) = Inl NotExist \<and>
     (\<forall>k. InitHeight \<le> k \<and> k \<le> H \<longrightarrow> getHash S d k = Inr (Hash (blk k)) \<and> getBlockByHash S d (Hash (blk k)) = Inr (blk k) \<and>
        Height (blk k) = k \<and> length (Hash (blk k)) = 32 \<and>
        (\<exists>dat. Serialize S (blk k) = Inr dat \<and> Deserialize S dat = Inr (blk k)))"

lemma serves_block:
  assumes "serves S d H blk" and "InitHeight \<le> k" and "k \<le> H"
  shows "getHash S d k = Inr (Hash (blk k))" "getBlockByHash S d (Hash (blk k)) = Inr (blk k)" "Height (blk k) = k"
    "length (Hash (blk k)) = 32" "Hash (blk k) \<noteq> []" "fetch S (honest fuel S d) (Hash (blk k)) = Inr (blk k)"
proof -
  show "getHash S d k = Inr (Hash (blk k))" "Height (blk k) = k" and l: "length (Hash (blk k)) = 32"
    and g: "getBlockByHash S d (Hash (blk k)) = Inr (blk k)" using assms by (simp_all add: serves_def)
  show "Hash (blk k) \<noteq> []" using l by auto
  show "fetch S (honest fuel S d) (Hash (blk k)) = Inr (blk k)"
    using assms g by (auto simp: serves_def fetch_def honest_def srv_GetBlock_def monad_simps)
qed

lemma serves_tip: "serves S d H blk \<Longrightarrow> Tip S d = Inr (blk H)"
  using serves_block [of S d H blk H] by (simp add: serves_def Tip_def getBlockByHash_def monad_simps)

definition hashesAbove :: "(u64 \<Rightarrow> Block) \<Rightarrow> u64 \<Rightarrow> u64 \<Rightarrow> bytes list" where
  "hashesAbove blk h H = map (\<lambda>j. Hash (blk (h + 1 + of_nat j))) [0..<unat H - unat h]"

lemma above_range:
  assumes "h \<le> (H :: u64)" and "j < unat H - unat h"
  shows "unat (h + 1 + of_nat j) = unat h + 1 + j"
proof -
  have "unat h + 1 + j < 2 ^ 64" using assms unsigned_less [of H, where ?'a = nat] by simp
  then have "unat h + 1 + j < 18446744073709551616" by simp
  moreover have "unat (of_nat j :: u64) = j" using calculation by (simp add: unsigned_of_nat take_bit_nat_eq_self)
  ultimately show ?thesis by (simp add: unat_plus_u64)
qed

lemma serves_above:
  assumes "serves S d H blk" and "InitHeight \<le> h" and "h \<le> H"
  shows "GetAfterHashs S d h = Some (Inr (hashesAbove blk h H))"
proof -
  let ?n = "unat H - unat h"
  have le: "unat h \<le> unat H" using assms(3) by (simp add: word_le_nat_alt)
  have "(of_nat (unat H) :: u64) = of_nat (unat h + ?n)" using le by simp
  then have "H = h + of_nat ?n" by (simp only: of_nat_add of_nat_unat ucast_id)
  then have e: "h + 1 + of_nat ?n = H + 1" by (simp only: ac_simps)
  have "getHash S d (h + 1 + of_nat ?n) = Inl NotExist" unfolding e using assms(1) by (simp add: serves_def)
  moreover have "getHash S d (h + 1 + of_nat j) = Inr (Hash (blk (h + 1 + of_nat j)))" if "j < ?n" for j
  proof (rule serves_block(1) [OF assms(1)])
    note a = above_range [OF assms(3) that]
    show "InitHeight \<le> h + 1 + of_nat j" "h + 1 + of_nat j \<le> H"
      unfolding word_le_nat_alt a using assms(2) that by (simp_all add: word_le_nat_alt)
  qed
  ultimately show ?thesis
    using hashs_from_run [of ?n S d "h + 1" "\<lambda>j. Hash (blk (h + 1 + of_nat j))"] by (simp add: GetAfterHashs_def hashesAbove_def)
qed

text \<open>A client whose block of height \<open>h\<close> is on the main chain of the node is answered with the next hashes.\<close>

lemma serves_sync:
  assumes "serves S d H blk" and "InitHeight \<le> h" and "h \<le> H"
  shows "SyncBlockchain fuel S d (Hash (blk h)) h =
    Some (Inr (resp0\<lparr>Hashs := take 1000 (hashesAbove blk h H), Issamechain := True, rHeight := H\<rparr>))"
proof -
  have H: "InitHeight \<le> H" using assms(1) by (simp add: serves_def)
  note b = serves_block [OF assms] and t = serves_block [OF assms(1) H order_refl]
  note defs = SyncBlockchain_def serves_tip [OF assms(1)] bindR_simps t(3) not_less
  show ?thesis
  proof (cases "Hash (blk H) = Hash (blk h)")
    case True
    with t(2) b(2) have "blk H = blk h" by (metis sum.inject(2))
    then have "H = h" using t(3) b(3) by metis
    then have "hashesAbove blk h H = []" by (simp add: hashesAbove_def)
    then show ?thesis using True b(5) assms(3) by (simp add: defs resp0_def)
  next
    case False
    have "hashAt S d h = Inr (Hash (blk h))" using b(1) by (simp add: hashAt_def)
    then show ?thesis using False b(5) assms(3) serves_above [OF assms] by (simp add: defs)
  qed
qed

section \<open>Catching up with a node\<close>

text \<open>The index after the blocks of \<open>bs\<close> are added one after the other.\<close>

lemma addBlock_index:
  assumes "chain_sys S pending" and "AddBlock_noted S c b" and "length (Hash b) = 32" and "addBlock S b c = (Inr (), c')"
  shows "getMaxBlockHeight S (db c') = Inr (Height b)"
    and "getHash S (db c') k = (if k = Height b then Inr (Hash b) else getHash S (db c) k)"
proof -
  obtain b' where "AddBlock S (c, b) = (Inr (), (c', b'))" using assms(4) by (auto simp: addBlock_def split: prod.splits)
  from chain_sys.AddBlock_ok [OF assms(1) this assms(2,3)] obtain rt where
    "short_view S (db c') = (short_view S (db c))(heightKeyOf (Height b) \<mapsto> Inr (Hash b),
      HeightKey \<mapsto> Inr (E64func (Height b)), snapKeyOf (Height b) \<mapsto> Inr rt, SnapRootKey \<mapsto> Inr rt)" by blast
  then show "getMaxBlockHeight S (db c') = Inr (Height b)"
    "getHash S (db c') k = (if k = Height b then Inr (Hash b) else getHash S (db c) k)"
    by (simp_all add: getMaxBlockHeight_def getHash_def short_get)
qed

lemma AddBlocks_nil:
  assumes "chain_sys S pending" and "AddBlocks S [] c = (Inr (), c')"
  shows "short_view S (db c') = short_view S (db c)"
proof -
  obtain r1 r2 u where r: "onChain (factCommit S True) \<lparr>r_chain = c, r_tx = kv_new (KV S) (db c), r_block = zeroBlock\<rparr> = (Inr u, r1)"
    "commitTx S r1 = (Inr (), r2)" "c' = r_chain r2"
    using assms(2) by (auto simp: AddBlocks_def monad_ok commitBlocks_ok split: sum.splits prod.splits)
  have "short_view S (db (r_chain r1)) = short_view S (db c)"
    using keepsM_run [OF chain_sys.db_frames(2) [OF assms(1)] r(1)] by simp
  moreover have "chain_sys.tview S pending (r_tx r1) = chain_sys.tview S pending (kv_new (KV S) (db c))"
    using keepsM_run [OF keepsM_onChain_tx [where g = "chain_sys.tview S pending"] r(1)] by simp
  ultimately show ?thesis
    using chain_sys.commitTx_ok [OF assms(1) r(2)] chain_sys.tview_new [OF assms(1)] r(3)
    by (auto simp: fun_eq_iff split: option.splits)
qed

text \<open>
  The reference: the blocks of a list, one after the other. \<open>all_noted\<close> tells that in this run the database took
  the writes whose errors \<open>AddBlock\<close> drops.
\<close>

fun addAll :: "('d, 't, 's, 'z) sys_scheme \<Rightarrow> Block list \<Rightarrow> (('d, 's) chain, unit) M" where
  "addAll S [] = retM ()"
| "addAll S (b # bs) = thenM (addBlock S b) (addAll S bs)"

fun all_noted :: "('d, 't, 's, 'z) sys_scheme \<Rightarrow> Block list \<Rightarrow> ('d, 's) chain \<Rightarrow> bool" where
  "all_noted S [] c = True"
| "all_noted S (b # bs) c = (AddBlock_noted S c b \<and> all_noted S bs (snd (addBlock S b c)))"

lemma addAll_index:
  assumes "chain_sys S pending" and "\<forall>k\<in>set ks. length (Hash (blk k)) = 32 \<and> Height (blk k) = k"
    and "all_noted S (map blk ks) c" and "addAll S (map blk ks) c = (Inr (), c')"
  shows "getMaxBlockHeight S (db c') = (if ks = [] then getMaxBlockHeight S (db c) else Inr (last ks)) \<and>
    (\<forall>k. getHash S (db c') k = (if k \<in> set ks then Inr (Hash (blk k)) else getHash S (db c) k))"
  using assms(2-4)
proof (induction ks arbitrary: c)
  case Nil
  then show ?case by (simp add: monad_simps)
next
  case (Cons k ks)
  obtain c1 where c1: "addBlock S (blk k) c = (Inr (), c1)" "addAll S (map blk ks) c1 = (Inr (), c')"
    using Cons.prems(3) by (auto simp: thenM_ok)
  have n: "AddBlock_noted S c (blk k)" "all_noted S (map blk ks) c1" using Cons.prems(2) c1(1) by simp_all
  note a = addBlock_index [OF assms(1) n(1) _ c1(1)]
  show ?case using Cons.IH [OF _ n(2) c1(2)] Cons.prems(1) a by auto
qed

lemma initSame_near:
  assumes "serves S d H blk" and "\<forall>k\<in>set ks. InitHeight \<le> k \<and> k \<le> H \<and> H - k < 200"
  shows "initSame S (honest fuel S d) H (map (\<lambda>k. Hash (blk k)) ks) [] = thenM (addAll S (map blk ks)) (retM [])"
  using assms(2)
proof (induction ks)
  case Nil
  then show ?case by (simp add: monad_simps fun_eq_iff)
next
  case (Cons k ks)
  note b = serves_block [OF assms(1), of k]
  have k: "InitHeight \<le> k" "k \<le> H" "H - k < 200" using Cons.prems by simp_all
  have "initSame S (honest fuel S d) H (map (\<lambda>k. Hash (blk k)) (k # ks)) [] =
      thenM (addBlock S (blk k)) (initSame S (honest fuel S d) H (map (\<lambda>k. Hash (blk k)) ks) [])"
    using b(3,6) k by (simp add: monad_simps fun_eq_iff)
  also have "\<dots> = thenM (addBlock S (blk k)) (thenM (addAll S (map blk ks)) (retM []))"
    using Cons.IH Cons.prems by simp
  finally show ?case by (simp add: thenM_def bindM_def fun_eq_iff split: prod.splits sum.splits)
qed

lemma heights_above:
  assumes "h \<le> (H :: u64)"
  shows "set (map (\<lambda>j. h + 1 + of_nat j) [0..<unat H - unat h]) = {k. h < k \<and> k \<le> H}"
    and "h \<noteq> H \<Longrightarrow> last (map (\<lambda>j. h + 1 + of_nat j) [0..<unat H - unat h]) = H"
proof -
  let ?n = "unat H - unat h"
  note a = above_range [OF assms]
  have le: "unat h \<le> unat H" using assms by (simp add: word_le_nat_alt)
  have inv: "h + 1 + of_nat (unat k - unat h - 1) = k" if "h < k" "k \<le> H" for k
  proof -
    have "unat k - unat h - 1 < ?n" "unat h < unat k" using that by (simp_all add: word_le_nat_alt word_less_nat_alt)
    then show ?thesis using a [of "unat k - unat h - 1"] by (simp add: word_unat_eq_iff)
  qed
  show "set (map (\<lambda>j. h + 1 + of_nat j) [0..<?n]) = {k. h < k \<and> k \<le> H}" (is "?A = ?B")
  proof
    show "?A \<subseteq> ?B" using a by (auto simp: word_le_nat_alt word_less_nat_alt)
    show "?B \<subseteq> ?A"
    proof
      fix k assume "k \<in> ?B"
      then have k: "h < k" "k \<le> H" by simp_all
      then have "unat k - unat h - 1 < ?n" by (simp add: word_le_nat_alt word_less_nat_alt)
      then show "k \<in> ?A" using inv [OF k] by (metis (mono_tags, lifting) atLeastLessThan_iff image_eqI list.set_map set_upt zero_le)
    qed
  qed
  show "last (map (\<lambda>j. h + 1 + of_nat j) [0..<?n]) = H" if "h \<noteq> H"
  proof -
    have "h < H" using that assms by simp
    then have "0 < ?n" "h + 1 + of_nat (?n - 1) = H" using inv [of H] by (simp_all add: word_less_nat_alt)
    then show ?thesis by (simp add: last_map)
  qed
qed

lemma near_heights:
  assumes "InitHeight \<le> h" and "h \<le> H" and "unat H - unat h < 200"
  shows "\<forall>k\<in>set (map (\<lambda>j. h + 1 + of_nat j) [0..<unat H - unat h]). InitHeight \<le> k \<and> k \<le> H \<and> H - k < 200"
proof -
  have "InitHeight \<le> k \<and> H - k < 200" if "h < k" "k \<le> H" for k
  proof -
    have "unat (H - k) = unat H - unat k" using that by (simp add: unat_minus_u64)
    then have "H - k < 200" using that assms(3) by (simp add: word_less_nat_alt word_le_nat_alt)
    then show ?thesis using assms(1) that by simp
  qed
  then show ?thesis unfolding heights_above(1) [OF assms(2)] by simp
qed

lemma DeleteBlock_above: "getMaxBlockHeight S (db c) = Inr h \<Longrightarrow> h < k \<Longrightarrow> DeleteBlock S k c = (Inr (), c)"
  by (simp add: DeleteBlock_def monad_simps)

text \<open>
  C14.
  Catching up with an honest node. When the client's tip is a block of the node's main chain and fewer than
  200 blocks below its tip, the initial synchronisation is nothing but \<open>AddBlock\<close> of the missing blocks of
  the node, one after the other in ascending order, up to the first one that fails, and a last commit; it
  reports as many blocks as were missing. Wherever all of this succeeds and the database takes the
  writes whose errors \<open>AddBlock\<close> drops, the client then has the height of the node, its index has the node's
  hashes at all the new heights, and no other height has changed.
\<close>

theorem near_tip_sync_copies_index:
  assumes "chain_sys S pending" and "serves S d H blk"
    and "getMaxBlockHeight S (db c) = Inr h" and "InitHeight \<le> h" and "h \<le> H" and "unat H - unat h < 200"
    and "getBlockByHeight S (db c) h = Inr tipb" and "Height tipb = h" and "Hash tipb = Hash (blk h)"
    and missing: "missing = map (\<lambda>j. blk (h + 1 + of_nat j)) [0..<unat H - unat h]"
  shows "GetBlockInitchains S (honest fuel S d) c =
      thenM (addAll S missing) (thenM (AddBlocks S []) (retM (int (unat H - unat h)))) c \<and>
    (\<forall>n c'. all_noted S missing c \<and> GetBlockInitchains S (honest fuel S d) c = (Inr n, c') \<longrightarrow>
       n = int (unat H - unat h) \<and> getMaxBlockHeight S (db c') = Inr H \<and>
       (\<forall>k. getHash S (db c') k = (if h < k \<and> k \<le> H then Inr (Hash (blk k)) else getHash S (db c) k)))"
proof -
  let ?ks = "map (\<lambda>j. h + 1 + of_nat j) [0..<unat H - unat h]"
  have above: "hashesAbove blk h H = map (\<lambda>k. Hash (blk k)) ?ks" by (simp add: hashesAbove_def)
  have ks: "missing = map blk ?ks" by (simp add: missing)
  have "0 < h" using assms(4) by (auto simp: InitHeight_def word_le_nat_alt word_less_nat_alt)
  have "unat H + 1 < 18446744073709551616" using assms(2) by (simp add: serves_def)
  then have h1: "h < h + 1" using assms(5) unat_plus_u64 [of h 1] by (simp add: word_less_nat_alt word_le_nat_alt)
  have sync: "r_Sync (honest fuel S d) (Hash tipb) (Height tipb) =
      Inr (resp0\<lparr>Hashs := hashesAbove blk h H, Issamechain := True, rHeight := H\<rparr>)"
    using serves_sync [OF assms(2,4,5), of fuel] assms(6,8,9) by (simp add: honest_def answered_def hashesAbove_def)
  note near = near_heights [OF assms(4-6)]
  have eq: "GetBlockInitchains S (honest fuel S d) c =
      thenM (addAll S missing) (thenM (AddBlocks S []) (retM (int (unat H - unat h)))) c"
    using sync assms(3,4,7) \<open>0 < h\<close> DeleteBlock_above [OF assms(3) h1] initSame_near [OF assms(2) near, of fuel]
    by (simp add: GetBlockInitchains_def monad_simps resp0_def above ks bindM_def thenM_def retM_def split: prod.splits sum.splits)
  have "n = int (unat H - unat h) \<and> getMaxBlockHeight S (db c') = Inr H \<and>
       (\<forall>k. getHash S (db c') k = (if h < k \<and> k \<le> H then Inr (Hash (blk k)) else getHash S (db c) k))"
    if noted: "all_noted S missing c" and run: "GetBlockInitchains S (honest fuel S d) c = (Inr n, c')" for n c'
  proof -
    obtain c1 where c1: "addAll S missing c = (Inr (), c1)" "AddBlocks S [] c1 = (Inr (), c')" "n = int (unat H - unat h)"
      using run unfolding eq by (auto simp: thenM_ok retM_ok)
    have "\<forall>k\<in>set ?ks. length (Hash (blk k)) = 32 \<and> Height (blk k) = k"
      using near serves_block(3,4) [OF assms(2)] by blast
    from addAll_index [OF assms(1) this noted [unfolded ks] c1(1) [unfolded ks]]
    have r: "getMaxBlockHeight S (db c1) = (if ?ks = [] then getMaxBlockHeight S (db c) else Inr (last ?ks))"
      "\<forall>k. getHash S (db c1) k = (if k \<in> {k. h < k \<and> k \<le> H} then Inr (Hash (blk k)) else getHash S (db c) k)"
      unfolding heights_above(1) [OF assms(5)] by blast+
    have "getMaxBlockHeight S (db c1) = Inr H"
      using r(1) assms(3,5) heights_above(2) [OF assms(5)] by (cases "h = H") (auto simp: word_le_nat_alt word_unat_eq_iff)
    moreover have "short_view S (db c') = short_view S (db c1)" using AddBlocks_nil [OF assms(1) c1(2)] .
    ultimately show ?thesis using r(2) c1(3) by (simp add: getMaxBlockHeight_def getHash_def short_get)
  qed
  with eq show ?thesis by blast
qed

section \<open>A peer that is not honest\<close>

definition silent_above :: "('d, 't, 's, 'z) sys_scheme \<Rightarrow> remote \<Rightarrow> 'd \<Rightarrow> u64 \<Rightarrow> u64 \<Rightarrow> bool" where
  "silent_above S R d k h \<longleftrightarrow>
     (\<forall>i. k \<le> i \<and> i \<le> h \<longrightarrow> (\<exists>b. getBlockByHeight S d i = Inr b \<and>
        r_Sync R (Hash b) (Height b) = Inr (if i = k then resp0\<lparr>Issamechain := True\<rparr> else resp0)))"

lemma initLoop_silent:
  assumes "0 < k" and "k \<le> i" and "unat i - unat k < n" and "silent_above S R (db c) k i"
  shows "initLoop S R n i c = thenM (DeleteBlock S (k + 1)) (thenM (AddBlocks S []) (retM 0)) c"
  using assms(2-4)
proof (induction n arbitrary: i)
  case (Suc n)
  obtain b where b: "getBlockByHeight S (db c) i = Inr b"
    "r_Sync R (Hash b) (Height b) = Inr (if i = k then resp0\<lparr>Issamechain := True\<rparr> else resp0)"
    using Suc.prems unfolding silent_above_def by blast
  have i0: "0 < i" using assms(1) Suc.prems(1) by (simp add: word_less_nat_alt word_le_nat_alt)
  show ?case
  proof (cases "i = k")
    case True
    then show ?thesis using b i0 by (simp add: resp0_def monad_simps bindM_def thenM_def retM_def split: prod.splits sum.splits)
  next
    case False
    then have "k < i" using Suc.prems(1) by simp
    moreover have "i \<noteq> 0" using i0 by auto
    ultimately have m: "unat (i - 1) = unat i - 1" "unat k < unat i" by (simp_all add: unat_minus_one word_less_nat_alt)
    then have "k \<le> i - 1" "unat (i - 1) - unat k < n" "i - 1 \<le> i" using Suc.prems(2) by (simp_all add: word_le_nat_alt)
    moreover have "silent_above S R (db c) k (i - 1)"
      using Suc.prems(3) calculation(3) unfolding silent_above_def by (meson order_trans)
    ultimately have "initLoop S R n (i - 1) c = thenM (DeleteBlock S (k + 1)) (thenM (AddBlocks S []) (retM 0)) c"
      by (intro Suc.IH) simp_all
    moreover have "initLoop S R (Suc n) i c = initLoop S R n (i - 1) c"
      using b False i0 by (simp add: resp0_def monad_simps)
    ultimately show ?thesis by (simp only:)
  qed
qed simp

text \<open>
  Deleting several blocks. Apart from the height and the current root an entry of the database is kept or
  deleted, never changed, and the entries of the heights and the blocks under their hashes are deleted.
\<close>

definition shrinks :: "('d, 't, 's, 'z) sys_scheme \<Rightarrow> 'd \<Rightarrow> 'd \<Rightarrow> bool" where
  "shrinks S d d' \<longleftrightarrow>
     (\<forall>k. k \<notin> {SnapRootKey, HeightKey} \<longrightarrow> bgStore_Get (KV S) d' k \<in> {bgStore_Get (KV S) d k, Inl NotExist})"

text \<open>The index names a block of that height, which carries its own hash.\<close>

definition holds_block :: "('d, 't, 's, 'z) sys_scheme \<Rightarrow> 'd \<Rightarrow> u64 \<Rightarrow> Block \<Rightarrow> bool" where
  "holds_block S d j b \<longleftrightarrow> getBlockByHeight S d j = Inr b \<and> getHash S d j = Inr (Hash b) \<and> Height b = j \<and>
     Hash b \<notin> {SnapRootKey, HeightKey}"

lemma shrinks_trans: "shrinks S d d' \<Longrightarrow> shrinks S d' d'' \<Longrightarrow> shrinks S d d''"
  by (auto simp: shrinks_def) (metis+)

lemma shrinks_absent:
  "shrinks S d d' \<Longrightarrow> bgStore_Get (KV S) d k = Inl NotExist \<Longrightarrow> k \<notin> {SnapRootKey, HeightKey} \<Longrightarrow> bgStore_Get (KV S) d' k = Inl NotExist"
  by (auto simp: shrinks_def)

lemma shrinks_block:
  assumes "shrinks S d d'" and "holds_block S d j b" and "getBlockByHeight S d' j = Inr b'"
  shows "b' = b"
proof -
  have keep: "bgStore_Get (KV S) d k = Inr v" if "bgStore_Get (KV S) d' k = Inr v" "k \<notin> {SnapRootKey, HeightKey}" for k v
    using assms(1) that by (auto simp: shrinks_def)
  obtain hash dat where g: "bgStore_Get (KV S) d' (heightKeyOf j) = Inr hash" "bgStore_Get (KV S) d' hash = Inr dat" "Deserialize S dat = Inr b'"
    using assms(3) by (auto simp: getBlockByHeight_def monad_ok split: if_splits)
  have "hash = Hash b" using keep [OF g(1)] assms(2) by (simp add: holds_block_def getHash_def)
  moreover from this have "bgStore_Get (KV S) d (Hash b) = Inr dat"
    using keep [OF g(2)] assms(2) by (simp add: holds_block_def)
  ultimately show "b' = b"
    using assms(2) g(3) by (auto simp: holds_block_def getBlockByHeight_def getHash_def monad_ok split: if_splits)
qed

lemma DeleteBlock_step_shrinks:
  assumes "chain_sys S pending"
    and "DeleteBlock_step S i \<lparr>r_chain = c, r_tx = kv_new (KV S) (db c), r_block = zeroBlock\<rparr> = (Inr (), r)"
  shows "\<exists>b. getBlockByHeight S (db c) i = Inr b \<and> shrinks S (db c) (db (r_chain r)) \<and>
    (\<forall>k\<in>{heightKeyOf (Height b), Hash b}. k \<notin> {SnapRootKey, HeightKey} \<longrightarrow> bgStore_Get (KV S) (db (r_chain r)) k = Inl NotExist)"
proof -
  obtain b sn where "getBlockByHeight S (db c) i = Inr b" "\<forall>k. k \<notin> {SnapRootKey, HeightKey} \<longrightarrow>
      bgStore_Get (KV S) (db (r_chain r)) k = (if k \<in> block_entries S b then Inl NotExist else bgStore_Get (KV S) (db c) k)"
    using chain_sys.DeleteBlock_step_ok [OF assms] .
  then show ?thesis by (auto simp: shrinks_def block_entries_def)
qed

lemma DeleteBlock_loop_shrinks:
  "chain_sys S pending \<Longrightarrow> DeleteBlock_loop S n i c = (Inr (), c') \<Longrightarrow> shrinks S (db c) (db c')"
proof (induction n arbitrary: i c)
  case 0
  then show ?case by (simp add: monad_simps shrinks_def)
next
  case (Suc n)
  obtain r where r: "DeleteBlock_step S i \<lparr>r_chain = c, r_tx = kv_new (KV S) (db c), r_block = zeroBlock\<rparr> = (Inr (), r)"
    "DeleteBlock_loop S n (i - 1) (r_chain r) = (Inr (), c')"
    using Suc.prems(2) by (auto simp: thenM_ok split: prod.splits)
  have "shrinks S (db c) (db (r_chain r))" using DeleteBlock_step_shrinks [OF Suc.prems(1) r(1)] by blast
  from shrinks_trans [OF this Suc.IH [OF Suc.prems(1) r(2)]] show ?case .
qed

lemma DeleteBlock_loop_gone:
  assumes "chain_sys S pending" and "DeleteBlock_loop S n i c = (Inr (), c')" and "n \<le> unat i" and "shrinks S d (db c)"
    and "holds_block S d j b" and "unat i - n < unat j" and "j \<le> i"
  shows "getHash S (db c') j = Inl NotExist \<and> bgStore_Get (KV S) (db c') (Hash b) = Inl NotExist"
  using assms(2-4,6,7)
proof (induction n arbitrary: i c)
  case 0
  then show ?case by (simp add: word_le_nat_alt)
next
  case (Suc n)
  obtain r where r: "DeleteBlock_step S i \<lparr>r_chain = c, r_tx = kv_new (KV S) (db c), r_block = zeroBlock\<rparr> = (Inr (), r)"
    "DeleteBlock_loop S n (i - 1) (r_chain r) = (Inr (), c')"
    using Suc.prems(1) by (auto simp: thenM_ok split: prod.splits)
  obtain x where x: "getBlockByHeight S (db c) i = Inr x" "shrinks S (db c) (db (r_chain r))"
    "\<forall>k\<in>{heightKeyOf (Height x), Hash x}. k \<notin> {SnapRootKey, HeightKey} \<longrightarrow> bgStore_Get (KV S) (db (r_chain r)) k = Inl NotExist"
    using DeleteBlock_step_shrinks [OF assms(1) r(1)] by blast
  show ?case
  proof (cases "j = i")
    case True
    then have "x = b" using shrinks_block [OF Suc.prems(3) assms(5)] x(1) by simp
    then have "getHash S (db (r_chain r)) j = Inl NotExist" "bgStore_Get (KV S) (db (r_chain r)) (Hash b) = Inl NotExist"
      using x(3) assms(5) by (simp_all add: getHash_def holds_block_def)
    then show ?thesis
      using shrinks_absent [OF DeleteBlock_loop_shrinks [OF assms(1) r(2)]] assms(5) by (simp add: getHash_def holds_block_def)
  next
    case False
    have "i \<noteq> 0" using Suc.prems(2) by auto
    then have m: "unat (i - 1) = unat i - 1" by (simp add: unat_minus_one)
    moreover have "unat j \<noteq> unat i" using False by (simp add: word_unat_eq_iff)
    ultimately have "n \<le> unat (i - 1)" "unat (i - 1) - n < unat j" "j \<le> i - 1"
      using Suc.prems(2,4,5) by (simp_all add: word_le_nat_alt)
    with Suc.IH [OF r(2) _ shrinks_trans [OF Suc.prems(3) x(2)]] show ?thesis by blast
  qed
qed

lemma DeleteBlock_gone:
  assumes "chain_sys S pending" and "DeleteBlock S (k + 1) c = (Inr (), c')" and "getMaxBlockHeight S (db c) = Inr h"
    and "k < j" and "j \<le> h" and "holds_block S (db c) j b"
  shows "getHash S (db c') j = Inl NotExist \<and> bgStore_Get (KV S) (db c') (Hash b) = Inl NotExist"
proof -
  have k: "unat (k + 1) = unat k + 1" "unat k < unat j" "unat j \<le> unat h"
    using assms(4,5) unat_lt_u64 [of h] by (simp_all add: unat_plus_u64 word_less_nat_alt word_le_nat_alt)
  then have "\<not> h < k + 1" by (simp add: word_less_nat_alt)
  then obtain c1 rt where l: "DeleteBlock_loop S (unat h - unat (k + 1) + 1) h c = (Inr (), c1)" "rollState S rt c1 = (Inr (), c')"
    using assms(2,3) by (auto simp: DeleteBlock_def bindM_ok thenM_ok readM_ok)
  have "db c' = db c1" using chain_sys.rollState_db [OF assms(1), of rt c1] l(2) by simp
  moreover have "shrinks S (db c) (db c)" by (simp add: shrinks_def)
  ultimately show ?thesis
    using DeleteBlock_loop_gone [OF assms(1) l(1) _ _ assms(6)] k assms(5) by simp
qed

text \<open>
  C35.
  The initial synchronisation believes any peer. A peer that answers nothing about the blocks above a height
  \<open>k\<close> of its choice and then claims to be on the same chain without further blocks makes the client run
  \<open>DeleteBlock (k + 1)\<close>, whatever the client's chain, and add nothing; neither work nor heights are compared.
  When the run succeeds, it reports a complete synchronisation of no block, the deletion has removed every
  block above \<open>k\<close> that the index held from under its hash, and the index has no entry left for its height.
\<close>

theorem peer_erases_chain:
  assumes "getMaxBlockHeight S (db c) = Inr h" and "InitHeight \<le> k" and "k \<le> h" and "silent_above S R (db c) k h"
    and "chain_sys S pending"
  shows "GetBlockInitchains S R c = thenM (DeleteBlock S (k + 1)) (thenM (AddBlocks S []) (retM 0)) c \<and>
    (\<forall>n c'. GetBlockInitchains S R c = (Inr n, c') \<longrightarrow> n = 0 \<and>
       (\<exists>c1. DeleteBlock S (k + 1) c = (Inr (), c1) \<and> AddBlocks S [] c1 = (Inr (), c') \<and>
         (\<forall>j b. k < j \<and> j \<le> h \<and> holds_block S (db c) j b \<longrightarrow>
            bgStore_Get (KV S) (db c1) (Hash b) = Inl NotExist \<and> getHash S (db c') j = Inl NotExist)))"
proof -
  have "0 < k" using assms(2) by (auto simp: InitHeight_def word_le_nat_alt word_less_nat_alt)
  moreover have "InitHeight \<le> h" "unat h - unat k < unat h - unat InitHeight + 1"
    using assms(2,3) by (simp_all add: word_le_nat_alt)
  moreover have "GetBlockInitchains S R c = initLoop S R (unat h - unat InitHeight + 1) h c"
    using assms(1) calculation(2) by (simp add: GetBlockInitchains_def monad_simps del: initLoop.simps)
  ultimately have eq: "GetBlockInitchains S R c = thenM (DeleteBlock S (k + 1)) (thenM (AddBlocks S []) (retM 0)) c"
    using initLoop_silent [OF _ assms(3) _ assms(4)] by (simp del: initLoop.simps)
  have "n = 0 \<and> (\<exists>c1. DeleteBlock S (k + 1) c = (Inr (), c1) \<and> AddBlocks S [] c1 = (Inr (), c') \<and>
         (\<forall>j b. k < j \<and> j \<le> h \<and> holds_block S (db c) j b \<longrightarrow>
            bgStore_Get (KV S) (db c1) (Hash b) = Inl NotExist \<and> getHash S (db c') j = Inl NotExist))"
    if run: "GetBlockInitchains S R c = (Inr n, c')" for n c'
  proof -
    obtain c1 where c1: "DeleteBlock S (k + 1) c = (Inr (), c1)" "AddBlocks S [] c1 = (Inr (), c')" "n = 0"
      using run unfolding eq by (auto simp: thenM_ok retM_ok)
    have "getHash S (db c') j = getHash S (db c1) j" for j
      using AddBlocks_nil [OF assms(5) c1(2)] by (simp add: getHash_def short_get)
    with c1 DeleteBlock_gone [OF assms(5) c1(1) assms(1)] show ?thesis by auto
  qed
  with eq show ?thesis by blast
qed

section \<open>The branch point\<close>

text \<open>The loop of the client and the answers of an honest node find the highest common block.\<close>

definition common_at :: "('d, 't, 's, 'z) sys_scheme \<Rightarrow> 'd \<Rightarrow> 'd \<Rightarrow> u64 \<Rightarrow> bool" where
  "common_at S d sd k \<longleftrightarrow> (\<exists>b. getBlockByHeight S d k = Inr b \<and> getHash S sd k = Inr (Hash b))"

lemma branchLoop_highest:
  assumes "\<forall>k. unat i - n < unat k \<and> k \<le> i \<longrightarrow> (\<exists>b x. getBlockByHeight S d k = Inr b \<and> Hash b \<noteq> [] \<and> hashAt S sd k = Inr x)"
    and "n \<le> unat i"
  shows "(\<exists>r. branchLoop S (honest fuel S sd) d n i = r \<and> unat i - n < unat r \<and> r \<le> i \<and> common_at S d sd r \<and>
       (\<forall>k. r < k \<and> k \<le> i \<longrightarrow> \<not> common_at S d sd k)) \<or>
     branchLoop S (honest fuel S sd) d n i = 0 \<and> (\<forall>k. unat i - n < unat k \<and> k \<le> i \<longrightarrow> \<not> common_at S d sd k)"
  using assms
proof (induction n arbitrary: i)
  case 0
  then show ?case by (auto simp: word_le_nat_alt)
next
  case (Suc n)
  have i0: "0 < unat i" using Suc.prems(2) by simp
  then have m: "unat (i - 1) = unat i - 1" by (intro unat_minus_one) auto
  obtain b x where b: "getBlockByHeight S d i = Inr b" "Hash b \<noteq> []" "hashAt S sd i = Inr x"
    using Suc.prems(1) i0 by (metis diff_less order_refl zero_less_Suc)
  have common: "common_at S d sd i \<longleftrightarrow> x = Hash b"
    using b by (auto simp: common_at_def hashAt_def split: sum.splits if_splits)
  show ?case
  proof (cases "x = Hash b")
    case True
    then have "branchLoop S (honest fuel S sd) d (Suc n) i = i"
      using b by (simp add: honest_def FindbranchPoint_def monad_simps)
    then show ?thesis using True common i0 by (intro disjI1 exI [of _ i]) auto
  next
    case False
    then have run: "branchLoop S (honest fuel S sd) d (Suc n) i = branchLoop S (honest fuel S sd) d n (i - 1)"
      using b by (simp add: honest_def FindbranchPoint_def monad_simps)
    have step: "k \<le> i \<longleftrightarrow> k \<le> i - 1 \<or> k = i" for k using i0 by (auto simp: word_le_nat_alt m word_unat_eq_iff)
    have low: "unat (i - 1) - n = unat i - Suc n" using m by simp
    have "\<forall>k. unat (i - 1) - n < unat k \<and> k \<le> i - 1 \<longrightarrow> (\<exists>b x. getBlockByHeight S d k = Inr b \<and> Hash b \<noteq> [] \<and> hashAt S sd k = Inr x)"
      using Suc.prems(1) unfolding low step by blast
    moreover have "n \<le> unat (i - 1)" using Suc.prems(2) m by simp
    moreover have "\<not> common_at S d sd i" using False common by simp
    ultimately show ?thesis using Suc.IH [of "i - 1"] unfolding low run step by blast
  qed
qed

lemma branch_point_is_highest_common:
  assumes "\<forall>k. InitHeight < k \<and> k \<le> ht \<longrightarrow> (\<exists>b x. getBlockByHeight S d k = Inr b \<and> Hash b \<noteq> [] \<and> hashAt S sd k = Inr x)"
    and "InitHeight \<le> ht"
  shows "(let r = client_FindBranchPoint S (honest fuel S sd) d ht in
     InitHeight < r \<and> r \<le> ht \<and> common_at S d sd r \<and> (\<forall>k. r < k \<and> k \<le> ht \<longrightarrow> \<not> common_at S d sd k) \<or>
     r = 0 \<and> (\<forall>k. InitHeight < k \<and> k \<le> ht \<longrightarrow> \<not> common_at S d sd k))"
proof -
  have "unat ht - (unat ht - unat InitHeight) = unat InitHeight" using assms(2) by (simp add: word_le_nat_alt)
  then show ?thesis
    using branchLoop_highest [of ht "unat ht - unat InitHeight" S d sd fuel] assms(1)
    by (simp add: client_FindBranchPoint_def Let_def flip: word_less_nat_alt)
qed

section \<open>An example\<close>

text \<open>A node that holds the block after the client's tip.\<close>

definition demo_node :: "bytes \<Rightarrow> memdb" where "demo_node dat = demo_added_db dat"

lemma demo_node_gets:
  assumes "Deserialize demo_sys dat = Inr demo_settled"
  shows "getMaxBlockHeight demo_sys (demo_node dat) = Inr 60350423"
    "getHash demo_sys (demo_node dat) 60350422 = Inr (replicate 32 5)" "getHash demo_sys (demo_node dat) 60350423 = Inr (replicate 32 1)"
    "getHash demo_sys (demo_node dat) 60350424 = Inl NotExist"
    "getBlockByHash demo_sys (demo_node dat) (replicate 32 5) = Inr demo_prev"
    "getBlockByHash demo_sys (demo_node dat) (replicate 32 1) = Inr demo_settled"
    "getBlockByHeight demo_sys (demo_node dat) 60350422 = Inr demo_prev"
    "getBlockByHeight demo_sys (demo_node dat) 60350423 = Inr demo_settled"
proof -
  have ne: "(replicate 32 5 :: bytes) \<noteq> replicate 32 1" by (simp add: replicate_eq_replicate)
  note ks = demo_index_keys demo_index_keys(5-8) [symmetric] ne ne [symmetric]
  show "getMaxBlockHeight demo_sys (demo_node dat) = Inr 60350423"
    by (simp add: demo_node_def demo_added_db_def getMaxBlockHeight_def demo_get)
  show h: "getHash demo_sys (demo_node dat) 60350422 = Inr (replicate 32 5)" "getHash demo_sys (demo_node dat) 60350423 = Inr (replicate 32 1)"
    "getHash demo_sys (demo_node dat) 60350424 = Inl NotExist"
    using ks by (simp_all add: demo_node_def demo_added_db_def getHash_def demo_get)
  show b: "getBlockByHash demo_sys (demo_node dat) (replicate 32 5) = Inr demo_prev"
    "getBlockByHash demo_sys (demo_node dat) (replicate 32 1) = Inr demo_settled"
    using ks assms demo_prev_stored by (simp_all add: demo_node_def demo_added_db_def getBlockByHash_def demo_get monad_simps)
  show "getBlockByHeight demo_sys (demo_node dat) 60350422 = Inr demo_prev" "getBlockByHeight demo_sys (demo_node dat) 60350423 = Inr demo_settled"
    using h b by (simp_all add: getBlockByHeight_def getHash_def getBlockByHash_def monad_simps)
qed

lemma demo_two: "60350422 \<le> k \<Longrightarrow> k \<le> 60350423 \<Longrightarrow> k = 60350422 \<or> (k :: u64) = 60350423"
proof -
  assume "60350422 \<le> k" "k \<le> 60350423"
  then have "unat k = 60350422 \<or> unat k = 60350423" by (auto simp: word_le_nat_alt)
  then show ?thesis by (simp add: word_unat_eq_iff)
qed

lemma demo_commit_nothing:
  assumes "getSnapRoot demo_sys (db c) = Inr rt"
  shows "\<exists>c'. AddBlocks demo_sys [] c = (Inr (), c')"
  using assms
  by (simp add: AddBlocks_def monad_simps onChain_def factCommit_def commitBlocks_def commitTx_def mem_sdb_def mem_kv_def mem_commit_def)

theorem peer_erases_chain_witness:
  "\<exists>dat c'. getHash demo_sys (demo_node dat) 60350423 = Inr (replicate 32 1) \<and>
     GetBlockInitchains demo_sys (honest 0 demo_sys [] \<lparr>r_Sync := \<lambda>hash h. Inr (if h = 60350422 then resp0\<lparr>Issamechain := True\<rparr> else resp0)\<rparr>)
       (demo_chain\<lparr>db := demo_node dat\<rparr>) = (Inr 0, c') \<and>
     getHash demo_sys (db c') 60350423 = Inl NotExist"
proof -
  obtain dat where dat: "Deserialize demo_sys dat = Inr demo_settled" using demo_settled_stored by blast
  note g = demo_node_gets [OF dat]
  let ?R = "honest 0 demo_sys [] \<lparr>r_Sync := \<lambda>hash h. Inr (if h = 60350422 then resp0\<lparr>Issamechain := True\<rparr> else resp0)\<rparr>"
  let ?c = "demo_chain\<lparr>db := demo_node dat\<rparr>"
  have p: "Height demo_prev = 60350422" by (simp add: demo_prev_def)
  have silent: "silent_above demo_sys ?R (db ?c) 60350422 60350423"
    unfolding silent_above_def using demo_two g(7,8) p by force
  have k: "getMaxBlockHeight demo_sys (db ?c) = Inr 60350423" "InitHeight \<le> 60350422" "(60350422 :: u64) \<le> 60350423"
    using g(1) by (simp_all add: InitHeight_def)
  note erase = peer_erases_chain [OF k silent demo_chain_sys.chain_sys_axioms]
  obtain c1 where c1: "DeleteBlock demo_sys 60350423 ?c = (Inr (), c1)"
    using demo_delete(3) [OF dat, of ?c] by (auto simp: demo_node_def)
  obtain sn where "DeleteBlock_noted demo_sys 60350423 ?c \<longrightarrow> bgStore_Get (KV demo_sys) (db c1) SnapRootKey = Inr sn \<and>
      bgStore_Get (KV demo_sys) (db c1) HeightKey = Inr (E64func (60350423 - 1)) \<and> state_New (SD demo_sys) (BytesToHash demo_sys sn) (db c1) = Inr (sdb c1)"
    using demo_chain_sys.DeleteBlock_tip [OF c1 k(1), of demo_settled] g(8) by auto
  then have "getSnapRoot demo_sys (db c1) = Inr (BytesToHash demo_sys sn)"
    using demo_delete_noted by (simp add: getSnapRoot_def)
  then obtain c2 where c2: "AddBlocks demo_sys [] c1 = (Inr (), c2)" using demo_commit_nothing by blast
  then have run: "GetBlockInitchains demo_sys ?R ?c = (Inr 0, c2)"
    using erase [THEN conjunct1] c1 by (simp add: monad_simps)
  moreover have "holds_block demo_sys (db ?c) 60350423 demo_settled"
    using g(3,8) demo_index_keys(7,8) [of 1, symmetric] by (simp add: holds_block_def)
  ultimately have "getHash demo_sys (db c2) 60350423 = Inl NotExist"
    using erase [THEN conjunct2, rule_format, OF run] by auto
  with run g(3) show ?thesis by blast
qed

lemma demo_add_settled:
  assumes "Serialize demo_sys demo_settled = Inr dat"
  shows "\<exists>c'. addBlock demo_sys demo_settled demo_deep = (Inr (), c') \<and> db c' = demo_added_db dat"
proof -
  have h: "getMaxBlockHeight demo_sys (db demo_deep) = Inr 60350422"
    by (simp add: demo_deep_def getMaxBlockHeight_def bgStore_Get_def bg_get_def mem_kv_def mem_get_def)
  have rt: "getSnapRoot demo_sys (db demo_deep) = Inr (replicate 32 6)"
    by (simp add: demo_deep_def getSnapRoot_def bgStore_Get_def bg_get_def mem_kv_def mem_get_def ErrKeyNotFound_def demo_env_def)
  have ne: "snapKeyOf 60350422 \<noteq> snapKeyOf 60350423" "(replicate 32 5 :: bytes) \<noteq> replicate 32 1" by (simp_all add: snapKeyOf_def replicate_eq_replicate)
  have same: "demo_settled\<lparr>SnapRoot := pad_block 32 (replicate 20 1 @ E64func 9000000), b_GasUsed := 0\<rparr> = demo_settled"
    by (simp add: demo_settled_def)
  show ?thesis
    using h rt ne demo_index_keys demo_index_keys(5-8) [symmetric] assms same
    by (simp add: addBlock_def AddBlock_def AddBlock_body_def AddBlock_open_def AddBlock_fill_def monad_simps InitHeight_def Let_def onTx_def onChain_def
        factCommit_def setSnapRoot_def storeBlock_def commitTx_def bg_set_def mem_kv_def mem_set_def mem_commit_def
        mem_sdb_def SetBlockInfo_def NewEvm_def demo_chain_def demo_deep_def demo_added_db_def)
qed

lemma demo_serves:
  assumes "Serialize demo_sys demo_settled = Inr dat" and "Deserialize demo_sys dat = Inr demo_settled"
  shows "serves demo_sys (demo_node dat) 60350423 (\<lambda>k. if k = 60350422 then demo_prev else demo_settled)"
proof -
  have p: "Hash demo_prev = replicate 32 5" "Height demo_prev = 60350422" by (simp_all add: demo_prev_def)
  have "Serialize demo_sys demo_prev = Inr (projr (Serialize demo_sys demo_prev))"
    by (simp add: Serialize_def Block_MarshalCBOR_def demo_prev_def demo_block_def)
  then show ?thesis
    using demo_node_gets [OF assms(2)] assms p demo_prev_stored demo_two by (auto simp: serves_def InitHeight_def)
qed

lemma demo_no_more:
  assumes "db c = demo_added_db dat"
  shows "\<exists>c'. AddBlocks demo_sys [] c = (Inr (), c')"
proof (rule demo_commit_nothing)
  show "getSnapRoot demo_sys (db c) = Inr (pad_block 32 (replicate 20 1 @ E64func (word_of_int 9000000)))"
    by (simp add: assms demo_added_db_def getSnapRoot_def demo_get demo_env_def)
qed

theorem near_tip_sync_copies_index_witness:
  "\<exists>dat c'. GetBlockInitchains demo_sys (honest 0 demo_sys (demo_node dat)) demo_deep = (Inr 1, c') \<and>
     getMaxBlockHeight demo_sys (db c') = Inr 60350423 \<and> getHash demo_sys (db c') 60350423 = Inr (replicate 32 1)"
proof -
  obtain dat where dat: "Serialize demo_sys demo_settled = Inr dat" "Deserialize demo_sys dat = Inr demo_settled"
    using demo_settled_stored by blast
  let ?R = "honest 0 demo_sys (demo_node dat)" and ?blk = "\<lambda>k. if k = 60350422 then demo_prev else demo_settled"
  note sv = demo_serves [OF dat]
  have p: "Hash demo_prev = replicate 32 5" "Height demo_prev = 60350422" by (simp_all add: demo_prev_def)
  have c: "getMaxBlockHeight demo_sys (db demo_deep) = Inr 60350422" "getBlockByHeight demo_sys (db demo_deep) 60350422 = Inr demo_prev"
    using demo_index_keys demo_index_keys(5-8) [symmetric] demo_prev_stored
    by (simp_all add: demo_deep_def getMaxBlockHeight_def getBlockByHeight_def demo_get monad_simps)
  obtain c1 where c1: "addBlock demo_sys demo_settled demo_deep = (Inr (), c1)" "db c1 = demo_added_db dat"
    using demo_add_settled [OF dat(1)] by blast
  obtain c2 where c2: "AddBlocks demo_sys [] c1 = (Inr (), c2)" using demo_no_more [OF c1(2)] by blast
  have ab: "hashesAbove ?blk 60350422 60350423 = [replicate 32 1]" by (simp add: hashesAbove_def)
  have "r_Sync ?R (replicate 32 5) 60350422 = Inr (resp0\<lparr>Hashs := [replicate 32 1], Issamechain := True, rHeight := 60350423\<rparr>)"
    using serves_sync [OF sv, of 60350422 0] p ab by (simp add: InitHeight_def honest_def answered_def)
  moreover have "fetch demo_sys ?R (replicate 32 1) = Inr demo_settled"
    using serves_block(6) [OF sv, of 60350423 0] by (simp add: InitHeight_def)
  moreover have "DeleteBlock demo_sys 60350423 demo_deep = (Inr (), demo_deep)" using DeleteBlock_above [OF c(1)] by simp
  ultimately have run: "GetBlockInitchains demo_sys ?R demo_deep = (Inr 1, c2)"
    using c c1(1) c2 p by (simp add: GetBlockInitchains_def InitHeight_def resp0_def monad_simps)
  have hyp: "InitHeight \<le> 60350422" "(60350422 :: u64) \<le> 60350423" "unat (60350423 :: u64) - unat (60350422 :: u64) < 200"
    "Hash demo_prev = Hash (?blk 60350422)" by (simp_all add: InitHeight_def)
  have "all_noted demo_sys bs c" for bs c by (induction bs arbitrary: c) (simp_all add: demo_noted)
  with near_tip_sync_copies_index [OF demo_chain_sys.chain_sys_axioms sv c(1) hyp(1-3) c(2) p(2) hyp(4) refl, of 0] run
  show ?thesis by (intro exI [of _ dat] exI [of _ c2]) (simp add: demo_noted)
qed

section \<open>Messages of peers\<close>

text \<open>
  The controller (\<open>pkg/controller/controller.go\<close>). A message of the TCP server is a type and a block for the
  channel \<open>ch\<close> of the miner; other types are logged.
\<close>

definition handleMessage :: "('z) env_scheme \<Rightarrow> bytes \<Rightarrow> Block list \<Rightarrow> err + Block list" where
  "handleMessage E msg ch =
     (case msg of
        [] \<Rightarrow> Inl (Panic ''index out of range'')
      | t # dat \<Rightarrow>
          if t = 1 then (case Deserialize E dat of Inl e \<Rightarrow> Inr ch | Inr b \<Rightarrow> Inr (ch @ [b])) else Inr ch)"

text \<open>The announcement of a block; its JSON form is decoded by the library.\<close>

record BlockHead =
  bh_Height :: u64
  bh_Hash :: bytes
  bh_Host :: string
  bh_Port :: string
  bh_GenesisHash :: string

text \<open>
  The node asks for the announced block and its ancestors until it knows one; \<open>get\<close> is the database, \<open>orphan\<close>
  the orphan pool, \<open>ask\<close> the peer. The blocks go to the channel of the miner. The loop has no bound.
\<close>

partial_function (option) head_loop ::
    "(bytes \<Rightarrow> err + Block) \<Rightarrow> (bytes \<Rightarrow> Block option) \<Rightarrow> (bytes \<Rightarrow> err + Block) \<Rightarrow> Block list \<Rightarrow> bytes \<Rightarrow>
      ((err + unit) \<times> Block list) option" where
  "head_loop get orphan ask ch hash =
     (case get hash of
        Inr b \<Rightarrow> Some (Inr (), ch)
      | Inl e \<Rightarrow>
          (case orphan hash of
             Some b \<Rightarrow> head_loop get orphan ask ch (PrevHash b)
           | None \<Rightarrow>
               (case ask hash of
                  Inl e \<Rightarrow> Some (Inl e, ch)
                | Inr b \<Rightarrow> head_loop get orphan ask (ch @ [b]) (PrevHash b))))"

definition HandleBlockHeadMessage ::
    "('d, 't, 's, 'z) sys_scheme \<Rightarrow> 'd \<Rightarrow> (bytes \<Rightarrow> Block option) \<Rightarrow> (bytes \<Rightarrow> err + Block) \<Rightarrow> string \<Rightarrow> string \<Rightarrow>
      BlockHead \<Rightarrow> Block list \<Rightarrow> ((err + unit) \<times> Block list) option" where
  "HandleBlockHeadMessage S d orphan ask AdvertiseAddr GenesisHash blockHead ch =
     (if bh_Host blockHead = AdvertiseAddr then Some (Inr (), ch)
      else case getMaxBlockHeight S d of
        Inl e \<Rightarrow> Some (Inl e, ch)
      | Inr h \<Rightarrow>
          if bh_Height blockHead + 100 < h \<or> bh_GenesisHash blockHead \<noteq> GenesisHash then Some (Inr (), ch)
          else head_loop (getBlockByHash S d) orphan ask ch (bh_Hash blockHead))"

text \<open>A chain of ancestors that ends in a known block is handed over from the announced block down.\<close>

lemma head_loop_path:
  assumes "\<forall>i<n. (\<exists>e. get (f i) = Inl e) \<and> orphan (f i) = None \<and> ask (f i) = Inr (blk i) \<and> PrevHash (blk i) = f (Suc i)"
    and "get (f n) = Inr b"
  shows "head_loop get orphan ask ch (f 0) = Some (Inr (), ch @ map blk [0..<n])"
  using assms
proof (induction n arbitrary: f blk ch)
  case 0
  then show ?case by (subst head_loop.simps) simp
next
  case (Suc n)
  have s: "\<exists>e. get (f 0) = Inl e" "orphan (f 0) = None" "ask (f 0) = Inr (blk 0)" "PrevHash (blk 0) = f (Suc 0)"
    using Suc.prems(1) by blast+
  have "head_loop get orphan ask (ch @ [blk 0]) (f (Suc 0)) = Some (Inr (), (ch @ [blk 0]) @ map (\<lambda>i. blk (Suc i)) [0..<n])"
    by (rule Suc.IH [of "\<lambda>i. f (Suc i)" "\<lambda>i. blk (Suc i)"]) (use Suc.prems in auto)
  moreover have "map blk [0..<Suc n] = blk 0 # map (\<lambda>i. blk (Suc i)) [0..<n]" by (simp add: upt_conv_Cons map_Suc_upt [symmetric] del: upt_Suc)
  ultimately show ?case using s by (subst head_loop.simps) auto
qed

text \<open>A peer that names a block its own parent keeps the node in the loop for ever.\<close>

lemma head_loop_some:
  assumes run: "head_loop get orphan ask ch hash = Some r"
  shows "(\<exists>e. get x = Inl e) \<and> orphan x = None \<and> ask x = Inr b \<and> PrevHash b = x \<longrightarrow> hash \<noteq> x"
proof (rule head_loop.raw_induct [where P = "\<lambda>get orphan ask ch hash r. (\<exists>e. get x = Inl e) \<and> orphan x = None \<and>
    ask x = Inr b \<and> PrevHash b = x \<longrightarrow> hash \<noteq> x", OF _ run])
  fix f and get ask :: "bytes \<Rightarrow> err + Block" and orphan :: "bytes \<Rightarrow> Block option" and ch hash r
  assume IH: "\<And>get orphan ask ch hash r. f get orphan ask ch hash = Some r \<Longrightarrow>
      (\<exists>e. get x = Inl e) \<and> orphan x = None \<and> ask x = Inr b \<and> PrevHash b = x \<longrightarrow> hash \<noteq> x"
    and eq: "(case get hash of Inl e \<Rightarrow> (case orphan hash of
          None \<Rightarrow> (case ask hash of Inl e \<Rightarrow> Some (Inl e, ch) | Inr b \<Rightarrow> f get orphan ask (ch @ [b]) (PrevHash b))
        | Some b \<Rightarrow> f get orphan ask ch (PrevHash b)) | Inr b \<Rightarrow> Some (Inr (), ch)) = Some r"
  show "(\<exists>e. get x = Inl e) \<and> orphan x = None \<and> ask x = Inr b \<and> PrevHash b = x \<longrightarrow> hash \<noteq> x"
  proof (intro impI notI)
    assume a: "(\<exists>e. get x = Inl e) \<and> orphan x = None \<and> ask x = Inr b \<and> PrevHash b = x" and "hash = x"
    then have "f get orphan ask (ch @ [b]) x = Some r" using eq by auto
    from IH [OF this] a show False by blast
  qed
qed

lemma self_parent_never_returns:
  assumes "get x = Inl e" and "orphan x = None" and "ask x = Inr b" and "PrevHash b = x"
  shows "head_loop get orphan ask ch x = None"
  using head_loop_some [of get orphan ask ch x _ x b] assms by (cases "head_loop get orphan ask ch x") auto

end
