(* ===== verification/Queue.thy ===== *)
theory Queue
  imports Chain "HOL-Library.Multiset"
begin

text \<open>
  The ordered queue of the transaction pool, \<open>pkg/txpool/queue.go\<close>. The list holds the transactions
  in ascending priority; \<open>rstBuffer\<close> finds the position of a transaction by the text of its sender's
  address and its nonce, \<open>hashBuffer\<close> finds sender and nonce by the hash.
\<close>

section \<open>State\<close>

record receivedTransaction =
  r_nonce :: u64
  r_idx :: nat
  r_price :: u64
  r_timestamp :: int

record orderlyQueue =
  stList :: "SignedTransaction list"
  rstBuffer :: "bytes \<rightharpoonup> receivedTransaction list"
  timeBuffer :: "bytes \<rightharpoonup> int"
  hashBuffer :: "bytes \<rightharpoonup> bytes"

definition newQueue :: orderlyQueue where
  "newQueue = \<lparr>stList = [], rstBuffer = Map.empty, timeBuffer = Map.empty, hashBuffer = Map.empty\<rparr>"

text \<open>
  \<open>st.Caller().String()\<close>, which panics for an address without textual form; such a transaction never
  gets into the queue, because \<open>push\<close> is where the text is taken first.
\<close>

definition callerStr :: "('z) env_scheme \<Rightarrow> SignedTransaction \<Rightarrow> bytes" where
  "callerStr E st = (case Address_String E (From st) of Inl _ \<Rightarrow> [] | Inr s \<Rightarrow> s)"

definition HashToString :: "('z) env_scheme \<Rightarrow> SignedTransaction \<Rightarrow> bytes" where
  "HashToString E st = hex_EncodeToString (Transaction_Hash E st)"

definition timeKey :: "bytes \<Rightarrow> u64 \<Rightarrow> bytes" where
  "timeKey caller nonce = caller @ str ''_'' @ dec_string nonce"

definition hashValue :: "('z) env_scheme \<Rightarrow> SignedTransaction \<Rightarrow> bytes" where
  "hashValue E st = callerStr E st @ str ''|'' @ dec_string (Nonce st)"

section \<open>The position index\<close>

definition rst_list :: "orderlyQueue \<Rightarrow> bytes \<Rightarrow> receivedTransaction list" where
  "rst_list q caller = (case rstBuffer q caller of None \<Rightarrow> [] | Some l \<Rightarrow> l)"

fun upd_first :: "u64 \<Rightarrow> (receivedTransaction \<Rightarrow> receivedTransaction) \<Rightarrow> receivedTransaction list \<Rightarrow> receivedTransaction list" where
  "upd_first nonce f [] = []"
| "upd_first nonce f (r # rs) = (if r_nonce r = nonce then f r # rs else r # upd_first nonce f rs)"

definition update :: "bytes \<Rightarrow> u64 \<Rightarrow> (receivedTransaction \<Rightarrow> receivedTransaction) \<Rightarrow> orderlyQueue \<Rightarrow> orderlyQueue" where
  "update caller nonce f q = q\<lparr>rstBuffer := (rstBuffer q)(caller \<mapsto> upd_first nonce f (rst_list q caller))\<rparr>"

fun rm_first :: "nat \<Rightarrow> receivedTransaction list \<Rightarrow> receivedTransaction list" where
  "rm_first idx [] = []"
| "rm_first idx (r # rs) = (if r_idx r = idx then rs else r # rm_first idx rs)"

definition rmRecivedTransaction :: "bytes \<Rightarrow> nat \<Rightarrow> orderlyQueue \<Rightarrow> orderlyQueue" where
  "rmRecivedTransaction caller idx q =
     (let l = rm_first idx (rst_list q caller)
      in q\<lparr>rstBuffer := (if l = [] then (rstBuffer q)(caller := None) else (rstBuffer q)(caller \<mapsto> l))\<rparr>)"

definition addRstBuffer :: "bytes \<Rightarrow> receivedTransaction \<Rightarrow> orderlyQueue \<Rightarrow> orderlyQueue" where
  "addRstBuffer caller rst q = q\<lparr>rstBuffer := (rstBuffer q)(caller \<mapsto> rst_list q caller @ [rst])\<rparr>"

definition getIndex :: "orderlyQueue \<Rightarrow> bytes \<Rightarrow> u64 \<Rightarrow> err + receivedTransaction" where
  "getIndex q caller nonce =
     (case find (\<lambda>r. r_nonce r = nonce) (rst_list q caller) of None \<Rightarrow> Inl (Err ''not exist'') | Some r \<Rightarrow> Inr r)"

section \<open>Ordering\<close>

definition queue_less :: "('z) env_scheme \<Rightarrow> orderlyQueue \<Rightarrow> nat \<Rightarrow> SignedTransaction \<Rightarrow> bool" where
  "queue_less E q i y =
     (let x = stList q ! i
      in if callerStr E y = callerStr E x then Nonce x < Nonce y
         else if length (rst_list q (callerStr E y)) = 1 then GasCap y \<le> GasCap x
         else if \<exists>rst \<in> set (rst_list q (callerStr E y)). r_nonce rst < Nonce y \<and> r_idx rst < i then True
         else GasCap y \<le> GasCap x)"

text \<open>Moving the transaction at position \<open>i\<close> to position \<open>h\<close>, and putting \<open>value\<close> into position \<open>h\<close>.\<close>

definition move :: "('z) env_scheme \<Rightarrow> nat \<Rightarrow> nat \<Rightarrow> orderlyQueue \<Rightarrow> orderlyQueue" where
  "move E i h q =
     (let x = stList q ! i; q = update (callerStr E x) (Nonce x) (r_idx_update (\<lambda>_. h)) q
      in q\<lparr>stList := (stList q)[h := x]\<rparr>)"

definition settle :: "('z) env_scheme \<Rightarrow> SignedTransaction \<Rightarrow> nat \<Rightarrow> orderlyQueue \<Rightarrow> orderlyQueue" where
  "settle E value h q =
     (let q = update (callerStr E value) (Nonce value) (r_idx_update (\<lambda>_. h)) q
      in q\<lparr>stList := (stList q)[h := value]\<rparr>)"

text \<open>\<open>up_loop E value h\<close> has its hole at \<open>h\<close>, the \<open>i + 1\<close> of the source.\<close>

fun up_loop :: "('z) env_scheme \<Rightarrow> SignedTransaction \<Rightarrow> nat \<Rightarrow> orderlyQueue \<Rightarrow> nat \<times> orderlyQueue" where
  "up_loop E value 0 q = (0, q)"
| "up_loop E value (Suc i) q =
     (if \<not> queue_less E q i value then (Suc i, q) else up_loop E value i (move E i (Suc i) q))"

definition up :: "('z) env_scheme \<Rightarrow> nat \<Rightarrow> orderlyQueue \<Rightarrow> orderlyQueue" where
  "up E j q = (let value = stList q ! j; (h, q) = up_loop E value j q in settle E value h q)"

text \<open>\<open>down(i, j)\<close> is always called with the last position as \<open>j\<close>; the hole is at \<open>k - 1\<close>.\<close>

lemma length_update_stList [simp]: "stList (update c n f q) = stList q"
  by (simp add: update_def)

lemma length_move [simp]: "length (stList (move E i h q)) = length (stList q)"
  by (simp add: move_def Let_def)

function down_loop :: "('z) env_scheme \<Rightarrow> SignedTransaction \<Rightarrow> nat \<Rightarrow> orderlyQueue \<Rightarrow> nat \<times> orderlyQueue" where
  "down_loop E value k q =
     (if k < length (stList q) \<and> \<not> queue_less E q k value then down_loop E value (k + 1) (move E k (k - 1) q)
      else (k - 1, q))"
  by pat_completeness auto
termination
  by (relation "measure (\<lambda>(E, value, k, q). length (stList q) - k)") auto

declare down_loop.simps [simp del]

definition down :: "('z) env_scheme \<Rightarrow> nat \<Rightarrow> orderlyQueue \<Rightarrow> orderlyQueue" where
  "down E i q = (let value = stList q ! i; (h, q) = down_loop E value (i + 1) q in settle E value h q)"

text \<open>The loops over \<open>down\<close>: ascending from \<open>i\<close> to the end, and descending below \<open>i\<close>.\<close>

fun downs_from :: "('z) env_scheme \<Rightarrow> nat list \<Rightarrow> orderlyQueue \<Rightarrow> orderlyQueue" where
  "downs_from E [] q = q"
| "downs_from E (i # is) q = downs_from E is (down E i q)"

section \<open>Operations\<close>

definition push :: "('z) env_scheme \<Rightarrow> int \<Rightarrow> int \<Rightarrow> SignedTransaction \<Rightarrow> orderlyQueue \<Rightarrow> err + orderlyQueue" where
  "push E second unixtime st q =
     (if isl (Address_String E (From st)) then Inl (Panic ''encode'') else
      let caller = callerStr E st; key = timeKey caller (Nonce st) in
      case find (\<lambda>r. r_nonce r = Nonce st) (rst_list q caller) of
        Some rst \<Rightarrow>
          if GasCap st \<le> r_price rst then Inr q
          else if length (stList q) \<le> r_idx rst then Inl (Panic ''index out of range'')
          else let q = update caller (r_nonce rst) (\<lambda>r. r\<lparr>r_price := GasCap st, r_timestamp := second\<rparr>) q;
                   q = q\<lparr>hashBuffer := (hashBuffer q)(HashToString E (stList q ! r_idx rst) := None)\<rparr>;
                   q = q\<lparr>stList := (stList q)[r_idx rst := st]\<rparr>;
                   q = q\<lparr>hashBuffer := (hashBuffer q)(HashToString E st \<mapsto> hashValue E st)\<rparr>;
                   q = downs_from E [r_idx rst..<length (stList q)] q
               in Inr (q\<lparr>timeBuffer := (timeBuffer q)(key \<mapsto> unixtime)\<rparr>)
      | None \<Rightarrow>
          let q = q\<lparr>stList := stList q @ [st], hashBuffer := (hashBuffer q)(HashToString E st \<mapsto> hashValue E st)\<rparr>;
              q = addRstBuffer caller \<lparr>r_nonce = Nonce st, r_idx = length (stList q) - 1, r_price = GasCap st,
                                       r_timestamp = second\<rparr> q;
              q = (if timeBuffer q key = None then q\<lparr>timeBuffer := (timeBuffer q)(key \<mapsto> unixtime)\<rparr> else q)
          in Inr (up E (length (stList q) - 1) q))"

definition pop :: "('z) env_scheme \<Rightarrow> orderlyQueue \<Rightarrow> err + SignedTransaction \<times> orderlyQueue" where
  "pop E q =
     (if stList q = [] then Inl (Panic ''index out of range'')
      else let st = last (stList q);
               q = q\<lparr>hashBuffer := (hashBuffer q)(HashToString E st := None)\<rparr>;
               q = rmRecivedTransaction (callerStr E st) (length (stList q) - 1) q
           in Inr (st, q\<lparr>stList := butlast (stList q)\<rparr>))"

function close_gap :: "('z) env_scheme \<Rightarrow> nat \<Rightarrow> orderlyQueue \<Rightarrow> orderlyQueue" where
  "close_gap E i q = (if i < length (stList q) then close_gap E (i + 1) (move E i (i - 1) q) else q)"
  by pat_completeness auto
termination
  by (relation "measure (\<lambda>(E, i, q). length (stList q) - i)") auto

declare close_gap.simps [simp del]

definition remove :: "('z) env_scheme \<Rightarrow> nat \<Rightarrow> orderlyQueue \<Rightarrow> orderlyQueue" where
  "remove E idx q =
     (if length (stList q) \<le> idx then q
      else let st = stList q ! idx;
               q = rmRecivedTransaction (callerStr E st) idx q;
               q = q\<lparr>hashBuffer := (hashBuffer q)(HashToString E st := None)\<rparr>;
               q = close_gap E (idx + 1) q;
               q = q\<lparr>stList := butlast (stList q)\<rparr>
           in downs_from E (rev [0..<idx]) q)"


section \<open>The index as a map from senders and nonces\<close>

type_synonym txkey = "bytes \<times> u64"

definition key :: "('z) env_scheme \<Rightarrow> SignedTransaction \<Rightarrow> txkey" where
  "key E st = (callerStr E st, Nonce st)"

definition pos :: "orderlyQueue \<Rightarrow> txkey \<Rightarrow> receivedTransaction option" where
  "pos q k = find (\<lambda>r. r_nonce r = snd k) (rst_list q (fst k))"

definition wf_rst :: "orderlyQueue \<Rightarrow> bool" where
  "wf_rst q \<longleftrightarrow> (\<forall>c. distinct (map r_nonce (rst_list q c)))"

lemma pos_cong [simp]:
  "pos (q\<lparr>stList := l\<rparr>) = pos q" "pos (q\<lparr>hashBuffer := h\<rparr>) = pos q" "pos (q\<lparr>timeBuffer := t\<rparr>) = pos q"
  "wf_rst (q\<lparr>stList := l\<rparr>) = wf_rst q" "wf_rst (q\<lparr>hashBuffer := h\<rparr>) = wf_rst q" "wf_rst (q\<lparr>timeBuffer := t\<rparr>) = wf_rst q"
  by (simp_all add: fun_eq_iff pos_def wf_rst_def rst_list_def)

lemma rst_list_update: "rst_list (update c n f q) c' = (if c' = c then upd_first n f (rst_list q c) else rst_list q c')"
  by (simp add: rst_list_def update_def)

lemma rst_list_add: "rst_list (addRstBuffer c r q) c' = (if c' = c then rst_list q c @ [r] else rst_list q c')"
  by (simp add: rst_list_def addRstBuffer_def)

lemma rst_list_rm: "rst_list (rmRecivedTransaction c i q) c' = (if c' = c then rm_first i (rst_list q c) else rst_list q c')"
  by (simp add: rst_list_def rmRecivedTransaction_def Let_def)

lemma stList_buffers [simp]:
  "stList (addRstBuffer c r q) = stList q" "stList (rmRecivedTransaction c i q) = stList q"
  by (simp_all add: addRstBuffer_def rmRecivedTransaction_def Let_def)

lemma upd_first_nonces: "(\<And>r. r_nonce (f r) = r_nonce r) \<Longrightarrow> map r_nonce (upd_first n f rs) = map r_nonce rs"
  by (induction rs) auto

lemma find_upd_first:
  "(\<And>r. r_nonce (f r) = r_nonce r) \<Longrightarrow> find (\<lambda>r. r_nonce r = m) (upd_first n f rs)
     = (if m = n then map_option f (find (\<lambda>r. r_nonce r = m) rs) else find (\<lambda>r. r_nonce r = m) rs)"
  by (induction rs) auto

lemma pos_update:
  assumes "\<And>r. r_nonce (f r) = r_nonce r"
  shows "pos (update c n f q) = (pos q)((c, n) := map_option f (pos q (c, n)))"
  using find_upd_first [OF assms] by (auto simp: fun_eq_iff pos_def rst_list_update)

lemma wf_update:
  assumes "\<And>r. r_nonce (f r) = r_nonce r"
  shows "wf_rst (update c n f q) = wf_rst q"
  using upd_first_nonces [of f, OF assms] by (auto simp: wf_rst_def rst_list_update)

lemma find_None_nonces: "find (\<lambda>r. r_nonce r = n) rs = None \<longleftrightarrow> n \<notin> set (map r_nonce rs)"
  by (auto simp: find_None_iff)

lemma find_append: "find P (xs @ ys) = (case find P xs of None \<Rightarrow> find P ys | Some x \<Rightarrow> Some x)"
  by (induction xs) auto

lemma pos_add:
  assumes "pos q (c, r_nonce r) = None"
  shows "pos (addRstBuffer c r q) = (pos q)((c, r_nonce r) \<mapsto> r)"
  using assms by (auto simp: fun_eq_iff pos_def rst_list_add find_append split: option.split)

lemma wf_add: "wf_rst q \<Longrightarrow> pos q (c, r_nonce r) = None \<Longrightarrow> wf_rst (addRstBuffer c r q)"
  by (auto simp: wf_rst_def rst_list_add pos_def find_None_nonces)

lemma pos_in_list: "pos q (c, n) = Some r \<Longrightarrow> r \<in> set (rst_list q c) \<and> r_nonce r = n"
  by (auto simp: pos_def find_Some_iff)

lemma find_distinct: "distinct (map r_nonce rs) \<Longrightarrow> r \<in> set rs \<Longrightarrow> find (\<lambda>x. r_nonce x = r_nonce r) rs = Some r"
  by (induction rs) (auto simp: rev_image_eqI)

lemma list_in_pos: "wf_rst q \<Longrightarrow> r \<in> set (rst_list q c) \<Longrightarrow> pos q (c, r_nonce r) = Some r"
  by (simp add: pos_def wf_rst_def find_distinct)

lemma rm_first_nonces:
  "distinct (map r_nonce rs) \<Longrightarrow> r \<in> set rs \<Longrightarrow> (\<And>x. x \<in> set rs \<Longrightarrow> r_idx x = r_idx r \<Longrightarrow> x = r)
   \<Longrightarrow> distinct (map r_nonce (rm_first (r_idx r) rs)) \<and>
       (\<forall>m. find (\<lambda>x. r_nonce x = m) (rm_first (r_idx r) rs)
          = (if m = r_nonce r then None else find (\<lambda>x. r_nonce x = m) rs))"
proof (induction rs)
  case (Cons a rs)
  show ?case
  proof (cases "r_idx a = r_idx r")
    case True
    then have "a = r" using Cons.prems(3) by simp
    moreover from this have "r_nonce r \<notin> set (map r_nonce rs)" using Cons.prems(1) by simp
    ultimately show ?thesis using Cons.prems(1) by (auto simp: find_None_nonces)
  next
    case False
    then have r: "r \<in> set rs" using Cons.prems(2) by auto
    with Cons have "distinct (map r_nonce (rm_first (r_idx r) rs)) \<and>
       (\<forall>m. find (\<lambda>x. r_nonce x = m) (rm_first (r_idx r) rs)
          = (if m = r_nonce r then None else find (\<lambda>x. r_nonce x = m) rs))" by auto
    moreover have "set (rm_first (r_idx r) rs) \<subseteq> set rs"
      by (induction rs) auto
    moreover have "r_nonce a \<noteq> r_nonce r" using Cons.prems(1) r by (auto simp: rev_image_eqI)
    ultimately show ?thesis using False Cons.prems(1) by auto
  qed
qed simp

lemma pos_rm:
  assumes wf: "wf_rst q" and r: "pos q (c, n) = Some r"
    and u: "\<And>x. x \<in> set (rst_list q c) \<Longrightarrow> r_idx x = r_idx r \<Longrightarrow> x = r"
  shows "pos (rmRecivedTransaction c (r_idx r) q) = (pos q)((c, n) := None)"
    and "wf_rst (rmRecivedTransaction c (r_idx r) q)"
proof -
  have d: "distinct (map r_nonce (rst_list q c))" using wf by (simp add: wf_rst_def)
  have m: "r \<in> set (rst_list q c)" "r_nonce r = n" using pos_in_list [OF r] by auto
  note * = rm_first_nonces [OF d m(1) u]
  show "pos (rmRecivedTransaction c (r_idx r) q) = (pos q)((c, n) := None)"
    using * m(2) by (auto simp: fun_eq_iff pos_def rst_list_rm)
  show "wf_rst (rmRecivedTransaction c (r_idx r) q)"
    using * wf by (auto simp: wf_rst_def rst_list_rm)
qed


section \<open>Consistency\<close>

definition consistent :: "('z) env_scheme \<Rightarrow> orderlyQueue \<Rightarrow> bool" where
  "consistent E q \<longleftrightarrow>
     wf_rst q \<and> distinct (map (key E) (stList q)) \<and> dom (pos q) = key E ` set (stList q) \<and>
     (\<forall>i < length (stList q). \<forall>r. pos q (key E (stList q ! i)) = Some r \<longrightarrow>
        r_idx r = i \<and> r_price r = GasCap (stList q ! i))"

text \<open>
  While a transaction is moved, the list has a hole at \<open>h\<close>; the transactions outside the hole are \<open>R\<close>,
  in order, and the index knows their keys and those of the transactions \<open>vs\<close> held aside.
\<close>

definition holed :: "('z) env_scheme \<Rightarrow> SignedTransaction list \<Rightarrow> SignedTransaction list \<Rightarrow> nat \<Rightarrow> orderlyQueue \<Rightarrow> bool" where
  "holed E R vs h q \<longleftrightarrow>
     h \<le> length R \<and> length (stList q) = Suc (length R) \<and>
     (\<forall>i < length R. stList q ! (if i < h then i else Suc i) = R ! i) \<and>
     wf_rst q \<and> distinct (map (key E) (R @ vs)) \<and> dom (pos q) = key E ` set (R @ vs) \<and>
     (\<forall>i < length R. \<forall>r. pos q (key E (R ! i)) = Some r \<longrightarrow> r_idx r = (if i < h then i else Suc i) \<and> r_price r = GasCap (R ! i)) \<and>
     (\<forall>v \<in> set vs. \<forall>r. pos q (key E v) = Some r \<longrightarrow> r_price r = GasCap v)"

definition put_at :: "nat \<Rightarrow> 'a \<Rightarrow> 'a list \<Rightarrow> 'a list" where
  "put_at h v R = take h R @ v # drop h R"

lemma length_put_at [simp]: "length (put_at h v R) = Suc (length R)"
  by (simp add: put_at_def)

lemma mset_put_at [simp]: "mset (put_at h v R) = add_mset v (mset R)"
  by (simp add: put_at_def) (metis append_take_drop_id mset_append)

lemma set_put_at [simp]: "set (put_at h v R) = insert v (set R)"
  by (metis mset_put_at set_mset_add_mset_insert set_mset_mset)

lemma nth_put_at:
  "h \<le> length R \<Longrightarrow> i < Suc (length R) \<Longrightarrow>
   put_at h v R ! i = (if i < h then R ! i else if i = h then v else R ! (i - 1))"
proof -
  assume h: "h \<le> length R" and i: "i < Suc (length R)"
  consider "i < h" | "i = h" | k where "i = Suc (h + k)" using less_linear less_iff_Suc_add by metis
  then show ?thesis
    by cases (use h i in \<open>auto simp: put_at_def nth_append min_absorb2\<close>)
qed

lemma put_at_remove: "h < length xs \<Longrightarrow> put_at h (xs ! h) (take h xs @ drop (Suc h) xs) = xs"
  by (simp add: put_at_def id_take_nth_drop [symmetric])

lemma length_without: "h < length xs \<Longrightarrow> Suc (length (take h xs @ drop (Suc h) xs)) = length xs"
  by simp

lemma nth_without:
  "h < length xs \<Longrightarrow> i < length xs - 1 \<Longrightarrow> (take h xs @ drop (Suc h) xs) ! i = xs ! (if i < h then i else Suc i)"
  by (auto simp: nth_append min_absorb2)

lemma distinct_map_mset: "mset xs = mset ys \<Longrightarrow> distinct (map f xs) = distinct (map f ys)"
  by (metis mset_eq_imp_distinct_iff mset_map)

lemma nth_key_eq: "distinct (map f xs) \<Longrightarrow> i < length xs \<Longrightarrow> j < length xs \<Longrightarrow> f (xs ! i) = f (xs ! j) \<longleftrightarrow> i = j"
  by (metis length_map nth_eq_iff_index_eq nth_map)

lemma consistent_cong [simp]:
  "consistent E (q\<lparr>hashBuffer := h\<rparr>) = consistent E q" "consistent E (q\<lparr>timeBuffer := t\<rparr>) = consistent E q"
  by (simp_all add: consistent_def)

lemma consistent_pos:
  "consistent E q \<Longrightarrow> i < length (stList q) \<Longrightarrow>
   \<exists>r. pos q (key E (stList q ! i)) = Some r \<and> r_idx r = i \<and> r_price r = GasCap (stList q ! i)"
proof -
  assume c: "consistent E q" and i: "i < length (stList q)"
  then have "key E (stList q ! i) \<in> dom (pos q)" by (simp add: consistent_def)
  then obtain r where "pos q (key E (stList q ! i)) = Some r" by blast
  then show ?thesis using c i by (auto simp: consistent_def)
qed

lemma consistent_posD:
  assumes "consistent E q" and "pos q k = Some r"
  shows "r_idx r < length (stList q) \<and> key E (stList q ! r_idx r) = k \<and> r_price r = GasCap (stList q ! r_idx r)"
proof -
  have "k \<in> key E ` set (stList q)" using assms by (auto simp: consistent_def)
  then obtain i where i: "i < length (stList q)" "k = key E (stList q ! i)" by (auto simp: in_set_conv_nth)
  then show ?thesis using consistent_pos [OF assms(1) i(1)] assms(2) by auto
qed

text \<open>Taking a transaction out of a consistent queue, and putting it back.\<close>

lemma consistent_holed:
  assumes c: "consistent E q" and h: "h < length (stList q)"
  shows "holed E (take h (stList q) @ drop (Suc h) (stList q)) [stList q ! h] h q"
proof -
  let ?xs = "stList q"
  let ?R = "take h ?xs @ drop (Suc h) ?xs"
  have ms: "mset (?R @ [?xs ! h]) = mset ?xs"
    using mset_put_at [of h "?xs ! h" ?R] by (simp add: put_at_remove [OF h])
  then have set: "set (?R @ [?xs ! h]) = set ?xs" by (metis set_mset_mset)
  have len: "length ?R = length ?xs - 1" using length_without [OF h] by simp
  have R: "?R ! i = ?xs ! (if i < h then i else Suc i)" if "i < length ?R" for i
    using nth_without [OF h] that len by simp
  have "r_idx r = (if i < h then i else Suc i) \<and> r_price r = GasCap (?R ! i)"
    if i: "i < length ?R" and r: "pos q (key E (?R ! i)) = Some r" for i r
  proof -
    have "(if i < h then i else Suc i) < length ?xs" using i len by auto
    from consistent_pos [OF c this] show ?thesis using r R [OF i] by auto
  qed
  moreover have "r_price r = GasCap (?xs ! h)" if "pos q (key E (?xs ! h)) = Some r" for r
    using consistent_pos [OF c h] that by auto
  moreover have "distinct (map (key E) (?R @ [?xs ! h]))"
    using c by (simp only: distinct_map_mset [OF ms] consistent_def)
  moreover have "dom (pos q) = key E ` set (?R @ [?xs ! h])" using c by (simp only: set consistent_def)
  ultimately show ?thesis
    using c h len R length_without [OF h] unfolding holed_def consistent_def by simp
qed

lemma holed_settle:
  assumes t: "holed E R [v] h q"
  shows "consistent E (settle E v h q) \<and> stList (settle E v h q) = put_at h v R"
proof
  note t = t [unfolded holed_def]
  have h: "h \<le> length R" and len: "length (stList q) = Suc (length R)" using t by simp_all
  have st: "stList (settle E v h q) = (stList q)[h := v]" by (simp add: settle_def Let_def)
  show sp: "stList (settle E v h q) = put_at h v R"
  proof (rule nth_equalityI)
    fix i assume "i < length (stList (settle E v h q))"
    then have i: "i < Suc (length R)" by (simp add: st len)
    have st': "stList q ! (if j < h then j else Suc j) = R ! j" if "j < length R" for j using t that by simp
    consider "i < h" | "i = h" | k where "i = Suc k" "h \<le> k" by (metis less_Suc_eq_le linorder_less_linear Suc_pred' gr_zeroI not_less0)
    then show "stList (settle E v h q) ! i = put_at h v R ! i"
    proof cases
      case 1 then show ?thesis using i h len st' [of i] by (simp add: st nth_put_at)
    next
      case 2 then show ?thesis using h len by (simp add: st nth_put_at)
    next
      case 3 then show ?thesis using i h len st' [of k] by (simp add: st nth_put_at)
    qed
  qed (simp add: st len)
  have p: "pos (settle E v h q) = (pos q)(key E v := map_option (r_idx_update (\<lambda>_. h)) (pos q (key E v)))"
    by (simp add: settle_def Let_def pos_update key_def)
  have d: "distinct (map (key E) (put_at h v R))"
    using t distinct_map_mset [of "put_at h v R" "R @ [v]" "key E"] by simp
  have nv: "key E (R ! j) \<noteq> key E v" if "j < length R" for j
  proof -
    have "key E v \<notin> key E ` set R" using t by auto
    then show ?thesis using nth_mem [OF that] by (metis imageI)
  qed
  have "r_idx r = i \<and> r_price r = GasCap (put_at h v R ! i)"
    if i: "i < length (put_at h v R)" and r: "pos (settle E v h q) (key E (put_at h v R ! i)) = Some r" for i r
  proof (cases "i = h")
    case True
    then have e: "put_at h v R ! i = v" using h by (simp add: nth_put_at)
    then obtain r0 where "pos q (key E v) = Some r0" "r = r0\<lparr>r_idx := h\<rparr>" using r p by auto
    then show ?thesis using t e True by auto
  next
    case False
    define j where "j = (if i < h then i else i - 1)"
    have j: "j < length R" "i = (if j < h then j else Suc j)" using False i h by (auto simp: j_def)
    have e: "put_at h v R ! i = R ! j" using False i h by (simp add: nth_put_at j_def)
    then have "pos q (key E (R ! j)) = Some r" using r p nv [OF j(1)] by simp
    then show ?thesis using t j e by auto
  qed
  moreover have "dom (pos (settle E v h q)) = dom (pos q)" using p by (auto split: if_splits)
  moreover have "wf_rst (settle E v h q)" using t by (simp add: settle_def Let_def wf_update)
  ultimately show "consistent E (settle E v h q)"
    using t d unfolding consistent_def sp by simp
qed

text \<open>Moving the hole by one position, in either direction; \<open>j\<close> is the transaction that moves.\<close>

lemma holed_move:
  assumes t: "holed E R vs h q" and j: "j < length R"
    and h': "h = j \<and> h' = Suc j \<or> h = Suc j \<and> h' = j"
  shows "holed E R vs h' (move E h' h q)"
proof -
  note t = t [unfolded holed_def]
  have h: "h \<le> length R" "h' \<le> length R" and len: "length (stList q) = Suc (length R)" using t h' j by auto
  have tst: "stList q ! (if i < h then i else Suc i) = R ! i" if "i < length R" for i using t that by simp
  have trk: "r_idx r = (if i < h then i else Suc i) \<and> r_price r = GasCap (R ! i)"
    if "i < length R" "pos q (key E (R ! i)) = Some r" for i r using t that by simp
  have x: "stList q ! h' = R ! j" using tst [OF j] h' by auto
  have st: "stList (move E h' h q) = (stList q)[h := R ! j]" by (simp add: move_def Let_def x)
  have p: "pos (move E h' h q) = (pos q)(key E (R ! j) := map_option (r_idx_update (\<lambda>_. h)) (pos q (key E (R ! j))))"
    by (simp add: move_def Let_def x pos_update key_def)
  have kx: "key E (R ! i) = key E (R ! j) \<longleftrightarrow> i = j" if "i < length R" for i
    using nth_key_eq [of "key E" R i j] t that j by simp
  have kv: "key E v \<noteq> key E (R ! j)" if "v \<in> set vs" for v
  proof -
    have "key E v \<notin> key E ` set R" using t that by auto
    then show ?thesis using nth_mem [OF j] by (metis imageI)
  qed
  have "stList (move E h' h q) ! (if i < h' then i else Suc i) = R ! i" if "i < length R" for i
  proof (cases "i = j")
    case True
    then show ?thesis using h' len h j by (auto simp: st)
  next
    case False
    then have "(if i < h' then i else Suc i) = (if i < h then i else Suc i)" "(if i < h then i else Suc i) \<noteq> h"
      using h' by auto
    then show ?thesis using tst [OF that] by (simp add: st)
  qed
  moreover have "r_idx r = (if i < h' then i else Suc i) \<and> r_price r = GasCap (R ! i)"
    if i: "i < length R" and r: "pos (move E h' h q) (key E (R ! i)) = Some r" for i r
  proof (cases "i = j")
    case True
    then obtain r0 where "pos q (key E (R ! j)) = Some r0" "r = r0\<lparr>r_idx := h\<rparr>" using r p by auto
    then show ?thesis using trk [OF j] True h' by auto
  next
    case False
    then have "pos q (key E (R ! i)) = Some r" using r p kx [OF i] by simp
    then show ?thesis using trk [OF i] False h' by (auto simp: less_Suc_eq)
  qed
  moreover have "r_price r = GasCap v" if "v \<in> set vs" "pos (move E h' h q) (key E v) = Some r" for v r
    using that p kv t by simp
  moreover have "dom (pos (move E h' h q)) = dom (pos q)" using p by (auto split: if_splits)
  moreover have "wf_rst (move E h' h q)" using t by (simp add: move_def Let_def wf_update)
  ultimately show ?thesis using t h unfolding holed_def by simp
qed


section \<open>The order of a sender's transactions\<close>

text \<open>
  Transactions are taken from the end of the list. Those of one sender leave in the order of their
  nonces when the nonces descend along the list.
\<close>

definition nonce_ordered :: "('z) env_scheme \<Rightarrow> SignedTransaction list \<Rightarrow> bool" where
  "nonce_ordered E = sorted_wrt (\<lambda>x y. callerStr E x = callerStr E y \<longrightarrow> Nonce y < Nonce x)"

definition below :: "('z) env_scheme \<Rightarrow> SignedTransaction \<Rightarrow> SignedTransaction \<Rightarrow> bool" where
  "below E x y \<longleftrightarrow> (callerStr E x = callerStr E y \<longrightarrow> Nonce y < Nonce x)"

lemma nonce_ordered_without:
  "nonce_ordered E xs \<Longrightarrow> nonce_ordered E (take h xs @ drop (Suc h) xs)"
  unfolding nonce_ordered_def sorted_wrt_append
  by (auto simp: sorted_wrt_take sorted_wrt_drop in_set_conv_nth sorted_wrt_iff_nth_less)

lemma nonce_ordered_nth:
  "nonce_ordered E xs \<Longrightarrow> i < j \<Longrightarrow> j < length xs \<Longrightarrow> below E (xs ! i) (xs ! j)"
  by (simp add: nonce_ordered_def below_def sorted_wrt_iff_nth_less)

lemma nonce_ordered_put_at:
  assumes o: "nonce_ordered E R" and l: "\<And>i. i < h \<Longrightarrow> i < length R \<Longrightarrow> below E (R ! i) v"
    and r: "\<And>i. h \<le> i \<Longrightarrow> i < length R \<Longrightarrow> below E v (R ! i)"
  shows "nonce_ordered E (put_at h v R)"
proof -
  let ?P = "\<lambda>x y. callerStr E x = callerStr E y \<longrightarrow> Nonce y < Nonce x"
  have "sorted_wrt ?P (take h R @ drop h R)" using o by (simp add: nonce_ordered_def)
  moreover have "?P x v" if "x \<in> set (take h R)" for x
    using that l by (auto simp: in_set_conv_nth below_def)
  moreover have "?P v x" if x: "x \<in> set (drop h R)" for x
  proof -
    obtain k where "k < length R - h" "x = R ! (h + k)" using x by (auto simp: in_set_conv_nth)
    then show ?thesis using r [of "h + k"] by (simp add: below_def)
  qed
  ultimately show ?thesis
    unfolding nonce_ordered_def put_at_def sorted_wrt_append by auto
qed

lemma holed_nth: "holed E R vs h q \<Longrightarrow> i < length R \<Longrightarrow> stList q ! (if i < h then i else Suc i) = R ! i"
  by (simp add: holed_def)

lemma holed_idx:
  "holed E R vs h q \<Longrightarrow> i < length R \<Longrightarrow> pos q (key E (R ! i)) = Some r \<Longrightarrow> r_idx r = (if i < h then i else Suc i)"
  by (simp add: holed_def)

lemma holed_length: "holed E R vs h q \<Longrightarrow> h \<le> length R \<and> length (stList q) = Suc (length R)"
  by (simp add: holed_def)

lemma holed_keys: "holed E R [v] h q \<Longrightarrow> i < length R \<Longrightarrow> key E (R ! i) \<noteq> key E v"
  by (simp add: holed_def) (metis imageI nth_mem)

lemma up_loop_holed:
  "up_loop E v h q = (h', q') \<Longrightarrow> holed E R [v] h q \<Longrightarrow>
   holed E R [v] h' q' \<and> h' \<le> h \<and> (\<forall>i. h' \<le> i \<and> i < h \<longrightarrow> below E v (R ! i)) \<and> (0 < h' \<longrightarrow> \<not> queue_less E q' (h' - 1) v)"
proof (induction h arbitrary: q)
  case (Suc h)
  note hl = holed_length [OF Suc.prems(2)]
  then have x: "stList q ! h = R ! h" using holed_nth [OF Suc.prems(2), of h] by simp
  show ?case
  proof (cases "queue_less E q h v")
    case True
    then have b: "below E v (R ! h)" by (auto simp: queue_less_def Let_def x below_def)
    have "up_loop E v h (move E h (Suc h) q) = (h', q')" using Suc.prems(1) True by simp
    from Suc.IH [OF this holed_move [OF Suc.prems(2), of h]] hl b show ?thesis by (auto simp: less_Suc_eq)
  next
    case False
    then show ?thesis using Suc.prems by auto
  qed
qed simp

lemma up_stop:
  assumes t: "holed E R [v] h q" and o: "nonce_ordered E R" and s: "0 < h \<Longrightarrow> \<not> queue_less E q (h - 1) v" and i: "i < h"
  shows "below E (R ! i) v"
proof (rule ccontr)
  assume n: "\<not> below E (R ! i) v"
  define k where "k = h - 1"
  have k: "h = Suc k" "k < length R" "i \<le> k" using i holed_length [OF t] by (auto simp: k_def)
  have x: "stList q ! k = R ! k" using holed_nth [OF t, of k] k by simp
  have "key E (R ! i) \<noteq> key E v" using holed_keys [OF t] k by simp
  with n have c: "callerStr E (R ! i) = callerStr E v" "Nonce (R ! i) < Nonce v" by (auto simp: below_def key_def)
  have nl: "\<not> queue_less E q k v" using s k by simp
  have ne: "callerStr E v \<noteq> callerStr E (R ! k)"
  proof
    assume same: "callerStr E v = callerStr E (R ! k)"
    then have "\<not> Nonce (R ! k) < Nonce v" using nl by (simp add: queue_less_def x)
    moreover from this have "i \<noteq> k" using c by auto
    then have "Nonce (R ! k) < Nonce (R ! i)" using nonce_ordered_nth [OF o, of i k] k same c by (simp add: below_def)
    ultimately show False using c by simp
  qed
  have ki: "i < k" using ne c k by (metis le_neq_implies_less)
  have "key E (R ! i) \<in> dom (pos q)" "key E v \<in> dom (pos q)" using t k ki by (simp_all add: holed_def)
  then obtain r rv where r: "pos q (key E (R ! i)) = Some r" "pos q (key E v) = Some rv" by blast
  have "r_idx r = (if i < h then i else Suc i)" using holed_idx [OF t _ r(1)] ki k by simp
  then have ri: "r_idx r = i" using i by simp
  let ?l = "rst_list q (callerStr E v)"
  have m: "r \<in> set ?l" "r_nonce r = Nonce (R ! i)" "rv \<in> set ?l" "r_nonce rv = Nonce v"
    using r c pos_in_list by (auto simp: key_def)
  then have "r \<noteq> rv" using c by auto
  then have "length ?l \<noteq> 1" using m by (auto simp: length_Suc_conv)
  then have "queue_less E q k v" using ne m c ri ki by (auto simp: queue_less_def Let_def x)
  then show False using nl by simp
qed

lemma up_correct:
  assumes t: "holed E R [v] h q" and v: "stList q ! h = v"
  shows "\<exists>h'. consistent E (up E h q) \<and> stList (up E h q) = put_at h' v R"
    and "nonce_ordered E R \<Longrightarrow> (\<And>i. h \<le> i \<Longrightarrow> i < length R \<Longrightarrow> below E v (R ! i)) \<Longrightarrow> nonce_ordered E (stList (up E h q))"
proof -
  obtain h' q' where l: "up_loop E v h q = (h', q')" by fastforce
  note p = up_loop_holed [OF l t]
  have u: "up E h q = settle E v h' q'" by (simp add: up_def v l)
  note s = holed_settle [of E R v h' q'] p
  show "\<exists>h'. consistent E (up E h q) \<and> stList (up E h q) = put_at h' v R" using s u by auto
  assume o: "nonce_ordered E R" and b: "\<And>i. h \<le> i \<Longrightarrow> i < length R \<Longrightarrow> below E v (R ! i)"
  have "below E v (R ! i)" if "h' \<le> i" "i < length R" for i using p b that by (cases "i < h") auto
  moreover have "below E (R ! i) v" if "i < h'" for i using up_stop [OF _ o _ that] p by auto
  ultimately show "nonce_ordered E (stList (up E h q))"
    using nonce_ordered_put_at [OF o] s u by auto
qed

lemma down_loop_holed:
  "down_loop E v (Suc h) q = (h', q') \<Longrightarrow> holed E R [v] h q \<Longrightarrow>
   holed E R [v] h' q' \<and> h \<le> h' \<and> (\<forall>i. h \<le> i \<and> i < h' \<longrightarrow> below E (R ! i) v)"
proof (induction "length R - h" arbitrary: h q)
  case 0
  then have "\<not> Suc h < length (stList q)" using holed_length by fastforce
  then show ?case using 0 by (auto simp: down_loop.simps [of E v "Suc h"])
next
  case (Suc n)
  then have h: "h < length R" by simp
  note hl = holed_length [OF Suc.prems(2)]
  have x: "stList q ! Suc h = R ! h" using holed_nth [OF Suc.prems(2) h] by simp
  show ?case
  proof (cases "queue_less E q (Suc h) v")
    case True
    then show ?thesis using Suc.prems by (auto simp: down_loop.simps [of E v "Suc h"])
  next
    case False
    have "key E (R ! h) \<noteq> key E v" by (rule holed_keys [OF Suc.prems(2) h])
    then have b: "below E (R ! h) v" using False by (auto simp: queue_less_def Let_def x below_def key_def split: if_splits)
    have "down_loop E v (Suc (Suc h)) (move E (Suc h) h q) = (h', q')"
      using Suc.prems(1) False hl h by (simp add: down_loop.simps [of E v "Suc h"])
    moreover have "n = length R - Suc h" using Suc.hyps(2) by simp
    ultimately have "holed E R [v] h' q' \<and> Suc h \<le> h' \<and> (\<forall>i. Suc h \<le> i \<and> i < h' \<longrightarrow> below E (R ! i) v)"
      using Suc.hyps(1) [of "Suc h"] holed_move [OF Suc.prems(2) h] by blast
    then show ?thesis using b by (metis Suc_leD not_less_eq_eq le_antisym)
  qed
qed

lemma down_correct:
  assumes c: "consistent E q" and i: "i < length (stList q)"
  shows "consistent E (down E i q)" and "mset (stList (down E i q)) = mset (stList q)"
    and "nonce_ordered E (stList q) \<Longrightarrow> nonce_ordered E (stList (down E i q))"
proof -
  let ?v = "stList q ! i"
  let ?R = "take i (stList q) @ drop (Suc i) (stList q)"
  note t = consistent_holed [OF c i]
  obtain h' q' where l: "down_loop E ?v (Suc i) q = (h', q')" by fastforce
  note p = down_loop_holed [OF l t]
  have u: "down E i q = settle E ?v h' q'" by (simp add: down_def l)
  have s: "consistent E (down E i q)" "stList (down E i q) = put_at h' ?v ?R"
    using holed_settle [of E ?R ?v h' q'] p u by auto
  then show "consistent E (down E i q)" by simp
  have q: "stList q = put_at i ?v ?R" by (rule put_at_remove [OF i, symmetric])
  show "mset (stList (down E i q)) = mset (stList q)" using s(2) arg_cong [OF q, of mset] by simp
  assume o: "nonce_ordered E (stList q)"
  note n = nth_without [OF i]
  have len: "length ?R = length (stList q) - 1" using length_without [OF i] by simp
  have "below E (?R ! k) ?v" if k: "k < h'" "k < length ?R" for k
  proof (cases "k < i")
    case True then show ?thesis using n [of k] k len i nonce_ordered_nth [OF o, of k i] by simp
  next
    case False then show ?thesis using p k by simp
  qed
  moreover have "below E ?v (?R ! k)" if k: "h' \<le> k" "k < length ?R" for k
    using n [of k] k len p nonce_ordered_nth [OF o, of i "Suc k"] by simp
  ultimately show "nonce_ordered E (stList (down E i q))"
    unfolding s(2) by (rule nonce_ordered_put_at [OF nonce_ordered_without [OF o]])
qed

lemma downs_correct:
  "consistent E q \<Longrightarrow> (\<And>i. i \<in> set is \<Longrightarrow> i < length (stList q)) \<Longrightarrow>
   consistent E (downs_from E is q) \<and> mset (stList (downs_from E is q)) = mset (stList q) \<and>
   (nonce_ordered E (stList q) \<longrightarrow> nonce_ordered E (stList (downs_from E is q)))"
proof (induction "is" arbitrary: q)
  case (Cons i "is")
  note d = down_correct [OF Cons.prems(1), of i]
  have i: "i < length (stList q)" using Cons.prems(2) by simp
  then have "length (stList (down E i q)) = length (stList q)" using d(2) by (metis mset_eq_length)
  then show ?case using Cons.IH [of "down E i q"] d i Cons.prems(2) by auto
qed simp


section \<open>Effects of the operations\<close>

text \<open>The transactions of the queue by sender and nonce.\<close>

definition contents :: "('z) env_scheme \<Rightarrow> orderlyQueue \<Rightarrow> txkey \<Rightarrow> SignedTransaction option" where
  "contents E q = map_of (map (\<lambda>st. (key E st, st)) (stList q))"

lemma contents_iff:
  "consistent E q \<Longrightarrow> contents E q k = Some st \<longleftrightarrow> st \<in> set (stList q) \<and> key E st = k"
  unfolding contents_def consistent_def
  by (subst map_of_eq_Some_iff) (auto simp: comp_def)

lemma contents_None: "contents E q k = None \<longleftrightarrow> k \<notin> key E ` set (stList q)"
  by (auto simp: contents_def map_of_eq_None_iff image_image)

lemma contents_pos:
  assumes "consistent E q"
  shows "contents E q k = map_option (\<lambda>r. stList q ! r_idx r) (pos q k)"
proof (cases "pos q k")
  case None
  then show ?thesis using assms contents_None [of E q k] by (auto simp: consistent_def domIff)
next
  case (Some r)
  then show ?thesis using consistent_posD [OF assms Some] contents_iff [OF assms] by simp
qed

lemma contents_mset:
  assumes "consistent E q" and "consistent E q'" and "mset (stList q') = mset (stList q)"
  shows "contents E q' = contents E q"
proof -
  have "set (stList q') = set (stList q)" using assms(3) by (metis set_mset_mset)
  then have "contents E q' k = Some st \<longleftrightarrow> contents E q k = Some st" for k st
    using contents_iff assms by metis
  then show ?thesis by (metis ext not_None_eq)
qed

lemma newQueue_consistent [simp]: "consistent E newQueue" "nonce_ordered E (stList newQueue)"
  by (simp_all add: consistent_def newQueue_def wf_rst_def rst_list_def pos_def nonce_ordered_def dom_def)

text \<open>\<open>push\<close>: a new key is inserted, a known one is replaced when the gas is higher.\<close>

lemma push_new_holed:
  assumes c: "consistent E q" and n: "pos q (key E st) = None"
    and q1: "q1 = addRstBuffer (callerStr E st) \<lparr>r_nonce = Nonce st, r_idx = length (stList q), r_price = GasCap st, r_timestamp = t\<rparr>
                  (q\<lparr>stList := stList q @ [st], hashBuffer := h\<rparr>)"
  shows "holed E (stList q) [st] (length (stList q)) q1"
proof -
  have p: "pos q1 = (pos q)(key E st \<mapsto> \<lparr>r_nonce = Nonce st, r_idx = length (stList q), r_price = GasCap st, r_timestamp = t\<rparr>)"
    using n by (simp add: q1 pos_add key_def)
  have "wf_rst q1" using c n by (simp add: q1 wf_add key_def consistent_def)
  moreover have k: "key E st \<notin> key E ` set (stList q)" using n c by (auto simp: consistent_def)
  moreover have "stList q1 = stList q @ [st]" by (simp add: q1)
  moreover have "key E (stList q ! i) \<noteq> key E st" if "i < length (stList q)" for i
    using k nth_mem [OF that] by (metis imageI)
  ultimately show ?thesis using c p by (auto simp: holed_def consistent_def nth_append)
qed

lemma push_new:
  assumes c: "consistent E q" and n: "pos q (key E st) = None" and a: "\<not> isl (Address_String E (From st))"
  shows "\<exists>q' h. push E s u st q = Inr q' \<and> consistent E q' \<and> stList q' = put_at h st (stList q) \<and>
           (nonce_ordered E (stList q) \<longrightarrow> nonce_ordered E (stList q'))"
proof -
  let ?h = "(hashBuffer q)(HashToString E st \<mapsto> hashValue E st)"
  define q1 where "q1 = addRstBuffer (callerStr E st) \<lparr>r_nonce = Nonce st, r_idx = length (stList q), r_price = GasCap st, r_timestamp = s\<rparr>
                  (q\<lparr>stList := stList q @ [st], hashBuffer := ?h\<rparr>)"
  define q2 where "q2 = (if timeBuffer q1 (timeKey (callerStr E st) (Nonce st)) = None
                  then q1\<lparr>timeBuffer := (timeBuffer q1)(timeKey (callerStr E st) (Nonce st) \<mapsto> u)\<rparr> else q1)"
  have "holed E (stList q) [st] (length (stList q)) q1" by (rule push_new_holed [OF c n q1_def])
  then have t: "holed E (stList q) [st] (length (stList q)) q2" by (simp add: q2_def holed_def)
  have st2: "stList q2 = stList q @ [st]" by (simp add: q2_def q1_def)
  have "find (\<lambda>r. r_nonce r = Nonce st) (rst_list q (callerStr E st)) = None" using n by (simp add: pos_def key_def)
  then have e: "push E s u st q = Inr (up E (length (stList q)) q2)"
    using a by (simp add: push_def Let_def q2_def q1_def cong: if_cong)
  show ?thesis using up_correct [OF t] st2 e by auto
qed

lemma push_keep:
  assumes "pos q (key E st) = Some r" and "GasCap st \<le> r_price r" and "\<not> isl (Address_String E (From st))"
  shows "push E s u st q = Inr q"
  using assms by (simp add: push_def pos_def key_def)

lemma push_replace:
  assumes c: "consistent E q" and r: "pos q (key E st) = Some r" and g: "\<not> GasCap st \<le> r_price r"
    and a: "\<not> isl (Address_String E (From st))"
  shows "\<exists>q'. push E s u st q = Inr q' \<and> consistent E q' \<and> mset (stList q') = mset ((stList q)[r_idx r := st]) \<and>
           (nonce_ordered E (stList q) \<longrightarrow> nonce_ordered E (stList q'))"
proof -
  define i where "i = r_idx r"
  have i: "i < length (stList q)" and k: "key E (stList q ! i) = key E st"
    using consistent_posD [OF c r] by (auto simp: i_def)
  define q1 where "q1 = update (callerStr E st) (Nonce st) (\<lambda>r. r\<lparr>r_price := GasCap st, r_timestamp := s\<rparr>) q"
  define q2 where "q2 = q1\<lparr>stList := (stList q)[i := st],
     hashBuffer := (hashBuffer q)(HashToString E (stList q ! i) := None, HashToString E st \<mapsto> hashValue E st)\<rparr>"
  have p: "pos q2 = (pos q)(key E st := map_option (\<lambda>r. r\<lparr>r_price := GasCap st, r_timestamp := s\<rparr>) (pos q (key E st)))"
    by (simp add: q2_def q1_def pos_update key_def)
  have st2: "stList q2 = (stList q)[i := st]" by (simp add: q2_def)
  have ks: "map (key E) (stList q2) = map (key E) (stList q)"
    using i k by (simp add: st2 map_update) (metis length_map list_update_id nth_map)
  have kn: "key E (stList q ! j) = key E st \<longleftrightarrow> j = i" if "j < length (stList q)" for j
    using nth_key_eq [of "key E" "stList q" j i] c that i k by (simp add: consistent_def)
  have "r_idx x = j \<and> r_price x = GasCap (stList q2 ! j)"
    if j: "j < length (stList q2)" and x: "pos q2 (key E (stList q2 ! j)) = Some x" for j x
  proof (cases "j = i")
    case True
    then show ?thesis using x p r i by (auto simp: st2 i_def)
  next
    case False
    then have "pos q (key E (stList q ! j)) = Some x" using x p kn [of j] j by (simp add: st2)
    then show ?thesis using c j False by (simp add: st2 consistent_def)
  qed
  moreover have "key E ` set (stList q2) = key E ` set (stList q)" using ks by (metis set_map)
  moreover have "dom (pos q2) = dom (pos q)" using p by (auto split: if_splits)
  moreover have "wf_rst q2" using c by (simp add: q2_def q1_def wf_update consistent_def)
  ultimately have c2: "consistent E q2" using ks c unfolding consistent_def by simp
  have o2: "nonce_ordered E (stList q2)" if "nonce_ordered E (stList q)"
  proof -
    have "key E (stList q2 ! j) = key E (stList q ! j)" if "j < length (stList q)" for j
      using ks that by (metis length_map nth_map)
    then show ?thesis using that unfolding nonce_ordered_def sorted_wrt_iff_nth_less
      by (simp add: key_def st2)
  qed
  have "find (\<lambda>r. r_nonce r = Nonce st) (rst_list q (callerStr E st)) = Some r" using r by (simp add: pos_def key_def)
  moreover have "r_nonce r = Nonce st" using pos_in_list r by (auto simp: key_def)
  moreover have "stList q1 = stList q" "hashBuffer q1 = hashBuffer q" by (simp_all add: q1_def update_def)
  ultimately have e: "push E s u st q = Inr ((downs_from E [i..<length (stList q)] q2)
      \<lparr>timeBuffer := (timeBuffer (downs_from E [i..<length (stList q)] q2))(timeKey (callerStr E st) (Nonce st) \<mapsto> u)\<rparr>)"
    using a g i by (simp add: push_def Let_def i_def [symmetric] q1_def [symmetric] q2_def)
  have "\<And>j. j \<in> set [i..<length (stList q)] \<Longrightarrow> j < length (stList q2)" by (simp add: st2)
  from downs_correct [OF c2, of "[i..<length (stList q)]", OF this] show ?thesis using e o2 by (simp add: st2 i_def)
qed


text \<open>\<open>pop\<close> and \<open>remove\<close>.\<close>

lemma rm_pos:
  assumes c: "consistent E q" and i: "i < length (stList q)"
  defines "q' \<equiv> rmRecivedTransaction (callerStr E (stList q ! i)) i q"
  shows "pos q' = (pos q)(key E (stList q ! i) := None)" and "wf_rst q'"
proof -
  let ?c = "callerStr E (stList q ! i)"
  obtain r where r: "pos q (key E (stList q ! i)) = Some r" "r_idx r = i" using consistent_pos [OF c i] by blast
  have wf: "wf_rst q" using c by (simp add: consistent_def)
  have u: "x = r" if x: "x \<in> set (rst_list q ?c)" "r_idx x = r_idx r" for x
  proof -
    have "pos q (?c, r_nonce x) = Some x" by (rule list_in_pos [OF wf x(1)])
    moreover from consistent_posD [OF c this] have "key E (stList q ! i) = (?c, r_nonce x)" using x r by simp
    ultimately show ?thesis using r(1) by simp
  qed
  note p = pos_rm [OF wf, of ?c "Nonce (stList q ! i)" r, OF _ u]
  show "pos q' = (pos q)(key E (stList q ! i) := None)" "wf_rst q'"
    using p r by (simp_all add: q'_def key_def)
qed

lemma holed_forget:
  assumes t: "holed E R [v] h q" and p: "pos q' = (pos q)(key E v := None)" and "wf_rst q'" and "stList q' = stList q"
  shows "holed E R [] h q'"
proof -
  have "key E (R ! j) \<noteq> key E v" if "j < length R" for j by (rule holed_keys [OF t that])
  moreover have "key E v \<notin> key E ` set R" using t by (simp add: holed_def)
  ultimately show ?thesis using assms by (auto simp: holed_def)
qed

lemma holed_cong [simp]: "holed E R vs h (q\<lparr>hashBuffer := hb\<rparr>) = holed E R vs h q"
  by (simp add: holed_def)

lemma rm_holed:
  assumes c: "consistent E q" and i: "i < length (stList q)"
  shows "holed E (take i (stList q) @ drop (Suc i) (stList q)) [] i (rmRecivedTransaction (callerStr E (stList q ! i)) i q)"
proof -
  have "stList (rmRecivedTransaction (callerStr E (stList q ! i)) i q) = stList q" by simp
  from holed_forget [OF consistent_holed [OF c i] rm_pos [OF c i] this] show ?thesis .
qed

lemma close_gap_holed:
  "holed E R [] h q \<Longrightarrow> holed E R [] (length R) (close_gap E (Suc h) q)"
proof (induction "length R - h" arbitrary: h q)
  case 0
  then have "h = length R" using holed_length by fastforce
  moreover from this have "\<not> Suc h < length (stList q)" using holed_length [OF 0(2)] by simp
  then have "close_gap E (Suc h) q = q" by (subst close_gap.simps) simp
  ultimately show ?case using 0(2) by simp
next
  case (Suc n)
  then have h: "h < length R" by simp
  have "holed E R [] (length R) (close_gap E (Suc (Suc h)) (move E (Suc h) h q))"
    using Suc.hyps(1) [of "Suc h"] Suc.hyps(2) holed_move [OF Suc.prems h, of "Suc h"] by simp
  then show ?case using h holed_length [OF Suc.prems] by (simp add: close_gap.simps [of E "Suc h"])
qed

lemma holed_end:
  assumes t: "holed E R [] (length R) q"
  shows "butlast (stList q) = R" and "consistent E (q\<lparr>stList := butlast (stList q)\<rparr>)"
proof -
  show b: "butlast (stList q) = R"
    using holed_length [OF t] holed_nth [OF t] by (intro nth_equalityI) (simp_all add: nth_butlast)
  show "consistent E (q\<lparr>stList := butlast (stList q)\<rparr>)"
    using t unfolding consistent_def b by (simp add: holed_def)
qed

lemma remove_correct:
  assumes c: "consistent E q" and i: "i < length (stList q)"
  shows "consistent E (remove E i q) \<and> mset (stList (remove E i q)) = mset (stList q) - {#stList q ! i#} \<and>
    (nonce_ordered E (stList q) \<longrightarrow> nonce_ordered E (stList (remove E i q)))"
proof -
  let ?R = "take i (stList q) @ drop (Suc i) (stList q)"
  define q1 where "q1 = (rmRecivedTransaction (callerStr E (stList q ! i)) i q)
    \<lparr>hashBuffer := (hashBuffer (rmRecivedTransaction (callerStr E (stList q ! i)) i q))(HashToString E (stList q ! i) := None)\<rparr>"
  define q2 where "q2 = close_gap E (Suc i) q1"
  define q3 where "q3 = q2\<lparr>stList := butlast (stList q2)\<rparr>"
  have "holed E ?R [] i q1" unfolding q1_def holed_cong by (rule rm_holed [OF c i])
  then have t: "holed E ?R [] (length ?R) q2" unfolding q2_def by (rule close_gap_holed)
  note e = holed_end [OF t]
  have s3: "stList q3 = ?R" using e(1) by (simp add: q3_def)
  have "remove E i q = downs_from E (rev [0..<i]) q3"
    using i by (simp add: remove_def Let_def q1_def q2_def q3_def)
  moreover have "\<And>j. j \<in> set (rev [0..<i]) \<Longrightarrow> j < length (stList q3)" using i by (simp add: s3)
  then have "consistent E (downs_from E (rev [0..<i]) q3) \<and> mset (stList (downs_from E (rev [0..<i]) q3)) = mset (stList q3) \<and>
   (nonce_ordered E (stList q3) \<longrightarrow> nonce_ordered E (stList (downs_from E (rev [0..<i]) q3)))"
    by (rule downs_correct [OF e(2) [folded q3_def]])
  moreover have "mset (stList q) = add_mset (stList q ! i) (mset ?R)"
    using arg_cong [OF put_at_remove [OF i], of mset] by simp
  ultimately show ?thesis using s3 nonce_ordered_without [of E "stList q" i] by simp
qed

lemma pop_correct:
  assumes c: "consistent E q" and ne: "stList q \<noteq> []"
  shows "\<exists>q'. pop E q = Inr (last (stList q), q') \<and> consistent E q' \<and> stList q' = butlast (stList q)"
proof -
  let ?i = "length (stList q) - 1"
  define q1 where "q1 = rmRecivedTransaction (callerStr E (last (stList q))) ?i (q\<lparr>hashBuffer := (hashBuffer q)(HashToString E (last (stList q)) := None)\<rparr>)"
  have i: "?i < length (stList q)" and l: "last (stList q) = stList q ! ?i" using ne by (simp_all add: last_conv_nth)
  have R: "take ?i (stList q) @ drop (Suc ?i) (stList q) = butlast (stList q)" by (simp add: butlast_conv_take)
  have "holed E (butlast (stList q)) [] ?i q1"
    using rm_holed [of E "q\<lparr>hashBuffer := (hashBuffer q)(HashToString E (last (stList q)) := None)\<rparr>" ?i] c i l R
    by (simp add: q1_def)
  then have "holed E (butlast (stList q)) [] (length (butlast (stList q))) q1" by simp
  from holed_end [OF this] show ?thesis
    using ne by (simp add: pop_def Let_def q1_def)
qed

lemma butlast_ordered: "nonce_ordered E xs \<Longrightarrow> nonce_ordered E (butlast xs)"
  by (simp add: nonce_ordered_def butlast_conv_take sorted_wrt_take)

lemma remove_outside: "length (stList q) \<le> i \<Longrightarrow> remove E i q = q"
  by (simp add: remove_def)

section \<open>Reachable queues\<close>

inductive queue_reach :: "('z) env_scheme \<Rightarrow> orderlyQueue \<Rightarrow> bool" for E where
  init: "queue_reach E newQueue"
| push: "queue_reach E q \<Longrightarrow> push E second unixtime st q = Inr q' \<Longrightarrow> queue_reach E q'"
| pop: "queue_reach E q \<Longrightarrow> pop E q = Inr (st, q') \<Longrightarrow> queue_reach E q'"
| remove: "queue_reach E q \<Longrightarrow> queue_reach E (remove E i q)"

lemma push_Inr_caller: "push E s u st q = Inr q' \<Longrightarrow> \<not> isl (Address_String E (From st))"
  by (auto simp: push_def)

lemma push_invariant:
  assumes c: "consistent E q" and p: "push E s u st q = Inr q'"
  shows "consistent E q' \<and> (nonce_ordered E (stList q) \<longrightarrow> nonce_ordered E (stList q'))"
proof (cases "pos q (key E st)")
  case None
  then show ?thesis using push_new [OF c None push_Inr_caller [OF p], of s u] p by auto
next
  case (Some r)
  show ?thesis
  proof (cases "GasCap st \<le> r_price r")
    case True
    then show ?thesis using push_keep [where s = s and u = u, OF Some True push_Inr_caller [OF p]] p c by simp
  next
    case False
    then show ?thesis using push_replace [OF c Some False push_Inr_caller [OF p], of s u] p by auto
  qed
qed

lemma reach_invariant: "queue_reach E q \<Longrightarrow> consistent E q \<and> nonce_ordered E (stList q)"
proof (induction rule: queue_reach.induct)
  case (push q s u st q')
  then show ?case using push_invariant by blast
next
  case (pop q st q')
  then have "stList q \<noteq> []" by (auto simp: pop_def)
  then show ?case using pop pop_correct [of E q] butlast_ordered by auto
next
  case (remove q i)
  then show ?case using remove_correct [of E q i] by (cases "i < length (stList q)") (auto simp: remove_outside)
qed simp_all


text \<open>
  C5. The position index. In every queue that pushes, pops and removals produce, \<open>getIndex\<close> finds each
  transaction at its true position with its gas and knows no others, a sender has no two transactions
  of one nonce, and the nonces of each sender descend along the list, so that they leave the queue in
  ascending order whatever the gas.
\<close>

theorem queue_invariant:
  assumes "queue_reach E q"
  shows "(\<forall>i < length (stList q). \<exists>r. getIndex q (callerStr E (stList q ! i)) (Nonce (stList q ! i)) = Inr r \<and>
            r_idx r = i \<and> r_price r = GasCap (stList q ! i)) \<and>
         (\<forall>c n r. getIndex q c n = Inr r \<longrightarrow> r_idx r < length (stList q) \<and> key E (stList q ! r_idx r) = (c, n)) \<and>
         (\<forall>i j. i < j \<and> j < length (stList q) \<and> callerStr E (stList q ! i) = callerStr E (stList q ! j)
            \<longrightarrow> Nonce (stList q ! j) < Nonce (stList q ! i))"
proof -
  have c: "consistent E q" and o: "nonce_ordered E (stList q)" using reach_invariant [OF assms] by simp_all
  have g: "getIndex q c n = (case pos q (c, n) of None \<Rightarrow> Inl (Err ''not exist'') | Some r \<Rightarrow> Inr r)" for c n
    by (simp add: getIndex_def pos_def)
  show ?thesis
  proof (intro conjI allI impI)
    fix i assume "i < length (stList q)"
    from consistent_pos [OF c this] show "\<exists>r. getIndex q (callerStr E (stList q ! i)) (Nonce (stList q ! i)) = Inr r \<and>
            r_idx r = i \<and> r_price r = GasCap (stList q ! i)"
      by (auto simp: g key_def)
  next
    fix a n r assume "getIndex q a n = Inr r"
    then have "pos q (a, n) = Some r" by (simp add: g split: option.splits)
    from consistent_posD [OF c this] show "r_idx r < length (stList q)" "key E (stList q ! r_idx r) = (a, n)" by auto
  next
    fix i j assume "i < j \<and> j < length (stList q) \<and> callerStr E (stList q ! i) = callerStr E (stList q ! j)"
    then show "Nonce (stList q ! j) < Nonce (stList q ! i)"
      using nonce_ordered_nth [OF o, of i j] by (simp add: below_def)
  qed
qed

lemma contents_other: "consistent E q \<Longrightarrow> contents E q (c, n) = Some st \<Longrightarrow> st \<in> set (stList q) \<and> callerStr E st = c \<and> Nonce st = n"
  by (simp add: contents_iff key_def)

lemma contents_put_at:
  assumes "consistent E q" and "consistent E q'" and "stList q' = put_at h st (stList q)" and "contents E q (key E st) = None"
  shows "contents E q' = (contents E q)(key E st \<mapsto> st)"
proof -
  have "contents E q' k = Some x \<longleftrightarrow> ((contents E q)(key E st \<mapsto> st)) k = Some x" for k x
    using assms contents_iff [OF assms(1), of k x] contents_iff [OF assms(2), of k x] contents_None [of E q "key E st"]
    by (auto intro: rev_image_eqI)
  then show ?thesis by (metis ext not_None_eq)
qed

lemma contents_drop:
  assumes c: "consistent E q" and c': "consistent E q'" and i: "i < length (stList q)"
    and m: "mset (stList q') = mset (stList q) - {#stList q ! i#}"
  shows "contents E q' = (contents E q)(key E (stList q ! i) := None)"
proof -
  have d: "distinct (stList q)" using c by (simp add: consistent_def distinct_map)
  have "set (stList q') = set (stList q) - {stList q ! i}"
    using mset_eq_setD [OF m [folded mset_remove1]] set_remove1_eq [OF d] by simp
  then have "contents E q' k = Some x \<longleftrightarrow> ((contents E q)(key E (stList q ! i) := None)) k = Some x" for k x
    using contents_iff [OF c] contents_iff [OF c'] i c
    by (auto simp: consistent_def distinct_map inj_on_def)
  then show ?thesis by (metis ext not_None_eq)
qed


lemma push_contents:
  assumes c: "consistent E q" and a: "\<not> isl (Address_String E (From st))"
  shows "\<exists>q'. push E second unixtime st q = Inr q' \<and> contents E q' = (case contents E q (key E st) of
              None \<Rightarrow> (contents E q)(key E st \<mapsto> st)
            | Some old \<Rightarrow> if GasCap st \<le> GasCap old then contents E q else (contents E q)(key E st \<mapsto> st))"
proof (cases "pos q (key E st)")
  case None
  then have n: "contents E q (key E st) = None" by (simp add: contents_pos [OF c])
  obtain q' h where "push E second unixtime st q = Inr q'" "consistent E q'" "stList q' = put_at h st (stList q)"
    using push_new [OF c None a] by blast
  then show ?thesis using contents_put_at [OF c _ _ n] n by auto
next
  case (Some r)
  note d = consistent_posD [OF c Some]
  then have n: "contents E q (key E st) = Some (stList q ! r_idx r)" using Some by (simp add: contents_pos [OF c])
  show ?thesis
  proof (cases "GasCap st \<le> r_price r")
    case True
    then show ?thesis using push_keep [OF Some True a] n d by simp
  next
    case False
    let ?L = "(stList q)[r_idx r := st]"
    obtain q' where q': "push E second unixtime st q = Inr q'" "consistent E q'" "mset (stList q') = mset ?L"
      using push_replace [OF c Some False a] by blast
    have in_L: "x \<in> set ?L \<longleftrightarrow> x = st \<or> x \<in> set (stList q) \<and> key E x \<noteq> key E st" for x
      using d c nth_key_eq [of "key E" "stList q" _ "r_idx r"]
      by (auto simp: consistent_def in_set_conv_nth nth_list_update) (metis nth_list_update_neq length_list_update)+
    have "contents E q' k = Some x \<longleftrightarrow> ((contents E q)(key E st \<mapsto> st)) k = Some x" for k x
      using contents_iff [OF c, of k x] contents_iff [OF q'(2), of k x] mset_eq_setD [OF q'(3)] in_L [of x] by auto
    then have "contents E q' = (contents E q)(key E st \<mapsto> st)" by (metis ext not_None_eq)
    then show ?thesis using q'(1) n d False by simp
  qed
qed

lemma pop_contents:
  assumes c: "consistent E q" and o: "nonce_ordered E (stList q)" and ne: "stList q \<noteq> []"
  shows "\<exists>x q'. pop E q = Inr (x, q') \<and> contents E q (key E x) = Some x \<and>
            contents E q' = (contents E q)(key E x := None) \<and>
            (\<forall>n y. contents E q (callerStr E x, n) = Some y \<longrightarrow> Nonce x \<le> n)"
proof -
  let ?x = "last (stList q)"
  obtain q' where q': "pop E q = Inr (?x, q')" "consistent E q'" "stList q' = butlast (stList q)"
    using pop_correct [OF c ne] by blast
  have x: "?x = stList q ! (length (stList q) - 1)" "length (stList q) - 1 < length (stList q)"
    using ne by (simp_all add: last_conv_nth)
  have "mset (stList q') = mset (stList q) - {#?x#}"
  proof -
    have "add_mset ?x (mset (butlast (stList q))) = mset (stList q)"
      using arg_cong [OF append_butlast_last_id [OF ne], of mset] by simp
    then show ?thesis using q'(3) by (metis add_mset_remove_trivial)
  qed
  then have d: "contents E q' = (contents E q)(key E ?x := None)"
    using contents_drop [OF c q'(2) x(2)] x(1) by simp
  have "Nonce ?x \<le> n" if k: "contents E q (callerStr E ?x, n) = Some y" for n y
  proof -
    obtain j where j: "j < length (stList q)" "y = stList q ! j" "callerStr E y = callerStr E ?x" "Nonce y = n"
      using contents_other [OF c k] by (auto simp: in_set_conv_nth)
    show ?thesis
    proof (cases "j = length (stList q) - 1")
      case True
      then show ?thesis using j x by simp
    next
      case False
      then have "j < length (stList q) - 1" using j(1) by linarith
      from nonce_ordered_nth [OF o this x(2)] show ?thesis using j x by (simp add: below_def)
    qed
  qed
  then show "\<exists>x q'. pop E q = Inr (x, q') \<and> contents E q (key E x) = Some x \<and>
          contents E q' = (contents E q)(key E x := None) \<and>
          (\<forall>n y. contents E q (callerStr E x, n) = Some y \<longrightarrow> Nonce x \<le> n)"
    using q'(1) d contents_iff [OF c, of "key E ?x" ?x] ne by auto
qed

text \<open>
  C4. The queue is a map. Seen as a finite map from sender and nonce to transactions, a reachable queue
  behaves as follows: \<open>push\<close> inserts a transaction with a new key, replaces one of the same key exactly
  when the gas is higher, and never panics on a sender with a textual form; \<open>remove\<close> deletes exactly the
  transaction at its argument; \<open>pop\<close> deletes and returns a transaction that has the lowest nonce of all
  its sender's transactions.
\<close>

theorem queue_refines_map:
  assumes "queue_reach E q"
  shows "(\<not> isl (Address_String E (From st)) \<longrightarrow> (\<exists>q'. push E second unixtime st q = Inr q' \<and>
            contents E q' = (case contents E q (key E st) of
                None \<Rightarrow> (contents E q)(key E st \<mapsto> st)
              | Some old \<Rightarrow> if GasCap st \<le> GasCap old then contents E q else (contents E q)(key E st \<mapsto> st)))) \<and>
         (i < length (stList q) \<longrightarrow> contents E (remove E i q) = (contents E q)(key E (stList q ! i) := None)) \<and>
         (stList q \<noteq> [] \<longrightarrow> (\<exists>x q'. pop E q = Inr (x, q') \<and> contents E q (key E x) = Some x \<and>
            contents E q' = (contents E q)(key E x := None) \<and>
            (\<forall>n y. contents E q (callerStr E x, n) = Some y \<longrightarrow> Nonce x \<le> n)))"
  using push_contents [of E q st second unixtime] contents_drop [of E q "remove E i q" i] remove_correct [of E q i] pop_contents [of E q]
    reach_invariant [OF assms] by blast

definition demo_stx :: "nat \<Rightarrow> u64 \<Rightarrow> u64 \<Rightarrow> SignedTransaction" where
  "demo_stx who nonce gas = \<lparr>Version = 1, Type = TransferTransaction, From = 0 # replicate 20 (of_nat who), To = 0 # replicate 20 9,
     Amount = 5, Nonce = nonce, GasLimit = gas, GasFeeCap = 0, GasPrice = 1, Input = [],
     Sig = \<lparr>SigType = TypeSecp256k1, Data = replicate 20 (of_nat who) @ replicate 45 0\<rparr>\<rparr>"

fun push_all :: "('z) env_scheme \<Rightarrow> SignedTransaction list \<Rightarrow> orderlyQueue \<Rightarrow> orderlyQueue" where
  "push_all E [] q = q"
| "push_all E (st # sts) q = push_all E sts (case push E 0 0 st q of Inr q' \<Rightarrow> q' | Inl _ \<Rightarrow> q)"

lemma push_all_reach: "queue_reach E q \<Longrightarrow> queue_reach E (push_all E sts q)"
  by (induction sts arbitrary: q) (auto split: sum.split intro: queue_reach.push)

definition demo_queue :: orderlyQueue where
  "demo_queue = push_all demo_env [demo_stx 1 1 10, demo_stx 1 2 100, demo_stx 2 1 50] newQueue"

lemma demo_queue_list: "stList demo_queue = [demo_stx 1 2 100, demo_stx 1 1 10, demo_stx 2 1 50]"
  by code_simp


lemma demo_queue_reach: "queue_reach demo_env demo_queue"
  unfolding demo_queue_def by (rule push_all_reach) (rule queue_reach.init)

theorem queue_invariant_witness:
  "\<exists>r. getIndex demo_queue (callerStr demo_env (stList demo_queue ! 1)) (Nonce (stList demo_queue ! 1)) = Inr r \<and>
     r_idx r = 1 \<and> r_price r = 10"
proof -
  have "\<exists>r. getIndex demo_queue (callerStr demo_env (stList demo_queue ! 1)) (Nonce (stList demo_queue ! 1)) = Inr r \<and>
     r_idx r = 1 \<and> r_price r = GasCap (stList demo_queue ! 1)"
    using queue_invariant [OF demo_queue_reach, THEN conjunct1, THEN spec, of 1] by (simp add: demo_queue_list)
  moreover have "GasCap (stList demo_queue ! 1) = 10" by (simp add: demo_queue_list) code_simp
  ultimately show ?thesis by simp
qed

theorem queue_refines_map_witness:
  "\<exists>x q'. pop demo_env demo_queue = Inr (x, q') \<and> contents demo_env demo_queue (key demo_env x) = Some x \<and>
      contents demo_env q' = (contents demo_env demo_queue)(key demo_env x := None) \<and>
      (\<forall>n y. contents demo_env demo_queue (callerStr demo_env x, n) = Some y \<longrightarrow> Nonce x \<le> n)"
proof -
  have "stList demo_queue \<noteq> []" by (simp add: demo_queue_list)
  then show ?thesis using queue_refines_map [OF demo_queue_reach] by blast
qed

end
