(* ===== verification/Sign.thy ===== *)
theory Sign
  imports State
begin

text \<open>
  Signing and verifying transactions: \<open>pkg/crypto/sigs\<close>, \<open>pkg/transaction/sign.go\<close> and the
  signature part of \<open>contracttransaction.go\<close>. The curves themselves and the decoder of Ethereum
  transactions are third-party code.
\<close>

section \<open>Parameters\<close>

text \<open>The fields of a decoded Ethereum transaction that the code reads.\<close>

record ethtx =
  eth_v :: int
  eth_r :: int
  eth_s :: int
  eth_ChainId :: int
  eth_Hash :: bytes

text \<open>
  \<open>ed_\<dots>\<close> is \<open>crypto/ed25519\<close>, the rest is go-ethereum's \<open>crypto\<close>; \<open>PubkeyAddress\<close> is
  \<open>UnmarshalPubkey\<close> followed by \<open>PubkeyToAddress\<close>.
\<close>

record curves =
  ed_Verify :: "bytes \<Rightarrow> bytes \<Rightarrow> bytes \<Rightarrow> bool"
  ed_Sign :: "bytes \<Rightarrow> bytes \<Rightarrow> bytes"
  ed_Public :: "bytes \<Rightarrow> bytes"
  secp_Sign :: "bytes \<Rightarrow> bytes \<Rightarrow> err + bytes"
  Ecrecover :: "bytes \<Rightarrow> bytes \<Rightarrow> err + bytes"
  PubkeyAddress :: "bytes \<Rightarrow> err + caddr"
  VerifySignature :: "bytes \<Rightarrow> bytes \<Rightarrow> bytes \<Rightarrow> bool"
  DecodeEthData :: "bytes \<Rightarrow> err + ethtx"

section \<open>The registered signature schemes\<close>

definition ed25519_Verify :: "'c curves_scheme \<Rightarrow> bytes \<Rightarrow> bytes \<Rightarrow> bytes \<Rightarrow> err + unit" where
  "ed25519_Verify C sig publicKey msg =
     (if length publicKey \<noteq> 32 \<or> length sig \<noteq> 64 then Inl (Err ''ed25519 signature failed to verify'')
      else if \<not> ed_Verify C publicKey msg sig then Inl (Err ''ed25519 signature failed to verify'')
      else Inr ())"

definition ed25519_Sign :: "'c curves_scheme \<Rightarrow> bytes \<Rightarrow> bytes \<Rightarrow> err + bytes" where
  "ed25519_Sign C priv msg =
     (if length priv \<noteq> 64 then Inl (Err ''ed25519 signature invalid private key'') else Inr (ed_Sign C priv msg))"

definition ed25519_ToPublic :: "'c curves_scheme \<Rightarrow> bytes \<Rightarrow> err + bytes" where
  "ed25519_ToPublic C priv =
     (if length priv \<noteq> 64 then Inl (Err ''ed25519 signature invalid private key'') else Inr (ed_Public C priv))"

definition secp_Verify :: "'c curves_scheme \<Rightarrow> bytes \<Rightarrow> bytes \<Rightarrow> bytes \<Rightarrow> err + unit" where
  "secp_Verify C signature pubKey sighash =
     (if length pubKey \<noteq> 21 then Inl (Err ''signature verification failed'') else
      bindE (Ecrecover C sighash signature) (\<lambda>pub.
      bindE (PubkeyAddress C pub) (\<lambda>maybeAddr.
        if maybeAddr \<noteq> drop 1 pubKey then Inl (Err ''signature verification failed'')
        else if signature = [] then Inl (Panic ''slice bounds out of range'')
        else if \<not> VerifySignature C pub sighash (butlast signature) then Inl (Err ''signature verification failed'')
        else Inr ())))"

definition sigs_Verify :: "'c curves_scheme \<Rightarrow> Signature \<Rightarrow> bytes \<Rightarrow> bytes \<Rightarrow> err + unit" where
  "sigs_Verify C sig pk msg =
     (if SigType sig = TypeED25519 then ed25519_Verify C (Data sig) pk msg
      else if SigType sig = TypeSecp256k1 then secp_Verify C (Data sig) pk msg
      else Inl (Err ''cannot verify message with signature of unsupported type''))"

definition sigs_Sign :: "'c curves_scheme \<Rightarrow> byte \<Rightarrow> bytes \<Rightarrow> bytes \<Rightarrow> err + Signature" where
  "sigs_Sign C sigType priv msg =
     bindE (if sigType = TypeED25519 then ed25519_Sign C priv msg
            else if sigType = TypeSecp256k1 then secp_Sign C priv msg
            else Inl (Err ''cannot sign message with signature of unsupported type''))
       (\<lambda>signature. Inr \<lparr>SigType = sigType, Data = signature\<rparr>)"

section \<open>Signatures of Ethereum transactions\<close>

text \<open>\<open>big.Int.Uint64\<close> of any integer is the low word of its absolute value.\<close>

definition ParseEthSignature :: "ethtx \<Rightarrow> bytes" where
  "ParseEthSignature tx =
     (let v = eth_v tx - eth_ChainId tx * 2 - 8
      in big_Bytes (eth_r tx) @ big_Bytes (eth_s tx) @ [ucast (word_of_int \<bar>v\<bar> - 27 :: u64)])"

text \<open>\<open>ed25519.Verify\<close> panics when the key has not 32 bytes.\<close>

definition VerifyKtoSign :: "'c curves_scheme \<Rightarrow> addr \<Rightarrow> bytes \<Rightarrow> bytes \<Rightarrow> err + bool" where
  "VerifyKtoSign C kFrom msgHash ethdata =
     (case DecodeEthData C ethdata of Inl e \<Rightarrow> Inr False | Inr tx \<Rightarrow>
      let sign = ParseEthSignature tx
      in if length sign \<le> 64 then Inr False
         else if length kFrom \<noteq> 32 then Inl (Panic ''ed25519: bad public key length'')
         else Inr (ed_Verify C kFrom msgHash (take 64 sign)))"

definition VerifyEthSign :: "'c curves_scheme \<Rightarrow> bytes \<Rightarrow> bool" where
  "VerifyEthSign C ethdata =
     (case DecodeEthData C ethdata of Inl e \<Rightarrow> False | Inr tx \<Rightarrow>
      let sign = ParseEthSignature tx
      in if length sign \<le> 64 then False
         else case Ecrecover C (eth_Hash tx) sign of Inl e \<Rightarrow> False
              | Inr pub \<Rightarrow> VerifySignature C pub (eth_Hash tx) (take 64 sign))"

section \<open>Transactions\<close>

definition MutilSign :: "('z) env_scheme \<Rightarrow> 'c curves_scheme \<Rightarrow> bytes \<Rightarrow> bytes \<Rightarrow> Transaction \<Rightarrow> err + SignedTransaction" where
  "MutilSign E C fromPriv toPriv tx =
     (if fromPriv = [] then Inl (Err ''invalid from privte key'')
      else if toPriv = [] then Inl (Err ''invalid from privte key'')
      else bindE (sigs_Sign C (Protocol (From tx)) fromPriv (SignHash E tx)) (\<lambda>fsign.
           bindE (sigs_Sign C (Protocol (To tx)) toPriv (SignHash E tx)) (\<lambda>tsign.
             Inr (Transaction.extend tx (SignedTransaction.fields \<lparr>SigType = TypeMutil, Data = Data fsign @ Data tsign\<rparr>)))))"

definition VerifySign :: "('d, 't, 's, 'z) sys_scheme \<Rightarrow> 'c curves_scheme \<Rightarrow> SignedTransaction \<Rightarrow> err + unit" where
  "VerifySign S C st =
     (if Type st \<in> {TransferTransaction, PledgeTrasnaction, PledgeBreakTransaction, WithdrawToEthTransaction} then
        sigs_Verify C (Sig st) (From st) (SignHash S st)
      else if Type st \<in> {LockTransaction, UnlockTransaction} then
        (let l = (if Protocol (From st) = TypeED25519 then 64 else if Protocol (From st) = TypeSecp256k1 then 65 else 0)
         in if length (Data (Sig st)) < l then Inl (Err ''invalide mutil signature'')
            else bindE (sigs_Verify C \<lparr>SigType = Protocol (From st), Data = take l (Data (Sig st))\<rparr> (From st) (SignHash S st)) (\<lambda>_.
                 sigs_Verify C \<lparr>SigType = Protocol (To st), Data = drop l (Data (Sig st))\<rparr> (To st) (SignHash S st)))
      else if Type st \<in> {EvmContractTransaction, EvmKtoTransaction} then
        bindE (json_DecodeEvm S (Input st)) (\<lambda>evm.
          if 0 < length (MsgHash evm) then
            bindE (VerifyKtoSign C (From st) (MsgHash evm) (EthData evm)) (\<lambda>ok.
              if ok then Inr () else Inl (Err ''verify kto transaction failed!''))
          else if VerifyEthSign C (EthData evm) then Inr ()
          else Inl (Err ''verify eth transaction failed!''))
      else Inr ())"


section \<open>What a verified transaction guarantees\<close>

text \<open>\<open>owner\<close> has signed the message, by the rules of the curve its length stands for.\<close>

definition authorised :: "'c curves_scheme \<Rightarrow> bytes \<Rightarrow> bytes \<Rightarrow> bytes \<Rightarrow> bool" where
  "authorised C owner msg sig \<longleftrightarrow>
     length owner = 32 \<and> length sig = 64 \<and> ed_Verify C owner msg sig \<or>
     length owner = 21 \<and> sig \<noteq> [] \<and> (\<exists>pub. Ecrecover C msg sig = Inr pub \<and> PubkeyAddress C pub = Inr (drop 1 owner) \<and>
       VerifySignature C pub msg (butlast sig))"

lemma sigs_Verify_ok:
  "sigs_Verify C sig pk msg = Inr () \<longleftrightarrow> authorised C pk msg (Data sig) \<and> SigType sig = (if length pk = 32 then TypeED25519 else TypeSecp256k1)"
  by (auto simp: sigs_Verify_def ed25519_Verify_def secp_Verify_def authorised_def bindE_def sigtype_defs split: sum.splits)

lemma sigs_Verify_authorised: "sigs_Verify C \<lparr>SigType = p, Data = d\<rparr> pk msg = Inr () \<Longrightarrow> authorised C pk msg d"
  by (simp add: sigs_Verify_ok)

lemma Protocol_cases:
  "(length a = 32 \<longrightarrow> Protocol a = TypeED25519) \<and> (Protocol a = TypeED25519 \<longrightarrow> length a = 32) \<and>
   (Protocol a = TypeSecp256k1 \<longrightarrow> length a = 21)"
  by (auto simp: Protocol_def sigtype_defs)

lemma guard_ok: "(if b then Inl e else bindE m (\<lambda>_. k)) = Inr () \<longleftrightarrow> \<not> b \<and> m = Inr () \<and> k = Inr ()"
  for m k :: "err + unit" by (auto simp: bindE_ok)

lemma sigs_Verify_typed:
  assumes "p = TypeED25519 \<or> p = TypeSecp256k1" and "p = Protocol a"
  shows "sigs_Verify C \<lparr>SigType = p, Data = d\<rparr> a msg = Inr () \<longleftrightarrow> authorised C a msg d"
proof -
  have "Protocol a = (if length a = 32 then TypeED25519 else TypeSecp256k1)"
    using assms Protocol_cases [of a] by metis
  then show ?thesis by (simp add: sigs_Verify_ok assms(2))
qed

lemma sigs_Verify_unknown: "p = TypeUnknown \<Longrightarrow> sigs_Verify C \<lparr>SigType = p, Data = d\<rparr> b msg \<noteq> Inr ()"
  by (simp add: sigs_Verify_def sigtype_defs)

lemma Protocol_known: "Protocol a \<noteq> TypeUnknown \<longleftrightarrow> Protocol a = TypeED25519 \<or> Protocol a = TypeSecp256k1"
  by (auto simp: Protocol_def sigtype_defs)

text \<open>The length of the part of a double signature that belongs to the sender.\<close>

definition sig_length :: "addr \<Rightarrow> nat" where
  "sig_length a = (if Protocol a = TypeED25519 then 64 else if Protocol a = TypeSecp256k1 then 65 else 0)"

lemma VerifySign_double:
  assumes "Type st \<in> {LockTransaction, UnlockTransaction}"
  shows "VerifySign S C st = Inr () \<longleftrightarrow> sig_length (From st) \<le> length (Data (Sig st)) \<and>
     sigs_Verify C \<lparr>SigType = Protocol (From st), Data = take (sig_length (From st)) (Data (Sig st))\<rparr> (From st) (SignHash S st) = Inr () \<and>
     sigs_Verify C \<lparr>SigType = Protocol (To st), Data = drop (sig_length (From st)) (Data (Sig st))\<rparr> (To st) (SignHash S st) = Inr ()"
proof -
  have n: "Type st \<notin> {TransferTransaction, PledgeTrasnaction, PledgeBreakTransaction, WithdrawToEthTransaction}"
    using assms by (auto simp: txtype_defs)
  show ?thesis
    unfolding VerifySign_def if_not_P [OF n] if_P [OF assms] Let_def sig_length_def guard_ok not_less by (rule refl)
qed

lemma VerifySign_double_iff:
  assumes "Type st \<in> {LockTransaction, UnlockTransaction}"
  shows "VerifySign S C st = Inr () \<longleftrightarrow> Protocol (From st) \<noteq> TypeUnknown \<and> Protocol (To st) \<noteq> TypeUnknown \<and>
    (\<exists>d1 d2. Data (Sig st) = d1 @ d2 \<and> length d1 = sig_length (From st) \<and>
      authorised C (From st) (SignHash S st) d1 \<and> authorised C (To st) (SignHash S st) d2)"
proof (cases "Protocol (From st) = TypeUnknown \<or> Protocol (To st) = TypeUnknown")
  case True
  then have "VerifySign S C st \<noteq> Inr ()"
    unfolding VerifySign_double [OF assms]
    using sigs_Verify_unknown [of "Protocol (From st)"] sigs_Verify_unknown [of "Protocol (To st)"] by blast
  with True show ?thesis by blast
next
  case False
  have split: "n \<le> length xs \<and> P (take n xs) \<and> Q (drop n xs) \<longleftrightarrow> (\<exists>d1 d2. xs = d1 @ d2 \<and> length d1 = n \<and> P d1 \<and> Q d2)"
    for n :: nat and xs :: bytes and P Q
    by (metis append_eq_conv_conj append_take_drop_id le_add1 length_append length_take min.absorb2)
  have v: "sigs_Verify C \<lparr>SigType = Protocol a, Data = d\<rparr> a msg = Inr () \<longleftrightarrow> authorised C a msg d"
    if "a \<in> {From st, To st}" for a d msg
    using that False by (intro sigs_Verify_typed) (auto simp: Protocol_known)
  show ?thesis using False v by (simp add: VerifySign_double [OF assms] split)
qed



section \<open>Signing\<close>

text \<open>The private key belongs to the address.\<close>

definition owns :: "'c curves_scheme \<Rightarrow> (bytes \<Rightarrow> bytes) \<Rightarrow> (bytes \<Rightarrow> caddr) \<Rightarrow> bytes \<Rightarrow> addr \<Rightarrow> bool" where
  "owns C ed_NewKey secp_addr priv a \<longleftrightarrow>
     Protocol a = TypeED25519 \<and> (\<exists>seed. length seed = 32 \<and> priv = ed_NewKey seed) \<and> a = ed_Public C priv \<or>
     Protocol a = TypeSecp256k1 \<and> drop 1 a = secp_addr priv"

text \<open>
  The documented behaviour of the curves: what is signed verifies, with signatures of fixed length.
  \<open>ed_NewKey\<close> is \<open>NewKeyFromSeed\<close> of \<open>crypto/ed25519\<close>, from which every key pair of that package comes: a
  private key whose two halves do not belong together is not one of its values, and of such a key nothing
  is assumed.
\<close>

locale curves_ok =
  fixes C :: "'c curves_scheme" and ed_NewKey :: "bytes \<Rightarrow> bytes" and secp_addr :: "bytes \<Rightarrow> caddr"
  assumes ed_sign: "length seed = 32 \<Longrightarrow> length (ed_Sign C (ed_NewKey seed) msg) = 64 \<and>
      ed_Verify C (ed_Public C (ed_NewKey seed)) msg (ed_Sign C (ed_NewKey seed) msg)"
    and secp_sign: "secp_Sign C priv msg = Inr sig \<Longrightarrow> length sig = 65 \<and>
      (\<exists>pub. Ecrecover C msg sig = Inr pub \<and> PubkeyAddress C pub = Inr (secp_addr priv) \<and> VerifySignature C pub msg (butlast sig))"
begin

lemma signed_authorised:
  assumes o: "owns C ed_NewKey secp_addr priv a" and s: "sigs_Sign C (Protocol a) priv msg = Inr sig"
  shows "authorised C a msg (Data sig) \<and> length (Data sig) = (if Protocol a = TypeED25519 then 64 else 65)"
proof (cases "Protocol a = TypeED25519")
  case True
  obtain seed where k: "length seed = 32" "priv = ed_NewKey seed" and "a = ed_Public C priv"
    using o True by (auto simp: owns_def sigtype_defs)
  moreover have "length a = 32" using Protocol_cases [of a] True by simp
  moreover have "Data sig = ed_Sign C priv msg"
    using s by (auto simp: True sigs_Sign_def ed25519_Sign_def bindE_def split: if_splits)
  ultimately show ?thesis using ed_sign [OF k(1), of msg] k(2) True by (metis authorised_def)
next
  case False
  then have p: "Protocol a = TypeSecp256k1" and d: "drop 1 a = secp_addr priv" using o by (simp_all add: owns_def)
  have ne: "TypeSecp256k1 \<noteq> TypeED25519" by (simp add: sigtype_defs)
  have "length a = 21" using Protocol_cases [of a] p by simp
  moreover have k: "secp_Sign C priv msg = Inr (Data sig)"
    using s ne by (auto simp: p sigs_Sign_def bindE_def split: sum.splits)
  moreover have "Data sig \<noteq> []" using secp_sign [OF k] by auto
  ultimately show ?thesis using secp_sign [OF k] False d by (auto simp: authorised_def)
qed

lemma multi_sign_verifies:
  assumes t: "Type tx \<in> {LockTransaction, UnlockTransaction}" and f: "owns C ed_NewKey secp_addr fromPriv (From tx)" and r: "owns C ed_NewKey secp_addr toPriv (To tx)"
    and m: "MutilSign S C fromPriv toPriv tx = Inr st"
  shows "VerifySign S C st = Inr () \<and> Transaction.truncate st = tx"
proof -
  from m obtain fs ts where fs: "sigs_Sign C (Protocol (From tx)) fromPriv (SignHash S tx) = Inr fs"
    and ts: "sigs_Sign C (Protocol (To tx)) toPriv (SignHash S tx) = Inr ts"
    and st: "st = Transaction.extend tx (SignedTransaction.fields \<lparr>SigType = TypeMutil, Data = Data fs @ Data ts\<rparr>)"
    by (auto simp: MutilSign_def bindE_ok split: if_split_asm)
  have e [simp]: "Type st = Type tx" "From st = From tx" "To st = To tx" "Data (Sig st) = Data fs @ Data ts"
    "Transaction.truncate st = tx"
    by (simp_all add: st Transaction.defs SignedTransaction.defs)
  have h [simp]: "SignHash S st = SignHash S tx"
    by (simp add: SignHash_def Transaction_MarshalCBOR_def st Transaction.defs SignedTransaction.defs)
  note af = signed_authorised [OF f fs] and ar = signed_authorised [OF r ts]
  have pf: "Protocol (From tx) \<in> {TypeED25519, TypeSecp256k1}" and pr: "Protocol (To tx) \<in> {TypeED25519, TypeSecp256k1}"
    using f r by (auto simp: owns_def)
  have t': "Type st \<in> {LockTransaction, UnlockTransaction}" using t by simp
  have "VerifySign S C st = Inr ()"
    unfolding VerifySign_double_iff [OF t'] Protocol_known
  proof (intro conjI exI)
    show "length (Data fs) = sig_length (From st)"
      using af pf by (auto simp: sig_length_def sigtype_defs)
    show "authorised C (From st) (SignHash S st) (Data fs)" "authorised C (To st) (SignHash S st) (Data ts)"
      using af ar by simp_all
  qed (use pf pr in auto)
  then show ?thesis by simp
qed

end


text \<open>A toy pair of curves on which the contract is inhabited.\<close>

definition demo_curves :: curves where
  "demo_curves = \<lparr>ed_Verify = (\<lambda>pk msg sig. sig = pk @ pad_block 32 msg), ed_Sign = (\<lambda>priv msg. take 32 priv @ pad_block 32 msg),
     ed_Public = take 32, secp_Sign = (\<lambda>priv msg. Inr (pad_block 20 priv @ pad_block 45 msg)),
     Ecrecover = (\<lambda>msg sig. if length sig = 65 then Inr (take 20 sig) else Inl (Err ''invalid signature length'')),
     PubkeyAddress = Inr, VerifySignature = (\<lambda>pub msg sig. take 20 sig = pub),
     DecodeEthData = (\<lambda>d. Inr \<lparr>eth_v = 37, eth_r = 2 ^ 256 - 1, eth_s = 2 ^ 256 - 1, eth_ChainId = 1, eth_Hash = d\<rparr>)\<rparr>"

interpretation demo_signing: curves_ok demo_curves "\<lambda>seed. seed @ seed" "pad_block 20"
proof
  fix seed priv msg sig :: bytes
  show "length (ed_Sign demo_curves (seed @ seed) msg) = 64 \<and>
      ed_Verify demo_curves (ed_Public demo_curves (seed @ seed)) msg (ed_Sign demo_curves (seed @ seed) msg)"
    if "length seed = 32" using that by (simp add: demo_curves_def)
  show "length sig = 65 \<and> (\<exists>pub. Ecrecover demo_curves msg sig = Inr pub \<and> PubkeyAddress demo_curves pub = Inr (pad_block 20 priv) \<and>
      VerifySignature demo_curves pub msg (butlast sig))" if "secp_Sign demo_curves priv msg = Inr sig"
  proof -
    have s: "sig = pad_block 20 priv @ pad_block 45 msg" using that by (simp add: demo_curves_def)
    have "take 20 (butlast sig) = pad_block 20 priv" 
      by (metis Suc_numeral length_0_conv length_pad_block butlast_append append_eq_conv_conj s zero_neq_numeral)
    then show ?thesis by (simp add: demo_curves_def s)
  qed
qed

text \<open>
  C7. Signing and verifying agree. On curves of the documented behaviour, a lock or unlock that
  \<open>MutilSign\<close> signs with the private keys of its sender and receiver (of an ed25519 address, with a key
  made from a seed) passes \<open>VerifySign\<close>, and its unsigned part is the transaction that was signed.
\<close>

theorem multi_signature_roundtrip:
  assumes "curves_ok C ed_NewKey secp_addr" and "Type tx \<in> {LockTransaction, UnlockTransaction}"
    and "owns C ed_NewKey secp_addr fromPriv (From tx)" and "owns C ed_NewKey secp_addr toPriv (To tx)"
    and "MutilSign S C fromPriv toPriv tx = Inr st"
  shows "VerifySign S C st = Inr () \<and> Transaction.truncate st = tx"
  by (rule curves_ok.multi_sign_verifies [OF assms])

definition demo_lock :: Transaction where
  "demo_lock = \<lparr>Version = 1, Type = LockTransaction, From = replicate 32 5, To = 0 # replicate 20 2,
     Amount = 500, Nonce = 1, GasLimit = 1500, GasFeeCap = 0, GasPrice = 1400, Input = []\<rparr>"

lemma demo_lock_signed:
  "\<exists>st. MutilSign demo_sys demo_curves (replicate 64 5) (replicate 20 2) demo_lock = Inr st"
proof -
  have p: "Protocol (replicate 32 5) = TypeED25519" "Protocol (0 # replicate 20 2) = TypeSecp256k1"
    by (simp_all add: Protocol_def sigtype_defs)
  show ?thesis
    by (simp add: MutilSign_def sigs_Sign_def ed25519_Sign_def demo_lock_def p bindE_def demo_curves_def sigtype_defs)
qed

lemma demo_lock_owners:
  "owns demo_curves (\<lambda>seed. seed @ seed) (pad_block 20) (replicate 64 5) (From demo_lock)"
  "owns demo_curves (\<lambda>seed. seed @ seed) (pad_block 20) (replicate 20 2) (To demo_lock)"
proof -
  have "(replicate 64 5 :: bytes) = replicate 32 5 @ replicate 32 5" by (simp flip: replicate_add)
  moreover have "length (replicate 32 5 :: bytes) = 32" by simp
  ultimately have "\<exists>seed. length seed = 32 \<and> (replicate 64 5 :: bytes) = seed @ seed" by blast
  then show "owns demo_curves (\<lambda>seed. seed @ seed) (pad_block 20) (replicate 64 5) (From demo_lock)"
    "owns demo_curves (\<lambda>seed. seed @ seed) (pad_block 20) (replicate 20 2) (To demo_lock)"
    by (simp_all add: owns_def Protocol_def sigtype_defs demo_lock_def demo_curves_def pad_block_def)
qed

theorem multi_signature_roundtrip_witness:
  "\<exists>st. MutilSign demo_sys demo_curves (replicate 64 5) (replicate 20 2) demo_lock = Inr st \<and>
     VerifySign demo_sys demo_curves st = Inr () \<and> Transaction.truncate st = demo_lock"
proof -
  obtain st where st: "MutilSign demo_sys demo_curves (replicate 64 5) (replicate 20 2) demo_lock = Inr st"
    using demo_lock_signed by blast
  have "Type demo_lock \<in> {LockTransaction, UnlockTransaction}" by (simp add: demo_lock_def)
  then show ?thesis
    using multi_signature_roundtrip [OF demo_signing.curves_ok_axioms _ demo_lock_owners st] st by blast
qed

lemma demo_lock_fields: "Type demo_lock = LockTransaction" "From demo_lock = replicate 32 5"
  by (simp_all add: demo_lock_def)

lemma truncate_fields: "Type (Transaction.truncate st) = Type st" "From (Transaction.truncate st) = From st"
  by (simp_all add: Transaction.truncate_def)


definition demo_evm :: EvmContract where
  "demo_evm = \<lparr>EthData = [], MsgHash = [], Operation = [], CreateCode = [], Origin = [], ContractAddr = [], CallInput = [],
     Ret = [], Status = False, Logs = []\<rparr>"

definition demo_call :: SignedTransaction where
  "demo_call = \<lparr>Version = 1, Type = EvmContractTransaction, From = 0 # replicate 20 1, To = 0 # replicate 20 9,
     Amount = 5, Nonce = 1, GasLimit = 1500, GasFeeCap = 0, GasPrice = 1400, Input = [],
     Sig = \<lparr>SigType = TypeSecp256k1, Data = []\<rparr>\<rparr>"


end
