(* ===== verification/Pool.thy ===== *)
theory Pool
  imports Queue Sign "HOL-Library.Sublist"
begin

text \<open>
  The transaction pool, \<open>pkg/txpool/pool.go\<close>: admission of transactions, the simulation that selects
  those a miner may pack into a block, and the eviction of old ones. The chain the pool asks is the
  interface \<open>IBlockchain\<close>; \<open>chain_bc\<close> is its implementation by \<open>Blockchain\<close>.
\<close>

section \<open>State\<close>

definition PendingLimit :: nat where "PendingLimit = 100"
definition poolCap :: nat where "poolCap = 10000"
definition timesub :: int where "timesub = 100"

record IBlockchain =
  bc_GetNonce :: "addr \<Rightarrow> err + u64"
  bc_GetAvailableBalance :: "addr \<Rightarrow> err + u64"
  bc_GetAllFreezeBalance :: "addr \<Rightarrow> err + u64"
  bc_GetSingleFreezeBalance :: "addr \<Rightarrow> addr \<Rightarrow> err + u64"

definition chain_bc :: "('d, 't, 's, 'z) sys_scheme \<Rightarrow> 's \<Rightarrow> IBlockchain" where
  "chain_bc S s = \<lparr>bc_GetNonce = getNonce S s, bc_GetAvailableBalance = getAvailableBalance S s,
     bc_GetAllFreezeBalance = getAllFreezeBalance S s, bc_GetSingleFreezeBalance = getSingleFreezeBalance S s\<rparr>"

text \<open>
  The pool holds its queue and the buffer whose front \<open>Pending\<close> returns: the next call of \<open>Pending\<close>
  overwrites what the previous one returned.
\<close>

record Pool =
  pq :: orderlyQueue
  pendingBuf :: "SignedTransaction list"

definition zero_stx :: SignedTransaction where
  "zero_stx = \<lparr>Version = 0, Type = 0, From = [], To = [], Amount = 0, Nonce = 0, GasLimit = 0, GasFeeCap = 0, GasPrice = 0,
     Input = [], Sig = \<lparr>SigType = 0, Data = []\<rparr>\<rparr>"

definition NewPool :: Pool where
  "NewPool = \<lparr>pq = newQueue, pendingBuf = replicate PendingLimit zero_stx\<rparr>"

section \<open>Admission\<close>

text \<open>The error of \<open>GetNonce\<close> is dropped, its value then is zero.\<close>

definition geCallerNonce :: "IBlockchain \<Rightarrow> addr \<Rightarrow> u64 \<Rightarrow> err + unit" where
  "geCallerNonce bc caller nonce =
     (let lastNonce = (case bc_GetNonce bc caller of Inl _ \<Rightarrow> 0 | Inr n \<Rightarrow> n)
      in if nonce < lastNonce then Inl (Err ''transaction.nonce must be greater than the chain nonce'') else Inr ())"

definition pool_add :: "('z) env_scheme \<Rightarrow> IBlockchain \<Rightarrow> int \<Rightarrow> int \<Rightarrow> SignedTransaction \<Rightarrow> (Pool, unit) M" where
  "pool_add E bc second unixtime st =
     bindM (readM (\<lambda>p. Inr (length (stList (pq p))))) (\<lambda>len.
     thenM (failIf (poolCap \<le> len) (Err ''pool is full,please try again later''))
     (thenM (liftE (geCallerNonce bc (From st) (Nonce st)))
     (bindM (readM (\<lambda>p. push E second unixtime st (pq p))) (\<lambda>q. modM (\<lambda>p. p\<lparr>pq := q\<rparr>)))))"

definition Pool_Add :: "('d, 't, 's, 'z) sys_scheme \<Rightarrow> 'c curves_scheme \<Rightarrow> IBlockchain \<Rightarrow> int \<Rightarrow> int \<Rightarrow> SignedTransaction \<Rightarrow> (Pool, unit) M" where
  "Pool_Add S C bc second unixtime st =
     thenM (failIf (Type st = TransferTransaction \<and> 0 < length (Input st)) (Err ''Unsupported Token transaction currently''))
     (thenM (failIf (GasLimit st * GasPrice st < MINGASLIMIT \<or> MAXGASLIMIT < GasLimit st * GasPrice st)
               (Err ''gas is too small or too big''))
     (thenM (liftE (VerifySign S C st))
     (thenM (liftE (Address_String S (From st)))
     (pool_add S bc second unixtime st))))"

text \<open>The errors are collected; composing their messages takes the text of the sender's address.\<close>

fun AddList :: "('d, 't, 's, 'z) sys_scheme \<Rightarrow> 'c curves_scheme \<Rightarrow> IBlockchain \<Rightarrow> int \<Rightarrow> int \<Rightarrow> SignedTransaction list \<Rightarrow> (Pool, err list) M" where
  "AddList S C bc second unixtime [] p = (Inr [], p)"
| "AddList S C bc second unixtime (st # sts) p =
     (case (case VerifySign S C st of Inl e \<Rightarrow> (Inl e, p) | Inr _ \<Rightarrow> pool_add S bc second unixtime st p) of
        (Inr _, p) \<Rightarrow> AddList S C bc second unixtime sts p
      | (Inl (Panic m), p) \<Rightarrow> (Inl (Panic m), p)
      | (Inl e, p) \<Rightarrow>
          (case Address_String S (From st) of Inl e' \<Rightarrow> (Inl e', p)
           | Inr _ \<Rightarrow> (case AddList S C bc second unixtime sts p of
                 (Inl e', p) \<Rightarrow> (Inl e', p) | (Inr es, p) \<Rightarrow> (Inr (e # es), p))))"

section \<open>Simulation of the pending transactions\<close>

record traderInfo =
  availableBalance :: u64
  lockBalance :: u64
  nextNonce :: u64
  sigleLockBalance :: u64
  sigleExist :: bool

type_synonym traders = "bytes \<rightharpoonup> traderInfo"

definition zeroInfo :: traderInfo where
  "zeroInfo = \<lparr>availableBalance = 0, lockBalance = 0, nextNonce = 0, sigleLockBalance = 0, sigleExist = False\<rparr>"

text \<open>
  Asking the chain about a trader. A failing call leaves the zero value in its field and the fields
  after it unset; the caller gets the incomplete record together with the error.
\<close>

definition freshInfo :: "IBlockchain \<Rightarrow> addr \<Rightarrow> traderInfo \<times> err option" where
  "freshInfo bc trader =
     (case bc_GetAvailableBalance bc trader of Inl e \<Rightarrow> (zeroInfo, Some e) | Inr a \<Rightarrow>
     (let i = zeroInfo\<lparr>availableBalance := a\<rparr> in
      case bc_GetAllFreezeBalance bc trader of Inl e \<Rightarrow> (i, Some e) | Inr l \<Rightarrow>
     (let i = i\<lparr>lockBalance := l\<rparr> in
      case bc_GetNonce bc trader of Inl e \<Rightarrow> (i, Some e) | Inr n \<Rightarrow> (i\<lparr>nextNonce := n\<rparr>, None))))"

definition singleInfo :: "IBlockchain \<Rightarrow> addr \<Rightarrow> addr option \<Rightarrow> traderInfo \<Rightarrow> traderInfo \<times> err option" where
  "singleInfo bc trader receiver i =
     (case receiver of None \<Rightarrow> (i, None) | Some r \<Rightarrow>
        if sigleExist i then (i, None)
        else case bc_GetSingleFreezeBalance bc trader r of
               Inl e \<Rightarrow> (i\<lparr>sigleLockBalance := 0\<rparr>, Some e)
             | Inr v \<Rightarrow> (i\<lparr>sigleLockBalance := v, sigleExist := True\<rparr>, None))"

definition getTraderInfo :: "('z) env_scheme \<Rightarrow> IBlockchain \<Rightarrow> addr \<Rightarrow> addr option \<Rightarrow> (traders, traderInfo \<times> err option) M" where
  "getTraderInfo E bc trader receiver =
     bindM (liftE (Address_String E trader)) (\<lambda>s. \<lambda>buf.
       case (case buf s of Some i \<Rightarrow> (i, None) | None \<Rightarrow> freshInfo bc trader) of
         (i, Some e) \<Rightarrow> (Inr (i, Some e), buf)
       | (i, None) \<Rightarrow>
           if buf s \<noteq> None \<and> receiver = None then (Inr (i, None), buf)
           else case singleInfo bc trader receiver i of
                  (i, Some e) \<Rightarrow> (Inr (i, Some e), buf)
                | (i, None) \<Rightarrow> (Inr (i, None), buf(s \<mapsto> i)))"

definition traderOf :: "('z) env_scheme \<Rightarrow> IBlockchain \<Rightarrow> addr \<Rightarrow> addr option \<Rightarrow> (traders, traderInfo) M" where
  "traderOf E bc trader receiver =
     bindM (getTraderInfo E bc trader receiver) (\<lambda>(i, e). case e of None \<Rightarrow> retM i | Some e \<Rightarrow> raiseM e)"

definition putTrader :: "('z) env_scheme \<Rightarrow> addr \<Rightarrow> traderInfo \<Rightarrow> (traders, unit) M" where
  "putTrader E trader i = bindM (liftE (Address_String E trader)) (\<lambda>s. modM (\<lambda>buf. buf(s \<mapsto> i)))"

definition compareNonce :: "('z) env_scheme \<Rightarrow> IBlockchain \<Rightarrow> addr \<Rightarrow> u64 \<Rightarrow> (traders, int) M" where
  "compareNonce E bc trader nonce =
     bindM (getTraderInfo E bc trader None) (\<lambda>(i, _).
       retM (if nonce < nextNonce i then - 1 else if nextNonce i < nonce then 1 else 0))"

definition transferTransactionPreCalculated :: "('z) env_scheme \<Rightarrow> IBlockchain \<Rightarrow> 'y Transaction_scheme \<Rightarrow> (traders, unit) M" where
  "transferTransactionPreCalculated E bc tx =
     bindM (traderOf E bc (From tx) None) (\<lambda>caller.
     bindM (traderOf E bc (To tx) None) (\<lambda>receiver.
     bindM (liftE (AddUint64Overflow (Amount tx) [GasCap tx])) (\<lambda>amountAndGas.
     bindM (liftE (SubUint64Overflow (availableBalance caller) [amountAndGas])) (\<lambda>callerBal.
     bindM (liftE (AddUint64Overflow (availableBalance receiver) [Amount tx])) (\<lambda>receiverBal.
     thenM (putTrader E (From tx) (caller\<lparr>nextNonce := nextNonce caller + 1, availableBalance := callerBal\<rparr>))
           (putTrader E (To tx) (receiver\<lparr>availableBalance := receiverBal\<rparr>)))))))"

definition lockTransactionPreCalculated :: "('z) env_scheme \<Rightarrow> IBlockchain \<Rightarrow> 'y Transaction_scheme \<Rightarrow> (traders, unit) M" where
  "lockTransactionPreCalculated E bc tx =
     bindM (traderOf E bc (From tx) None) (\<lambda>caller.
     thenM (failIf (availableBalance caller < Amount tx) (Err ''avaliable balance < lock amount''))
     (bindM (liftE (AddUint64Overflow (lockBalance caller) [Amount tx])) (\<lambda>lockBal.
     bindM (liftE (SubUint64Overflow (availableBalance caller) [Amount tx])) (\<lambda>avlBal.
     bindM (liftE (SubUint64Overflow avlBal [GasCap tx])) (\<lambda>avlBal.
     putTrader E (From tx) (caller\<lparr>nextNonce := nextNonce caller + 1, lockBalance := lockBal, availableBalance := avlBal\<rparr>))))))"

definition unlockTransactionPreCalculated :: "('z) env_scheme \<Rightarrow> IBlockchain \<Rightarrow> 'y Transaction_scheme \<Rightarrow> (traders, unit) M" where
  "unlockTransactionPreCalculated E bc tx =
     bindM (traderOf E bc (From tx) (Some (To tx))) (\<lambda>caller.
     thenM (failIf (sigleLockBalance caller < Amount tx) (Err ''single locked balance < lock amount''))
     (bindM (liftE (SubUint64Overflow (lockBalance caller) [Amount tx])) (\<lambda>lockBal.
     bindM (liftE (SubUint64Overflow (sigleLockBalance caller) [Amount tx])) (\<lambda>singleBal.
     bindM (liftE (SubUint64Overflow (availableBalance caller) [GasCap tx])) (\<lambda>avlBal.
     bindM (liftE (AddUint64Overflow avlBal [Amount tx])) (\<lambda>avlBal.
     putTrader E (From tx) (caller\<lparr>nextNonce := nextNonce caller + 1, lockBalance := lockBal, availableBalance := avlBal,
                                   sigleLockBalance := singleBal\<rparr>)))))))"

definition pledgeTrasnactionPreCalculated :: "('z) env_scheme \<Rightarrow> IBlockchain \<Rightarrow> 'y Transaction_scheme \<Rightarrow> (traders, unit) M" where
  "pledgeTrasnactionPreCalculated E bc tx =
     bindM (traderOf E bc (From tx) None) (\<lambda>caller.
     thenM (failIf (availableBalance caller < Amount tx) (Err ''available balance < lock amount''))
     (bindM (liftE (SubUint64Overflow (availableBalance caller) [Amount tx])) (\<lambda>avlBalance.
     bindM (liftE (SubUint64Overflow avlBalance [GasCap tx])) (\<lambda>avlBalance.
     putTrader E (From tx) (caller\<lparr>nextNonce := nextNonce caller + 1, availableBalance := avlBalance\<rparr>)))))"

definition redeemTrasnactionPreCalculated :: "('z) env_scheme \<Rightarrow> IBlockchain \<Rightarrow> 'y Transaction_scheme \<Rightarrow> (traders, unit) M" where
  "redeemTrasnactionPreCalculated E bc tx =
     thenM (failIf (Amount tx \<noteq> 0) (Err ''tx.Amount expect 0''))
     (bindM (traderOf E bc (From tx) None) (\<lambda>caller.
     thenM (failIf (availableBalance caller < Amount tx) (Err ''available balance < lock amount''))
     (bindM (liftE (SubUint64Overflow (availableBalance caller) [GasCap tx])) (\<lambda>avlBalance.
     putTrader E (From tx) (caller\<lparr>nextNonce := nextNonce caller + 1, availableBalance := avlBalance\<rparr>)))))"

definition transactionPreCalculated :: "('z) env_scheme \<Rightarrow> IBlockchain \<Rightarrow> 'y Transaction_scheme \<Rightarrow> (traders, unit) M" where
  "transactionPreCalculated E bc tx =
     (if Type tx = TransferTransaction then transferTransactionPreCalculated E bc tx
      else if Type tx = LockTransaction then lockTransactionPreCalculated E bc tx
      else if Type tx = UnlockTransaction then unlockTransactionPreCalculated E bc tx
      else if Type tx \<in> {PledgeTrasnaction, EvmContractTransaction, EvmKtoTransaction} then pledgeTrasnactionPreCalculated E bc tx
      else if Type tx = PledgeBreakTransaction then redeemTrasnactionPreCalculated E bc tx
      else raiseM (Err ''unknown transaction type''))"

text \<open>
  The loop over the queue from its end; \<open>out\<close> holds the transactions written to the buffer so far,
  \<open>badTxIdxs\<close> the positions to remove.
\<close>

record selection =
  traders :: traders
  badTxIdxs :: "nat list"
  out :: "SignedTransaction list"

definition select_step :: "('z) env_scheme \<Rightarrow> IBlockchain \<Rightarrow> SignedTransaction \<Rightarrow> nat \<Rightarrow> (selection, unit) M" where
  "select_step E bc st idx s =
     (case compareNonce E bc (From st) (Nonce st) (traders s) of
        (Inl e, b) \<Rightarrow> (Inl e, s\<lparr>traders := b\<rparr>)
      | (Inr n, b) \<Rightarrow>
          if n \<noteq> 0 then
            (case getTraderInfo E bc (From st) None b of
               (Inl e, b) \<Rightarrow> (Inl e, s\<lparr>traders := b\<rparr>)
             | (Inr (_, Some _), b) \<Rightarrow> (Inr (), s\<lparr>traders := b\<rparr>)
             | (Inr (_, None), b) \<Rightarrow>
                 (Inr (), s\<lparr>traders := b, badTxIdxs := badTxIdxs s @ (if n < 0 then [idx] else [])\<rparr>))
          else
            (case transactionPreCalculated E bc st b of
               (Inl (Panic m), b) \<Rightarrow> (Inl (Panic m), s\<lparr>traders := b\<rparr>)
             | (Inl _, b) \<Rightarrow> (Inr (), s\<lparr>traders := b, badTxIdxs := badTxIdxs s @ [idx]\<rparr>)
             | (Inr _, b) \<Rightarrow> (Inr (), s\<lparr>traders := b, out := out s @ [st]\<rparr>)))"

fun pending_loop :: "('z) env_scheme \<Rightarrow> IBlockchain \<Rightarrow> SignedTransaction list \<Rightarrow> nat \<Rightarrow> (selection, unit) M" where
  "pending_loop E bc xs 0 s = (Inr (), s)"
| "pending_loop E bc xs (Suc idx) s =
     (if length (out s) < PendingLimit
      then case select_step E bc (xs ! idx) idx s of (Inl e, s) \<Rightarrow> (Inl e, s) | (Inr _, s) \<Rightarrow> pending_loop E bc xs idx s
      else (Inr (), s))"

fun remove_all_at :: "('z) env_scheme \<Rightarrow> nat list \<Rightarrow> orderlyQueue \<Rightarrow> orderlyQueue" where
  "remove_all_at E [] q = q"
| "remove_all_at E (i # is) q = remove_all_at E is (remove E i q)"

definition Pending :: "('z) env_scheme \<Rightarrow> IBlockchain \<Rightarrow> (Pool, SignedTransaction list) M" where
  "Pending E bc p =
     (case pending_loop E bc (stList (pq p)) (length (stList (pq p))) \<lparr>traders = Map.empty, badTxIdxs = [], out = []\<rparr> of
        (Inl e, s) \<Rightarrow> (Inl e, p\<lparr>pendingBuf := out s @ drop (length (out s)) (pendingBuf p)\<rparr>)
      | (Inr _, s) \<Rightarrow>
          let buf = out s @ drop (length (out s)) (pendingBuf p)
          in (Inr (take (length (out s)) buf),
              p\<lparr>pq := remove_all_at E (badTxIdxs s) (pq p), pendingBuf := buf\<rparr>))"

section \<open>Lookup and eviction\<close>

text \<open>\<open>strings.Split\<close> at a single byte, and \<open>strconv.ParseUint(s, 10, 64)\<close>.\<close>

fun split_at :: "byte \<Rightarrow> bytes \<Rightarrow> bytes list" where
  "split_at sep [] = [[]]"
| "split_at sep (c # cs) =
     (if c = sep then [] # split_at sep cs
      else case split_at sep cs of [] \<Rightarrow> [[c]] | w # ws \<Rightarrow> (c # w) # ws)"

fun dec_value :: "bytes \<Rightarrow> nat \<Rightarrow> nat" where
  "dec_value [] acc = acc"
| "dec_value (c # cs) acc = dec_value cs (acc * 10 + (unat c - 48))"

definition ParseUint :: "bytes \<Rightarrow> err + u64" where
  "ParseUint s =
     (if s = [] \<or> (\<exists>c \<in> set s. c < 48 \<or> 57 < c) then Inl (Err ''invalid syntax'')
      else if 2 ^ 64 \<le> dec_value s 0 then Inl (Err ''value out of range'')
      else Inr (word_of_nat (dec_value s 0)))"

definition parseKey :: "bytes \<Rightarrow> err + bytes \<times> u64" where
  "parseKey k =
     (case split_at 95 k of
        [a, b] \<Rightarrow> bindE (ParseUint b) (\<lambda>nonce. Inr (a, nonce))
      | _ \<Rightarrow> Inl (Err ''invalid time key''))"

definition getAddrAndNonceByHash :: "orderlyQueue \<Rightarrow> bytes \<Rightarrow> err + bytes \<times> u64" where
  "getAddrAndNonceByHash q hash =
     (case hashBuffer q hash of None \<Rightarrow> Inl (Err ''not exist'') | Some k \<Rightarrow>
        if 124 \<in> set k
        then case ParseUint (tl (dropWhile (\<lambda>c. c \<noteq> 124) k)) of
               Inl _ \<Rightarrow> Inl (Err []) | Inr nonce \<Rightarrow> Inr (takeWhile (\<lambda>c. c \<noteq> 124) k, nonce)
        else Inl (Err []))"

definition HashExist :: "orderlyQueue \<Rightarrow> bytes \<Rightarrow> bool" where
  "HashExist q hash \<longleftrightarrow> hashBuffer q hash \<noteq> None"

definition findSignedTransactionIdx :: "('z) env_scheme \<Rightarrow> Pool \<Rightarrow> addr \<Rightarrow> u64 \<Rightarrow> err + nat option" where
  "findSignedTransactionIdx E p addr nonce =
     bindE (Address_String E addr) (\<lambda>a.
       Inr (case find (\<lambda>r. r_nonce r = nonce) (rst_list (pq p) a) of
              None \<Rightarrow> None
            | Some rst \<Rightarrow> if length (stList (pq p)) \<le> r_idx rst then None else Some (r_idx rst)))"

definition FindSignedTransaction :: "('z) env_scheme \<Rightarrow> Pool \<Rightarrow> addr \<Rightarrow> u64 \<Rightarrow> err + SignedTransaction option" where
  "FindSignedTransaction E p addr nonce =
     bindE (findSignedTransactionIdx E p addr nonce) (\<lambda>i. Inr (map_option (\<lambda>i. stList (pq p) ! i) i))"

definition CopySignedTransactions :: "Pool \<Rightarrow> SignedTransaction list" where
  "CopySignedTransactions p = stList (pq p)"

definition GetTxByHash :: "('z) env_scheme \<Rightarrow> Pool \<Rightarrow> bytes \<Rightarrow> err + SignedTransaction" where
  "GetTxByHash E p hash =
     bindE (getAddrAndNonceByHash (pq p) hash) (\<lambda>(addrStr, nonce).
     bindE (NewAddrFromString E addrStr) (\<lambda>addr.
     bindE (findSignedTransactionIdx E p addr nonce) (\<lambda>i. case i of
       None \<Rightarrow> Inl (Err ''not exist'')
     | Some idx \<Rightarrow>
         if length (stList (pq p)) < idx \<or> HashToString E (stList (pq p) ! idx) \<noteq> hash then Inl (Err ''not exist'')
         else Inr (stList (pq p) ! idx))))"

text \<open>
  One entry of the time buffer. Go visits the entries of a map in an arbitrary order, which is an
  argument of \<open>cacheOutSignedTransaction\<close>.
\<close>

definition cache_out_one :: "('z) env_scheme \<Rightarrow> int \<Rightarrow> bytes \<Rightarrow> (Pool, unit) M" where
  "cache_out_one E unixtime k p =
     (case timeBuffer (pq p) k of None \<Rightarrow> (Inr (), p) | Some v \<Rightarrow>
      if unixtime - 3 * timesub < v then (Inr (), p)
      else
        let p = p\<lparr>pq := (pq p)\<lparr>timeBuffer := (timeBuffer (pq p))(k := None)\<rparr>\<rparr> in
        case parseKey k of Inl _ \<Rightarrow> (Inr (), p) | Inr (caller, nonce) \<Rightarrow>
        case NewAddrFromString E caller of
          Inl (Panic m) \<Rightarrow> (Inl (Panic m), p)
        | Inl _ \<Rightarrow> (Inr (), p)
        | Inr addr \<Rightarrow>
            (case findSignedTransactionIdx E p addr nonce of
               Inl e \<Rightarrow> (Inl e, p)
             | Inr None \<Rightarrow> (Inr (), p)
             | Inr (Some idx) \<Rightarrow> (Inr (), p\<lparr>pq := remove E idx (pq p)\<rparr>)))"

fun cache_out_all :: "('z) env_scheme \<Rightarrow> int \<Rightarrow> bytes list \<Rightarrow> (Pool, unit) M" where
  "cache_out_all E unixtime [] p = (Inr (), p)"
| "cache_out_all E unixtime (k # ks) p = thenM (cache_out_one E unixtime k) (cache_out_all E unixtime ks) p"

lemma length_close_gap: "length (stList (close_gap E i q)) = length (stList q)"
  by (induction E i q rule: close_gap.induct) (subst close_gap.simps, simp)

lemma length_remove_first: "stList q \<noteq> [] \<Longrightarrow> length (stList (remove E 0 q)) = length (stList q) - 1"
  by (simp add: remove_def Let_def length_close_gap)

function drop_lowest :: "('z) env_scheme \<Rightarrow> orderlyQueue \<Rightarrow> orderlyQueue" where
  "drop_lowest E q = (if poolCap div 3 * 2 < length (stList q) then drop_lowest E (remove E 0 q) else q)"
  by pat_completeness auto
termination
proof (relation "measure (\<lambda>(E, q). length (stList q))")
  fix E :: "('z) env_scheme" and q :: orderlyQueue
  assume "poolCap div 3 * 2 < length (stList q)"
  then have "stList q \<noteq> []" by auto
  then show "((E, remove E 0 q), E, q) \<in> measure (\<lambda>(E, q). length (stList q))" by (simp add: length_remove_first)
qed simp

declare drop_lowest.simps [simp del]

definition cacheOutSignedTransaction :: "('z) env_scheme \<Rightarrow> int \<Rightarrow> bytes list \<Rightarrow> (Pool, unit) M" where
  "cacheOutSignedTransaction E unixtime ks =
     thenM (cache_out_all E unixtime ks) (modM (\<lambda>p. p\<lparr>pq := drop_lowest E (pq p)\<rparr>))"

text \<open>The packed transactions leave the pool; the nonces of one sender are distinct, so at most one entry matches.\<close>

fun filter_out :: "('z) env_scheme \<Rightarrow> SignedTransaction list \<Rightarrow> (Pool, unit) M" where
  "filter_out E [] p = (Inr (), p)"
| "filter_out E (st # sts) p =
     (case Address_String E (From st) of Inl e \<Rightarrow> (Inl e, p) | Inr a \<Rightarrow>
        filter_out E sts
          (case find (\<lambda>r. r_nonce r = Nonce st) (rst_list (pq p) a) of
             None \<Rightarrow> p | Some rst \<Rightarrow> p\<lparr>pq := remove E (r_idx rst) (pq p)\<rparr>))"

definition FilterTransaction :: "('z) env_scheme \<Rightarrow> int \<Rightarrow> bytes list \<Rightarrow> SignedTransaction list \<Rightarrow> (Pool, unit) M" where
  "FilterTransaction E unixtime ks sts = thenM (filter_out E sts) (cacheOutSignedTransaction E unixtime ks)"

section \<open>The simulation\<close>

text \<open>The nonce that the simulation expects next of a sender.\<close>

definition expects :: "traders \<Rightarrow> bytes \<Rightarrow> u64 option" where
  "expects b c = map_option nextNonce (b c)"

text \<open>Asking about a trader only adds entries, with the nonce of the chain.\<close>

definition chain_nonce :: "('z) env_scheme \<Rightarrow> IBlockchain \<Rightarrow> bytes \<Rightarrow> u64 \<Rightarrow> bool" where
  "chain_nonce E bc c n \<longleftrightarrow> (\<exists>a. Address_String E a = Inr c \<and> bc_GetNonce bc a = Inr n)"

definition grows :: "('z) env_scheme \<Rightarrow> IBlockchain \<Rightarrow> traders \<Rightarrow> traders \<Rightarrow> bool" where
  "grows E bc b b' \<longleftrightarrow> (\<forall>c. expects b' c = expects b c \<or> expects b c = None \<and> (\<exists>n. expects b' c = Some n \<and> chain_nonce E bc c n))"

lemma grows_refl [simp]: "grows E bc b b"
  by (simp add: grows_def)

lemma grows_trans: "grows E bc b b' \<Longrightarrow> grows E bc b' b'' \<Longrightarrow> grows E bc b b''"
  unfolding grows_def by metis

lemma freshInfo_ok: "freshInfo bc a = (i, None) \<Longrightarrow> bc_GetNonce bc a = Inr (nextNonce i)"
  by (auto simp: freshInfo_def Let_def split: sum.splits)

lemma singleInfo_ok: "singleInfo bc a r i = (i', None) \<Longrightarrow> nextNonce i' = nextNonce i"
  by (auto simp: singleInfo_def split: option.splits if_splits sum.splits)

lemma getTraderInfo_grows:
  assumes "getTraderInfo E bc a r b = (x, b')"
  shows "grows E bc b b'"
proof (cases "Address_String E a")
  case (Inl e)
  then show ?thesis using assms by (simp add: getTraderInfo_def monad_simps)
next
  case (Inr s)
  show ?thesis
  proof (cases "b s")
    case None
    then show ?thesis using assms Inr
      by (auto simp: getTraderInfo_def monad_simps grows_def expects_def chain_nonce_def
            dest!: singleInfo_ok split: prod.splits option.splits if_splits)
         (metis freshInfo_ok)+
  next
    case (Some i)
    then show ?thesis using assms Inr
      by (auto simp: getTraderInfo_def monad_simps grows_def expects_def
            dest!: singleInfo_ok split: prod.splits option.splits if_splits)
  qed
qed

lemma getTraderInfo_ok:
  assumes "getTraderInfo E bc a r b = (Inr (i, None), b')"
  shows "\<exists>s. Address_String E a = Inr s \<and> expects b' s = Some (nextNonce i)"
  using assms
  by (auto simp: getTraderInfo_def monad_simps expects_def dest!: singleInfo_ok split: sum.splits prod.splits option.splits if_splits)

lemma traderOf_ok:
  assumes "traderOf E bc a r b = (Inr i, b')"
  shows "grows E bc b b' \<and> (\<exists>s. Address_String E a = Inr s \<and> expects b' s = Some (nextNonce i) \<and>
           (b s \<noteq> None \<or> snd (freshInfo bc a) = None))"
proof -
  from assms have g: "getTraderInfo E bc a r b = (Inr (i, None), b')"
    unfolding traderOf_def bindM_ok by (auto simp: monad_simps split: option.splits prod.splits)
  then have "\<exists>s. Address_String E a = Inr s \<and> (b s \<noteq> None \<or> snd (freshInfo bc a) = None)"
    by (auto simp: getTraderInfo_def monad_simps split: sum.splits prod.splits option.splits if_splits)
  then show ?thesis using getTraderInfo_grows [OF g] getTraderInfo_ok [OF g] by auto
qed

lemma traderOf_grows: "traderOf E bc a r b = (x, b') \<Longrightarrow> grows E bc b b'"
  by (auto simp: traderOf_def monad_simps dest!: getTraderInfo_grows split: prod.splits sum.splits option.splits)

text \<open>A successful simulation advances the sender by at most one nonce and nobody else.\<close>

definition advances :: "('z) env_scheme \<Rightarrow> IBlockchain \<Rightarrow> addr \<Rightarrow> traders \<Rightarrow> traders \<Rightarrow> bool" where
  "advances E bc a b b' \<longleftrightarrow>
     (\<exists>s b1 n. Address_String E a = Inr s \<and> grows E bc b b1 \<and> expects b1 s = Some n \<and>
        (b s \<noteq> None \<or> snd (freshInfo bc a) = None) \<and>
        (\<forall>c. c \<noteq> s \<longrightarrow> expects b' c = expects b1 c) \<and> (expects b' s = Some n \<or> expects b' s = Some (n + 1)))"

lemma putTrader_ok: "putTrader E a i b = (Inr u, b') \<longleftrightarrow> (\<exists>s. Address_String E a = Inr s \<and> b' = b(s \<mapsto> i))"
  by (auto simp: putTrader_def monad_ok)

lemma put_advances:
  assumes t: "traderOf E bc a r b = (Inr i, b1)" and p: "putTrader E a i' b1 = (Inr (), b')" and n: "nextNonce i' = nextNonce i + 1"
  shows "advances E bc a b b'"
proof -
  from traderOf_ok [OF t] obtain s where s: "Address_String E a = Inr s" "expects b1 s = Some (nextNonce i)" "grows E bc b b1"
    "b s \<noteq> None \<or> snd (freshInfo bc a) = None" by blast
  have "b' = b1(s \<mapsto> i')" using p s(1) by (simp add: putTrader_ok)
  then show ?thesis unfolding advances_def using s n
    by (intro exI [of _ s] exI [of _ b1] exI [of _ "nextNonce i"]) (auto simp: expects_def)
qed

lemma transfer_advances:
  assumes "transferTransactionPreCalculated E bc tx b = (Inr (), b')"
  shows "advances E bc (From tx) b b'"
proof -
  from assms obtain i b1 j b2 bal1 bal2 b3 where
    t1: "traderOf E bc (From tx) None b = (Inr i, b1)" and t2: "traderOf E bc (To tx) None b1 = (Inr j, b2)"
    and p1: "putTrader E (From tx) (i\<lparr>nextNonce := nextNonce i + 1, availableBalance := bal1\<rparr>) b2 = (Inr (), b3)"
    and p2: "putTrader E (To tx) (j\<lparr>availableBalance := bal2\<rparr>) b3 = (Inr (), b')"
    by (auto simp: transferTransactionPreCalculated_def monad_ok)
  note o1 = traderOf_ok [OF t1] and o2 = traderOf_ok [OF t2]
  from o1 o2 obtain s s' where s: "Address_String E (From tx) = Inr s" "Address_String E (To tx) = Inr s'"
    and e: "expects b1 s = Some (nextNonce i)" "expects b2 s' = Some (nextNonce j)"
    and f: "b s \<noteq> None \<or> snd (freshInfo bc (From tx)) = None" and g: "grows E bc b b1" "grows E bc b1 b2" by auto
  have e2: "expects b2 s = Some (nextNonce i)" using g(2) e(1) unfolding grows_def by (metis option.distinct(1))
  have b': "b' = b2(s \<mapsto> i\<lparr>nextNonce := nextNonce i + 1, availableBalance := bal1\<rparr>, s' \<mapsto> j\<lparr>availableBalance := bal2\<rparr>)"
    using p1 p2 s by (simp add: putTrader_ok)
  show ?thesis unfolding advances_def
    using s f grows_trans [OF g] e2 e(2)
    by (intro exI [of _ s] exI [of _ b2] exI [of _ "nextNonce i"]) (auto simp: b' expects_def)
qed

lemma precalc_advances:
  assumes "transactionPreCalculated E bc tx b = (Inr (), b')"
  shows "advances E bc (From tx) b b'"
proof -
  from assms consider "transferTransactionPreCalculated E bc tx b = (Inr (), b')"
    | "lockTransactionPreCalculated E bc tx b = (Inr (), b')" | "unlockTransactionPreCalculated E bc tx b = (Inr (), b')"
    | "pledgeTrasnactionPreCalculated E bc tx b = (Inr (), b')" | "redeemTrasnactionPreCalculated E bc tx b = (Inr (), b')"
    by (auto simp: transactionPreCalculated_def monad_simps split: if_splits)
  then show ?thesis
  proof cases
    case 1 then show ?thesis by (rule transfer_advances)
  next
    case 2 then show ?thesis by (auto simp: lockTransactionPreCalculated_def monad_ok intro: put_advances)
  next
    case 3 then show ?thesis by (auto simp: unlockTransactionPreCalculated_def monad_ok intro: put_advances)
  next
    case 4 then show ?thesis by (auto simp: pledgeTrasnactionPreCalculated_def monad_ok intro: put_advances)
  next
    case 5 then show ?thesis by (auto simp: redeemTrasnactionPreCalculated_def monad_ok intro: put_advances)
  qed
qed

text \<open>A failing simulation has only asked about traders.\<close>

definition asks :: "('z) env_scheme \<Rightarrow> IBlockchain \<Rightarrow> (traders, 'a) M \<Rightarrow> bool" where
  "asks E bc m \<longleftrightarrow> (\<forall>b x b'. m b = (x, b') \<longrightarrow> grows E bc b b')"

definition fails_asking :: "('z) env_scheme \<Rightarrow> IBlockchain \<Rightarrow> (traders, 'a) M \<Rightarrow> bool" where
  "fails_asking E bc m \<longleftrightarrow> (\<forall>b e b'. m b = (Inl e, b') \<longrightarrow> grows E bc b b')"

named_theorems asks_rules \<open>computations that only ask about traders before they fail\<close>

lemma asks_traderOf [asks_rules]: "asks E bc (traderOf E bc a r)"
  unfolding asks_def by (blast intro: traderOf_grows)

lemma asks_lift [asks_rules]: "asks E bc (liftE x)"
  by (simp add: asks_def monad_simps)

lemma asks_failIf [asks_rules]: "asks E bc (failIf c e)"
  by (simp add: asks_def monad_simps)

lemma fails_put [asks_rules]: "fails_asking E bc (putTrader E a i)"
  by (auto simp: fails_asking_def putTrader_def monad_simps split: sum.splits)

lemma fails_bind [asks_rules]: "asks E bc m \<Longrightarrow> (\<And>a. fails_asking E bc (f a)) \<Longrightarrow> fails_asking E bc (bindM m f)"
  by (auto simp: asks_def fails_asking_def monad_simps split: prod.splits sum.splits) (metis grows_trans)

lemma fails_then [asks_rules]: "asks E bc m \<Longrightarrow> fails_asking E bc k \<Longrightarrow> fails_asking E bc (thenM m k)"
  unfolding thenM_def by (rule fails_bind)

lemma fails_put_put: "Address_String E c = Inr s \<Longrightarrow> fails_asking E bc (thenM (putTrader E a i) (putTrader E c j))"
  by (auto simp: fails_asking_def putTrader_def monad_simps split: sum.splits)

lemma traderOf_unknown: "Address_String E a = Inl e \<Longrightarrow> traderOf E bc a r b = (Inl e, b)"
  by (simp add: traderOf_def getTraderInfo_def monad_simps)

lemma fails_transfer: "fails_asking E bc (transferTransactionPreCalculated E bc tx)"
proof (cases "Address_String E (To tx)")
  case (Inl e)
  then have "fails_asking E bc (bindM (traderOf E bc (To tx) None) k)" for k :: "traderInfo \<Rightarrow> (traders, unit) M"
    by (simp add: fails_asking_def monad_simps traderOf_unknown)
  then show ?thesis unfolding transferTransactionPreCalculated_def 
    by (rule fails_bind [OF asks_traderOf])
next
  case (Inr s)
  then show ?thesis unfolding transferTransactionPreCalculated_def by (intro fails_bind fails_put_put asks_rules)
qed

lemma precalc_grows:
  assumes "transactionPreCalculated E bc tx b = (Inl e, b')"
  shows "grows E bc b b'"
proof -
  have "fails_asking E bc (transactionPreCalculated E bc tx)"
    unfolding transactionPreCalculated_def lockTransactionPreCalculated_def unlockTransactionPreCalculated_def
      pledgeTrasnactionPreCalculated_def redeemTrasnactionPreCalculated_def
    using fails_transfer by (auto intro!: asks_rules simp: fails_asking_def [of E bc "raiseM _"] monad_simps)
  then show ?thesis using assms unfolding fails_asking_def by blast
qed

text \<open>
  The selection so far: every sender's transactions have consecutive nonces from the chain's, and the
  simulation either expects the nonce after them or one that no transaction still to come has.
\<close>

definition nonces_of :: "('z) env_scheme \<Rightarrow> SignedTransaction list \<Rightarrow> bytes \<Rightarrow> u64 list" where
  "nonces_of E xs c = map Nonce (filter (\<lambda>st. callerStr E st = c) xs)"

definition run_from :: "u64 \<Rightarrow> nat \<Rightarrow> u64 list" where
  "run_from n k = map (\<lambda>i. n + of_nat i) [0..<k]"

lemma run_from_Suc: "run_from n (Suc k) = run_from n k @ [n + of_nat k]"
  by (simp add: run_from_def)

definition run_of :: "('z) env_scheme \<Rightarrow> IBlockchain \<Rightarrow> SignedTransaction list \<Rightarrow> nat \<Rightarrow> SignedTransaction list \<Rightarrow> bytes \<Rightarrow> u64 \<Rightarrow> bool" where
  "run_of E bc xs idx ys c n \<longleftrightarrow> (\<exists>n0 k. chain_nonce E bc c n0 \<and> nonces_of E ys c = run_from n0 k \<and>
     (n = n0 + of_nat k \<or> (\<forall>j < idx. callerStr E (xs ! j) = c \<longrightarrow> Nonce (xs ! j) \<noteq> n)))"

definition selected :: "('z) env_scheme \<Rightarrow> IBlockchain \<Rightarrow> SignedTransaction list \<Rightarrow> nat \<Rightarrow> selection \<Rightarrow> bool" where
  "selected E bc xs idx s \<longleftrightarrow>
     (\<forall>c. (expects (traders s) c = None \<longrightarrow> nonces_of E (out s) c = []) \<and>
          (\<forall>n. expects (traders s) c = Some n \<longrightarrow> run_of E bc xs idx (out s) c n))"

lemma selected_Some: "selected E bc xs idx s \<Longrightarrow> expects (traders s) c = Some n \<Longrightarrow> run_of E bc xs idx (out s) c n"
  by (simp add: selected_def)

lemma selected_None: "selected E bc xs idx s \<Longrightarrow> expects (traders s) c = None \<Longrightarrow> nonces_of E (out s) c = []"
  by (simp add: selected_def)

lemma run_of_mono: "run_of E bc xs idx ys c n \<Longrightarrow> idx' \<le> idx \<Longrightarrow> run_of E bc xs idx' ys c n"
  unfolding run_of_def by (metis order_less_le_trans)

lemma run_of_start: "chain_nonce E bc c n \<Longrightarrow> nonces_of E ys c = [] \<Longrightarrow> run_of E bc xs idx ys c n"
  unfolding run_of_def by (intro exI [of _ n] exI [of _ 0]) (simp add: run_from_def)

lemma selected_grows:
  assumes s: "selected E bc xs idx s" and g: "grows E bc (traders s) b" and j: "idx' \<le> idx"
  shows "selected E bc xs idx' (s\<lparr>traders := b\<rparr>)"
proof -
  have "(expects b c = None \<longrightarrow> nonces_of E (out s) c = []) \<and> (\<forall>n. expects b c = Some n \<longrightarrow> run_of E bc xs idx' (out s) c n)" for c
  proof -
    from g consider "expects b c = expects (traders s) c"
      | n where "expects (traders s) c = None" "expects b c = Some n" "chain_nonce E bc c n"
      unfolding grows_def by blast
    then show ?thesis
    proof cases
      case 1
      then show ?thesis using selected_None [OF s] selected_Some [OF s] run_of_mono [OF _ j] by metis
    next
      case 2
      show ?thesis using run_of_start [OF 2(3) selected_None [OF s 2(1)]] 2(2) by simp
    qed
  qed
  then show ?thesis by (simp add: selected_def)
qed

lemma selected_cong [simp]: "selected E bc xs idx (s\<lparr>badTxIdxs := x\<rparr>) = selected E bc xs idx s"
  by (simp add: selected_def)

lemma compareNonce_ok:
  assumes "compareNonce E bc a m b = (Inr n, b')"
  shows "grows E bc b b' \<and> (n = 0 \<longrightarrow>
    (\<exists>s. Address_String E a = Inr s \<and> (expects b' s = Some m \<or> b' s = None \<and> snd (freshInfo bc a) \<noteq> None)))"
proof -
  from assms obtain i eo where g: "getTraderInfo E bc a None b = (Inr (i, eo), b')"
    and n: "n = (if m < nextNonce i then - 1 else if nextNonce i < m then 1 else 0)"
    unfolding compareNonce_def bindM_ok by (auto simp: monad_simps split: prod.splits)
  have "\<exists>s. Address_String E a = Inr s \<and> (expects b' s = Some m \<or> b' s = None \<and> snd (freshInfo bc a) \<noteq> None)" if "n = 0"
  proof (cases eo)
    case None
    have "nextNonce i = m" using n that by (auto split: if_splits)
    then show ?thesis using getTraderInfo_ok g None by fastforce
  next
    case (Some e)
    then show ?thesis using g
      by (auto simp: getTraderInfo_def singleInfo_def monad_simps split: sum.splits prod.splits option.splits if_splits)
  qed
  then show ?thesis using getTraderInfo_grows [OF g] by simp
qed

lemma nonces_of_snoc:
  "nonces_of E (xs @ [st]) c = nonces_of E xs c @ (if callerStr E st = c then [Nonce st] else [])"
  by (simp add: nonces_of_def)

lemma pend_selected:
  assumes sel: "selected E bc xs (Suc idx) s" and d: "distinct (map (key E) xs)" and i: "idx < length xs"
    and c: "compareNonce E bc (From (xs ! idx)) (Nonce (xs ! idx)) (traders s) = (Inr 0, b)"
    and p: "transactionPreCalculated E bc (xs ! idx) b = (Inr (), b')"
  shows "selected E bc xs idx (s\<lparr>traders := b', out := out s @ [xs ! idx]\<rparr>)"
proof -
  let ?st = "xs ! idx"
  from precalc_advances [OF p] obtain a b1 n where a: "Address_String E (From ?st) = Inr a" and g1: "grows E bc b b1"
    and e1: "expects b1 a = Some n" and f: "b a \<noteq> None \<or> snd (freshInfo bc (From ?st)) = None"
    and o: "\<And>c. c \<noteq> a \<Longrightarrow> expects b' c = expects b1 c" and e': "expects b' a = Some n \<or> expects b' a = Some (n + 1)"
    unfolding advances_def by blast
  have ca: "callerStr E ?st = a" by (simp add: callerStr_def a)
  note cn = compareNonce_ok [OF c]
  have n: "n = Nonce ?st"
  proof -
    from cn obtain s' where "Address_String E (From ?st) = Inr s'"
      "expects b s' = Some (Nonce ?st) \<or> b s' = None \<and> snd (freshInfo bc (From ?st)) \<noteq> None" by blast
    with a f have "expects b a = Some (Nonce ?st)" by (metis Inr_inject)
    then show ?thesis using g1 e1 unfolding grows_def by (metis option.distinct(1) option.inject)
  qed
  define s1 where "s1 = s\<lparr>traders := b1\<rparr>"
  have s1: "selected E bc xs (Suc idx) s1"
    unfolding s1_def using selected_grows [OF sel] cn grows_trans [OF _ g1] by blast
  have tr: "traders s1 = b1" "out s1 = out s" by (simp_all add: s1_def)
  obtain n0 k where k: "chain_nonce E bc a n0" "nonces_of E (out s) a = run_from n0 k" "n = n0 + of_nat k"
  proof -
    from selected_Some [OF s1, of a n] e1 obtain n0 k where k: "chain_nonce E bc a n0" "nonces_of E (out s) a = run_from n0 k"
      "n = n0 + of_nat k \<or> (\<forall>j < Suc idx. callerStr E (xs ! j) = a \<longrightarrow> Nonce (xs ! j) \<noteq> n)"
      unfolding run_of_def tr by blast
    from k(3) have "n = n0 + of_nat k" using ca n by blast
    with k(1,2) show thesis by (rule that)
  qed
  have fresh: "Nonce (xs ! j) \<noteq> n" if "j < idx" "callerStr E (xs ! j) = a" for j
    using nth_key_eq [OF d, of j idx] that i n ca by (auto simp: key_def)
  let ?s = "s\<lparr>traders := b', out := out s @ [?st]\<rparr>"
  have here: "run_of E bc xs idx (out ?s) a m" if "expects b' a = Some m" for m
  proof -
    have "nonces_of E (out ?s) a = run_from n0 (Suc k)" using k ca n by (simp add: nonces_of_snoc run_from_Suc)
    moreover have "m = n0 + of_nat (Suc k) \<or> (\<forall>j < idx. callerStr E (xs ! j) = a \<longrightarrow> Nonce (xs ! j) \<noteq> m)"
      using e' that fresh k(3) by (auto simp: add_ac)
    ultimately show ?thesis using k(1) unfolding run_of_def by blast
  qed
  have other: "nonces_of E (out ?s) c = nonces_of E (out s1) c \<and> expects b' c = expects b1 c" if "c \<noteq> a" for c
    using that ca o [OF that] tr by (simp add: nonces_of_snoc)
  have there: "run_of E bc xs idx (out ?s) c m" if c: "c \<noteq> a" and m: "expects b' c = Some m" for c m
  proof -
    have "run_of E bc xs (Suc idx) (out s1) c m" using selected_Some [OF s1, of c m] other [OF c] m tr by simp
    then show ?thesis unfolding run_of_def using other [OF c] less_SucI by metis
  qed
  have none: "nonces_of E (out ?s) c = []" if "expects b' c = None" for c
  proof -
    have "c \<noteq> a" using that e' by auto
    then show ?thesis using selected_None [OF s1, of c] other that tr by simp
  qed
  have "traders ?s = b'" by simp
  then show ?thesis unfolding selected_def using here there none by metis
qed

lemma select_step_selected:
  assumes sel: "selected E bc xs (Suc idx) s" and d: "distinct (map (key E) xs)" and i: "idx < length xs"
    and st: "select_step E bc (xs ! idx) idx s = (Inr u, s')"
  shows "selected E bc xs idx s' \<and> (out s' = out s \<or> out s' = out s @ [xs ! idx])"
proof -
  obtain n b where c: "compareNonce E bc (From (xs ! idx)) (Nonce (xs ! idx)) (traders s) = (Inr n, b)"
    using st by (auto simp: select_step_def split: prod.splits sum.splits)
  have g: "grows E bc (traders s) b" using compareNonce_ok [OF c] by simp
  show ?thesis
  proof (cases "n = 0")
    case True
    obtain x b' where p: "transactionPreCalculated E bc (xs ! idx) b = (x, b')" by fastforce
    show ?thesis
    proof (cases x)
      case (Inl e)
      have "grows E bc (traders s) b'" using grows_trans [OF g] precalc_grows p Inl by blast
      moreover have "s' = s\<lparr>traders := b', badTxIdxs := badTxIdxs s @ [idx]\<rparr>"
        using st True c p Inl by (cases e) (simp_all add: select_step_def)
      ultimately show ?thesis using selected_grows [OF sel, of b' idx] by simp
    next
      case (Inr v)
      then have "s' = s\<lparr>traders := b', out := out s @ [xs ! idx]\<rparr>" using st True c p by (simp add: select_step_def)
      then show ?thesis using pend_selected [OF sel d i] c p True Inr by simp
    qed
  next
    case False
    obtain x b' where p: "getTraderInfo E bc (From (xs ! idx)) None b = (x, b')" by fastforce
    have "grows E bc (traders s) b'" using grows_trans [OF g getTraderInfo_grows [OF p]] .
    moreover have "\<exists>bad. s' = s\<lparr>traders := b', badTxIdxs := bad\<rparr>"
      using st False c p by (auto simp: select_step_def split: sum.splits option.splits if_splits) (metis selection.surjective selection.update_convs)+
    ultimately show ?thesis using selected_grows [OF sel, of b' idx] by auto
  qed
qed

lemma pending_loop_selected:
  "pending_loop E bc xs idx s = (Inr u, s') \<Longrightarrow> selected E bc xs idx s \<Longrightarrow> distinct (map (key E) xs) \<Longrightarrow> idx \<le> length xs \<Longrightarrow>
   length (out s) \<le> PendingLimit \<Longrightarrow>
   (\<exists>idx'. selected E bc xs idx' s') \<and> length (out s') \<le> PendingLimit \<and> (\<exists>ys. out s' = out s @ ys \<and> subseq ys (rev (take idx xs)))"
proof (induction idx arbitrary: s)
  case 0
  then show ?case by auto
next
  case (Suc idx)
  show ?case
  proof (cases "length (out s) < PendingLimit")
    case False
    then show ?thesis using Suc.prems by auto
  next
    case True
    then obtain s1 v where st: "select_step E bc (xs ! idx) idx s = (Inr v, s1)" and l: "pending_loop E bc xs idx s1 = (Inr u, s')"
      using Suc.prems(1) by (auto split: prod.splits sum.splits)
    have i: "idx < length xs" using Suc.prems(4) by simp
    have s1: "selected E bc xs idx s1" and o: "out s1 = out s \<or> out s1 = out s @ [xs ! idx]"
      using select_step_selected [OF Suc.prems(2,3) i st] by auto
    have n: "length (out s1) \<le> PendingLimit" using o True by auto
    obtain ys where e: "\<exists>idx'. selected E bc xs idx' s'" "length (out s') \<le> PendingLimit" "out s' = out s1 @ ys" "subseq ys (rev (take idx xs))"
      using Suc.IH [OF l s1 Suc.prems(3) _ n] i by auto
    have r: "rev (take (Suc idx) xs) = xs ! idx # rev (take idx xs)" using i by (simp add: take_Suc_conv_app_nth)
    from o show ?thesis
    proof
      assume "out s1 = out s"
      moreover have "subseq ys (xs ! idx # rev (take idx xs))" using e(4) by (rule list_emb_Cons)
      ultimately show ?thesis using e r by auto
    next
      assume "out s1 = out s @ [xs ! idx]"
      then have "out s' = out s @ (xs ! idx # ys)" "subseq (xs ! idx # ys) (rev (take (Suc idx) xs))" using e r by simp_all
      then show ?thesis using e by blast
    qed
  qed
qed

section \<open>Reachable pools\<close>

definition queue_ok :: "('z) env_scheme \<Rightarrow> orderlyQueue \<Rightarrow> bool" where
  "queue_ok E q \<longleftrightarrow> consistent E q \<and> nonce_ordered E (stList q)"

lemma queue_ok_time [simp]: "queue_ok E (q\<lparr>timeBuffer := t\<rparr>) = queue_ok E q"
  by (simp add: queue_ok_def)

lemma queue_ok_remove: "queue_ok E q \<Longrightarrow> queue_ok E (remove E i q)"
  using remove_correct [of E q i] by (cases "i < length (stList q)") (auto simp: queue_ok_def remove_outside)

lemma queue_ok_push: "queue_ok E q \<Longrightarrow> push E s u st q = Inr q' \<Longrightarrow> queue_ok E q'"
  using push_invariant [of E q s u st q'] by (simp add: queue_ok_def)

lemma queue_ok_removes: "queue_ok E q \<Longrightarrow> queue_ok E (remove_all_at E is q)"
  by (induction "is" arbitrary: q) (simp_all add: queue_ok_remove)

lemma queue_ok_drop: "queue_ok E q \<Longrightarrow> queue_ok E (drop_lowest E q)"
proof (induction E q rule: drop_lowest.induct)
  case (1 E q)
  then show ?case by (subst drop_lowest.simps) (simp add: queue_ok_remove)
qed

lemma pool_add_ok: "queue_ok E (pq p) \<Longrightarrow> queue_ok E (pq (snd (pool_add E bc s u st p)))"
  by (auto simp: pool_add_def monad_simps split: sum.splits intro: queue_ok_push)

lemma Pool_Add_ok: "queue_ok S (pq p) \<Longrightarrow> queue_ok S (pq (snd (Pool_Add S C bc s u st p)))"
  using pool_add_ok by (auto simp: Pool_Add_def monad_simps split: sum.splits)

lemma AddList_ok: "queue_ok S (pq p) \<Longrightarrow> queue_ok S (pq (snd (AddList S C bc s u sts p)))"
proof (induction sts arbitrary: p)
  case (Cons st sts)
  obtain x p1 where x: "(case VerifySign S C st of Inl e \<Rightarrow> (Inl e, p) | Inr _ \<Rightarrow> pool_add S bc s u st p) = (x, p1)" by fastforce
  have "queue_ok S (pq p1)" using x Cons.prems pool_add_ok [of S p bc s u st] by (auto split: sum.splits)
  from Cons.IH [OF this] show ?case
    using \<open>queue_ok S (pq p1)\<close> by (auto simp: x split: sum.splits err.splits prod.splits)
qed simp

lemma Pending_ok: "queue_ok E (pq p) \<Longrightarrow> queue_ok E (pq (snd (Pending E bc p)))"
  by (auto simp: Pending_def Let_def queue_ok_removes split: prod.splits sum.splits)

lemma cache_out_one_ok: "queue_ok E (pq p) \<Longrightarrow> queue_ok E (pq (snd (cache_out_one E u k p)))"
  by (auto simp: cache_out_one_def Let_def split: option.splits sum.splits prod.splits err.splits intro!: queue_ok_remove)

lemma cache_out_all_ok: "queue_ok E (pq p) \<Longrightarrow> queue_ok E (pq (snd (cache_out_all E u ks p)))"
proof (induction ks arbitrary: p)
  case (Cons k ks)
  have "queue_ok E (pq (snd (cache_out_one E u k p)))" by (rule cache_out_one_ok [OF Cons.prems])
  then show ?case using Cons.IH by (auto simp: monad_simps split: prod.splits sum.splits)
qed simp

lemma filter_out_ok: "queue_ok E (pq p) \<Longrightarrow> queue_ok E (pq (snd (filter_out E sts p)))"
proof (induction sts arbitrary: p)
  case (Cons st sts)
  then show ?case by (auto split: sum.splits option.splits intro!: queue_ok_remove Cons.IH)
qed simp

lemma FilterTransaction_ok:
  assumes "queue_ok E (pq p)"
  shows "queue_ok E (pq (snd (FilterTransaction E u ks sts p)))"
proof -
  have f: "queue_ok E (pq (snd (filter_out E sts p)))" by (rule filter_out_ok [OF assms])
  have c: "queue_ok E (pq p1) \<Longrightarrow> queue_ok E (pq (snd (cacheOutSignedTransaction E u ks p1)))" for p1
    using cache_out_all_ok [of E p1 u ks]
    by (auto simp: cacheOutSignedTransaction_def monad_simps queue_ok_drop split: prod.splits sum.splits)
  show ?thesis using f c by (auto simp: FilterTransaction_def monad_simps split: prod.splits sum.splits)
qed

text \<open>Every operation of the pool, whether it succeeds or not.\<close>

inductive pool_reach :: "('d, 't, 's, 'z) sys_scheme \<Rightarrow> 'c curves_scheme \<Rightarrow> Pool \<Rightarrow> bool" for S C where
  new: "pool_reach S C NewPool"
| add: "pool_reach S C p \<Longrightarrow> Pool_Add S C bc second unixtime st p = (x, p') \<Longrightarrow> pool_reach S C p'"
| add_list: "pool_reach S C p \<Longrightarrow> AddList S C bc second unixtime sts p = (xs, p') \<Longrightarrow> pool_reach S C p'"
| pending: "pool_reach S C p \<Longrightarrow> Pending S bc p = (ys, p') \<Longrightarrow> pool_reach S C p'"
| filter: "pool_reach S C p \<Longrightarrow> FilterTransaction S unixtime ks sts p = (z, p') \<Longrightarrow> pool_reach S C p'"

lemma pool_reach_ok: "pool_reach S C p \<Longrightarrow> queue_ok S (pq p)"
proof (induction rule: pool_reach.induct)
  case new
  then show ?case by (simp add: NewPool_def queue_ok_def)
next
  case (add p bc s u st x p')
  then show ?case using Pool_Add_ok [of S p C bc s u st] by simp
next
  case (add_list p bc s u sts xs p')
  then show ?case using AddList_ok [of S p C bc s u sts] by simp
next
  case (pending p bc ys p')
  then show ?case using Pending_ok [of S p bc] by simp
next
  case (filter p u ks sts z p')
  then show ?case using FilterTransaction_ok [of S p u ks sts] by simp
qed

section \<open>Properties\<close>

text \<open>
  C3. What a miner may pack. In every reachable pool, \<open>Pending\<close> returns at most one hundred
  transactions of the queue, in the order of their priority, and the nonces of each sender among them
  are consecutive and start with the nonce of the chain, so that a block can execute them in this
  order.
\<close>

theorem pending_nonces_consecutive:
  assumes "pool_reach S C p" and "Pending S bc p = (Inr sts, p')"
  shows "length sts \<le> 100 \<and> subseq sts (rev (stList (pq p))) \<and>
    (\<forall>c. \<exists>n0 k. map Nonce (filter (\<lambda>st. callerStr S st = c) sts) = map (\<lambda>i. n0 + of_nat i) [0..<k] \<and>
       (k = 0 \<or> (\<exists>a. Address_String S a = Inr c \<and> bc_GetNonce bc a = Inr n0)))"
proof -
  let ?xs = "stList (pq p)"
  let ?s0 = "\<lparr>traders = Map.empty, badTxIdxs = [], out = []\<rparr>"
  have d: "distinct (map (key S) ?xs)" using pool_reach_ok [OF assms(1)] by (simp add: queue_ok_def consistent_def)
  obtain u s where l: "pending_loop S bc ?xs (length ?xs) ?s0 = (Inr u, s)" and sts: "sts = out s"
    using assms(2) by (auto simp: Pending_def Let_def split: prod.splits sum.splits)
  have "selected S bc ?xs (length ?xs) ?s0" by (simp add: selected_def expects_def nonces_of_def)
  from pending_loop_selected [OF l this d] obtain idx ys where sel: "selected S bc ?xs idx s"
    and n: "length (out s) \<le> PendingLimit" and o: "subseq (out s) (rev ?xs)" by auto
  have "\<exists>n0 k. nonces_of S (out s) c = run_from n0 k \<and> (k = 0 \<or> chain_nonce S bc c n0)" for c
  proof (cases "expects (traders s) c")
    case None
    then show ?thesis using selected_None [OF sel] by (intro exI [of _ 0]) (simp add: run_from_def)
  next
    case (Some m)
    then show ?thesis using selected_Some [OF sel Some] unfolding run_of_def by blast
  qed
  then show ?thesis
    using n o unfolding sts nonces_of_def run_from_def chain_nonce_def PendingLimit_def by blast
qed

text \<open>A pool that holds the queue of three transactions, and chains that answer with fixed nonces.\<close>

definition flat_bc :: "(addr \<Rightarrow> u64) \<Rightarrow> IBlockchain" where
  "flat_bc nonce = \<lparr>bc_GetNonce = (\<lambda>a. Inr (nonce a)), bc_GetAvailableBalance = (\<lambda>a. Inr 1000),
     bc_GetAllFreezeBalance = (\<lambda>a. Inr 0), bc_GetSingleFreezeBalance = (\<lambda>a b. Inr 0)\<rparr>"

definition demo_pool :: Pool where
  "demo_pool = NewPool\<lparr>pq := demo_queue\<rparr>"

text \<open>
  Positions go stale. \<open>Pending\<close> removes rejected transactions by position, but removing one sorts
  the positions below it anew. In this pool the first sender has two transactions of old nonces and
  the second a valid one, which \<open>Pending\<close> returns; of the two positions to remove, the second has come
  to hold the valid transaction. It disappears from the pool, and one that can never be packed stays.
\<close>

theorem pending_drops_valid_transaction:
  "fst (Pending demo_env (flat_bc (\<lambda>a. if a = 0 # replicate 20 1 then 3 else 1)) demo_pool) = Inr [demo_stx 2 1 50] \<and>
   stList (pq (snd (Pending demo_env (flat_bc (\<lambda>a. if a = 0 # replicate 20 1 then 3 else 1)) demo_pool))) = [demo_stx 1 2 100]"
  by code_simp

definition demo_txpool :: Pool where
  "demo_txpool = snd (AddList demo_sys demo_curves (flat_bc (\<lambda>_. 1)) 0 0 [demo_stx 1 1 10, demo_stx 1 2 100, demo_stx 2 1 50] NewPool)"

lemma demo_txpool_reach: "pool_reach demo_sys demo_curves demo_txpool"
  unfolding demo_txpool_def by (rule pool_reach.add_list [OF pool_reach.new surjective_pairing])

lemma demo_txpool_pending:
  "fst (Pending demo_sys (flat_bc (\<lambda>_. 1)) demo_txpool) = Inr [demo_stx 2 1 50, demo_stx 1 1 10, demo_stx 1 2 100]"
  by code_simp

theorem pending_nonces_consecutive_witness:
  "\<exists>n0 k. map Nonce (filter (\<lambda>st. callerStr demo_sys st = callerStr demo_sys (demo_stx 1 1 10))
      [demo_stx 2 1 50, demo_stx 1 1 10, demo_stx 1 2 100]) = map (\<lambda>i. n0 + of_nat i) [0..<k] \<and>
     (k = 0 \<or> (\<exists>a. Address_String demo_sys a = Inr (callerStr demo_sys (demo_stx 1 1 10)) \<and> bc_GetNonce (flat_bc (\<lambda>_. 1)) a = Inr n0))"
proof -
  have "Pending demo_sys (flat_bc (\<lambda>_. 1)) demo_txpool =
      (Inr [demo_stx 2 1 50, demo_stx 1 1 10, demo_stx 1 2 100], snd (Pending demo_sys (flat_bc (\<lambda>_. 1)) demo_txpool))"
    using demo_txpool_pending by (metis prod.collapse)
  from pending_nonces_consecutive [OF demo_txpool_reach this] show ?thesis by blast
qed

text \<open>
  A receiver without textual form stops the miner. When the transaction of the highest priority is
  a transfer with the right nonce to an address of unknown kind, \<open>Pending\<close> panics, and it will again:
  the pool stays as it is.
\<close>

theorem pending_panics_on_unknown_receiver:
  assumes "stList (pq p) = sts @ [st]" and "Type st = TransferTransaction" and "Address_String E (From st) = Inr c"
    and "freshInfo bc (From st) = (i, None)" and "nextNonce i = Nonce st" and "Address_String E (To st) = Inl (Panic m)"
  shows "Pending E bc p = (Inl (Panic m), p)"
proof -
  let ?b = "[c \<mapsto> i]"
  have n: "compareNonce E bc (From st) (Nonce st) Map.empty = (Inr 0, ?b)"
    using assms(3-5) by (simp add: compareNonce_def getTraderInfo_def singleInfo_def monad_simps)
  have "traderOf E bc (From st) None ?b = (Inr i, ?b)"
    using assms(3) by (simp add: traderOf_def getTraderInfo_def monad_simps)
  then have t: "transactionPreCalculated E bc st ?b = (Inl (Panic m), ?b)"
    using assms(2) traderOf_unknown [OF assms(6)]
    by (simp add: transactionPreCalculated_def transferTransactionPreCalculated_def monad_simps)
  have "pending_loop E bc (sts @ [st]) (Suc (length sts)) \<lparr>traders = Map.empty, badTxIdxs = [], out = []\<rparr> =
      (Inl (Panic m), \<lparr>traders = ?b, badTxIdxs = [], out = []\<rparr>)"
    by (simp add: select_step_def n t PendingLimit_def)
  then show ?thesis by (simp add: Pending_def assms(1))
qed

definition demo_stray :: SignedTransaction where
  "demo_stray = (demo_stx 1 1 10)\<lparr>To := replicate 25 1\<rparr>"

theorem pending_panics_on_unknown_receiver_witness:
  "NewFromBytes (replicate 25 1) = Inr (To demo_stray) \<and>
   (\<exists>p. fst (AddList demo_sys demo_curves (flat_bc (\<lambda>_. 1)) 0 0 [demo_stray] NewPool) = Inr [] \<and>
     p = snd (AddList demo_sys demo_curves (flat_bc (\<lambda>_. 1)) 0 0 [demo_stray] NewPool) \<and>
     Pending demo_sys (flat_bc (\<lambda>_. 1)) p = (Inl (Panic ''encode''), p))"
proof -
  let ?p = "snd (AddList demo_sys demo_curves (flat_bc (\<lambda>_. 1)) 0 0 [demo_stray] NewPool)"
  have "stList (pq ?p) = [] @ [demo_stray]" by code_simp
  moreover have "Type demo_stray = TransferTransaction" by code_simp
  moreover have "Address_String demo_sys (From demo_stray) = Inr (callerStr demo_sys demo_stray)" by code_simp
  moreover have "freshInfo (flat_bc (\<lambda>_. 1)) (From demo_stray) = (zeroInfo\<lparr>availableBalance := 1000, nextNonce := 1\<rparr>, None)"
    by (simp add: freshInfo_def flat_bc_def zeroInfo_def)
  moreover have "nextNonce (zeroInfo\<lparr>availableBalance := 1000, nextNonce := 1\<rparr>) = Nonce demo_stray" by code_simp
  moreover have "Address_String demo_sys (To demo_stray) = Inl (Panic ''encode'')" by code_simp
  ultimately have "Pending demo_sys (flat_bc (\<lambda>_. 1)) ?p = (Inl (Panic ''encode''), ?p)"
    using pending_panics_on_unknown_receiver by blast
  moreover have "fst (AddList demo_sys demo_curves (flat_bc (\<lambda>_. 1)) 0 0 [demo_stray] NewPool) = Inr []" by code_simp
  moreover have "NewFromBytes (replicate 25 1) = Inr (To demo_stray)" by (simp add: NewFromBytes_def demo_stray_def)
  ultimately show ?thesis by blast
qed

end
