(* ===== verification/Scripts.thy ===== *)
theory Scripts
  imports Codec
begin

text \<open>
  The token scripts, \<open>pkg/contract/parser\<close>: the lexer (\<open>word.go\<close>, \<open>ctypes.go\<close>), the recursive-descent
  parser (\<open>parser.go\<close>), the script operations (\<open>operate.go\<close>) and their binary form (\<open>otypes.go\<close>). A
  character is \<open>None\<close> at the end of the input; the 1024-byte window of the reader only chunks the
  input, which is a list here.
\<close>

section \<open>Character classes\<close>

definition DDG :: int where "DDG = 0x01"
definition ODG :: int where "ODG = 0x02"
definition XDG :: int where "XDG = 0x04"
definition PHA :: int where "PHA = 0x08"
definition SPC :: int where "SPC = 0x10"
definition AMP :: int where "AMP = 0x20"
definition NLN :: int where "NLN = 0x40"
definition CMT :: int where "CMT = 0x80"
definition SQU :: int where "SQU = 0x100"
definition DQU :: int where "DQU = 0x200"

definition charList :: "int list" where
  "charList =
     [0, 0, 0, 0, 0, 0, 0, 0, 0, SPC, NLN, SPC, SPC, NLN, 0, 0] @ replicate 16 0 @
     [SPC, AMP, DQU, CMT, 0, AMP, AMP, SQU, 0, 0, AMP, AMP, 0, AMP, 0, AMP] @
     replicate 8 (ODG OR DDG OR XDG) @ replicate 2 (DDG OR XDG) @ [0, 0, AMP, AMP, AMP, 0] @
     [0] @ replicate 6 (PHA OR XDG) @ replicate 20 PHA @ [0, 0, 0, AMP, PHA] @
     [0] @ replicate 6 (PHA OR XDG) @ replicate 20 PHA @ [0, AMP, 0, 0, 0] @ replicate 128 0"

type_synonym ch = "byte option"

text \<open>The end of the input is \<open>-1\<close> in the code, which indexes the last entry of the table.\<close>

definition class_of :: "ch \<Rightarrow> int" where
  "class_of c = (case c of None \<Rightarrow> charList ! 255 | Some b \<Rightarrow> charList ! unat b)"

definition isSpace :: "ch \<Rightarrow> bool" where "isSpace c \<longleftrightarrow> class_of c AND SPC \<noteq> 0"
definition isDigit :: "ch \<Rightarrow> bool" where "isDigit c \<longleftrightarrow> class_of c AND DDG \<noteq> 0"
definition isXdigit :: "ch \<Rightarrow> bool" where "isXdigit c \<longleftrightarrow> class_of c AND XDG \<noteq> 0"
definition isAlpha :: "ch \<Rightarrow> bool" where "isAlpha c \<longleftrightarrow> class_of c AND PHA \<noteq> 0"
definition isAlnum :: "ch \<Rightarrow> bool" where "isAlnum c \<longleftrightarrow> class_of c AND (PHA OR DDG) \<noteq> 0"
definition isNewline :: "ch \<Rightarrow> bool" where "isNewline c \<longleftrightarrow> class_of c AND NLN \<noteq> 0"
definition isSingleQuotation :: "ch \<Rightarrow> bool" where "isSingleQuotation c \<longleftrightarrow> class_of c AND SQU \<noteq> 0"
definition isDoubleQuotation :: "ch \<Rightarrow> bool" where "isDoubleQuotation c \<longleftrightarrow> class_of c AND DQU \<noteq> 0"

section \<open>The lexer\<close>

datatype tok = EOF | ERR | IDENTIFIER | INT_CONSTANT | STRING_CONSTANT

datatype val = VNil | VInt u64 | VStr bytes

record scriptWord =
  w_typ :: tok
  w_name :: bytes
  w_value :: val

text \<open>
  The roll buffer has two cells; \<open>putc\<close> shifts them in a loop whose condition \<open>i < 0\<close> is false from the
  start, so that only the first cell is ever written.
\<close>

record scriptLex =
  l_in :: bytes
  l_cnt :: nat
  l_b0 :: ch
  l_b1 :: ch
  l_curr :: scriptWord

definition lex_getc :: "scriptLex \<Rightarrow> ch \<times> scriptLex" where
  "lex_getc w =
     (if l_cnt w = 0 then
        (case l_in w of
           [] \<Rightarrow> (None, w\<lparr>l_b0 := None\<rparr>)
         | b # bs \<Rightarrow> (Some b, w\<lparr>l_b0 := Some b, l_in := bs\<rparr>))
      else (if l_cnt w = 1 then l_b0 w else l_b1 w, w\<lparr>l_cnt := l_cnt w - 1\<rparr>))"

definition lex_ungetc :: "scriptLex \<Rightarrow> scriptLex" where
  "lex_ungetc w = (if l_cnt w < 2 then w\<lparr>l_cnt := l_cnt w + 1\<rparr> else w)"

definition lsize :: "scriptLex \<Rightarrow> nat" where
  "lsize w = length (l_in w) + (if 1 \<le> l_cnt w \<and> l_b0 w \<noteq> None then 1 else 0) + (if l_b1 w \<noteq> None then l_cnt w - 1 else 0)"

lemma getc_decreases: "lex_getc w = (Some b, w') \<Longrightarrow> lsize w' < lsize w"
  by (cases "l_in w") (auto simp: lex_getc_def lsize_def split: if_splits)

lemma getc_smaller: "(Some b, w') = lex_getc w \<Longrightarrow> lsize w' < lsize w"
  by (rule getc_decreases) (rule sym)

lemma ungetc_restores: "lex_getc w = (c, w') \<Longrightarrow> lsize (lex_ungetc w') \<le> lsize w"
  by (cases "l_in w") (auto simp: lex_getc_def lex_ungetc_def lsize_def split: if_splits)

lemma lsize_curr [simp]: "lsize (w\<lparr>l_curr := x\<rparr>) = lsize w"
  by (simp add: lsize_def)

function skipNewline :: "scriptLex \<Rightarrow> scriptLex" where
  "skipNewline w = (case lex_getc w of
     (None, w') \<Rightarrow> lex_ungetc w'
   | (Some c, w') \<Rightarrow> if \<not> isNewline (Some c) then lex_ungetc w' else skipNewline w')"
  by pat_completeness auto
termination
  by (relation "measure lsize") (auto dest: getc_smaller)

function getWord_loop :: "bytes \<Rightarrow> scriptLex \<Rightarrow> bytes \<times> scriptLex" where
  "getWord_loop word w = (case lex_getc w of
     (None, w') \<Rightarrow> (word, lex_ungetc w')
   | (Some c, w') \<Rightarrow> if \<not> isAlnum (Some c) then (word, lex_ungetc w') else getWord_loop (word @ [c]) w')"
  by pat_completeness auto
termination
  by (relation "measure (\<lambda>(_, w). lsize w)") (auto dest: getc_smaller)

definition getWord :: "byte \<Rightarrow> scriptLex \<Rightarrow> tok \<times> scriptLex" where
  "getWord a w = (case getWord_loop [a] w of (word, w) \<Rightarrow>
     (IDENTIFIER, w\<lparr>l_curr := (l_curr w)\<lparr>w_typ := IDENTIFIER, w_name := word\<rparr>\<rparr>))"

text \<open>
  \<open>strconv.Unquote\<close> of a text between back quotes returns the text, unless it contains a back quote;
  a carriage return, which it would drop, ends the loop before.
\<close>

function getLiteral_loop :: "byte \<Rightarrow> bytes \<Rightarrow> scriptLex \<Rightarrow> bytes option \<times> scriptLex" where
  "getLiteral_loop a s w = (case lex_getc w of
     (None, w') \<Rightarrow> (None, w')
   | (Some c, w') \<Rightarrow>
       if isNewline (Some c) then (None, w')
       else if a = c then (if 96 \<in> set (s @ [c]) then (None, w') else (Some (s @ [c]), w'))
       else getLiteral_loop a (s @ [c]) w')"
  by pat_completeness auto
termination
  by (relation "measure (\<lambda>(_, _, w). lsize w)") (auto dest: getc_smaller)

definition getLiteral :: "byte \<Rightarrow> scriptLex \<Rightarrow> tok \<times> scriptLex" where
  "getLiteral a w = (case getLiteral_loop a [a] w of
     (None, w) \<Rightarrow> (ERR, w)
   | (Some v, w) \<Rightarrow> (STRING_CONSTANT,
       w\<lparr>l_curr := (l_curr w)\<lparr>w_typ := STRING_CONSTANT, w_value := VStr (butlast (tl v))\<rparr>\<rparr>))"

text \<open>
  \<open>strconv.ParseUint(s, 0, 64)\<close> on a text of hexadecimal digits that starts with a decimal one: a
  leading zero makes it octal.
\<close>

definition digit_val :: "byte \<Rightarrow> int" where
  "digit_val c = (if 97 \<le> c then uint c - 87 else if 65 \<le> c then uint c - 55 else uint c - 48)"

fun digits_value :: "int \<Rightarrow> bytes \<Rightarrow> int \<Rightarrow> int option" where
  "digits_value base [] acc = Some acc"
| "digits_value base (c # cs) acc =
     (if base \<le> digit_val c then None else digits_value base cs (acc * base + digit_val c))"

definition ParseUint0 :: "bytes \<Rightarrow> u64 option" where
  "ParseUint0 s =
     (let (base, ds) = (if hd s = 48 then (8, tl s) else (10, s))
      in case digits_value base ds 0 of None \<Rightarrow> None | Some n \<Rightarrow> if 2 ^ 64 \<le> n then None else Some (word_of_int n))"

function getDigit_loop :: "bytes \<Rightarrow> scriptLex \<Rightarrow> bytes \<times> scriptLex" where
  "getDigit_loop word w = (case lex_getc w of
     (None, w') \<Rightarrow> (word, w')
   | (Some c, w') \<Rightarrow> if \<not> isXdigit (Some c) then (word, w') else getDigit_loop (word @ [c]) w')"
  by pat_completeness auto
termination
  by (relation "measure (\<lambda>(_, w). lsize w)") (auto dest: getc_smaller)

text \<open>The text of a number: all of it is read ahead by one character.\<close>

definition getDigit_word :: "byte \<Rightarrow> scriptLex \<Rightarrow> bytes \<times> scriptLex" where
  "getDigit_word a w =
     (if a = 48 then
        (case lex_getc w of
           (None, w) \<Rightarrow> ([a], w)
         | (Some c, w) \<Rightarrow> if c \<noteq> 120 \<and> c \<noteq> 88 \<and> \<not> isDigit (Some c) then ([a], w)
                          else getDigit_loop [a] (lex_ungetc w))
      else getDigit_loop [a] w)"

definition getDigit :: "byte \<Rightarrow> scriptLex \<Rightarrow> tok \<times> scriptLex" where
  "getDigit a w =
     (case getDigit_word a w of (word, w) \<Rightarrow>
        let w = lex_ungetc w; w = w\<lparr>l_curr := (l_curr w)\<lparr>w_typ := INT_CONSTANT\<rparr>\<rparr>
        in case ParseUint0 word of
             None \<Rightarrow> (ERR, w)
           | Some v \<Rightarrow> (INT_CONSTANT, w\<lparr>l_curr := (l_curr w)\<lparr>w_value := VInt v\<rparr>\<rparr>))"

declare skipNewline.simps [simp del] getWord_loop.simps [simp del] getLiteral_loop.simps [simp del] getDigit_loop.simps [simp del]

lemma skipNewline_size: "lsize (skipNewline w) \<le> lsize w"
proof (induction w rule: skipNewline.induct)
  case (1 w)
  obtain c w' where g: "lex_getc w = (c, w')" by fastforce
  show ?case
    using 1 [OF g [symmetric]] ungetc_restores [OF g] getc_decreases [of w _ w'] g
    by (subst skipNewline.simps) (auto split: option.split)
qed

function symbol :: "scriptLex \<Rightarrow> tok \<times> scriptLex" where
  "symbol w = (case lex_getc w of
     (None, w') \<Rightarrow> (EOF, w')
   | (Some c, w') \<Rightarrow>
       if isSpace (Some c) then symbol w'
       else if isNewline (Some c) then symbol (skipNewline w')
       else if isAlpha (Some c) then getWord c w'
       else if isDigit (Some c) then getDigit c w'
       else if isSingleQuotation (Some c) \<or> isDoubleQuotation (Some c) then getLiteral c w'
       else (ERR, w'\<lparr>l_curr := (l_curr w')\<lparr>w_typ := ERR\<rparr>\<rparr>))"
  by pat_completeness auto
termination
  by (relation "measure lsize") (auto dest: getc_smaller intro: le_less_trans [OF skipNewline_size])

declare symbol.simps [simp del]

definition NewLex :: "bytes \<Rightarrow> scriptLex" where
  "NewLex fd = \<lparr>l_in = fd, l_cnt = 0, l_b0 = Some 0, l_b1 = Some 0,
     l_curr = \<lparr>w_typ = IDENTIFIER, w_name = [], w_value = VNil\<rparr>\<rparr>"

section \<open>The parser\<close>

definition O_INT :: nat where "O_INT = 0x01"
definition O_STRING :: nat where "O_STRING = 0x02"

text \<open>
  A node; the constructor is the \<open>op\<close> of the code, a constant carries the subtype of bits 8 to 15.
\<close>

datatype scriptNode =
    O_NAME bytes
  | O_CONST nat val
  | O_CALL scriptNode "scriptNode option"
  | O_ELIST scriptNode scriptNode

record scriptParser =
  wt :: scriptLex
  p_cnt :: nat
  p_b0 :: "scriptWord option"
  p_b1 :: "scriptWord option"

definition parser_ungetw :: "scriptParser \<Rightarrow> scriptParser" where
  "parser_ungetw p = (if p_cnt p < 2 then p\<lparr>p_cnt := p_cnt p + 1\<rparr> else p)"

definition roll_getw :: "scriptParser \<Rightarrow> scriptWord option \<times> scriptParser" where
  "roll_getw p = (if p_cnt p = 0 then (None, p)
                  else (if p_cnt p = 1 then p_b0 p else p_b1 p, p\<lparr>p_cnt := p_cnt p - 1\<rparr>))"

text \<open>\<open>None\<close> is the nil word, for the end of the input as for an illegal character.\<close>

definition parser_getw :: "scriptParser \<Rightarrow> scriptWord option \<times> scriptParser" where
  "parser_getw p =
     (let (r, p) = roll_getw p
      in case r of Some w \<Rightarrow> (Some w, p)
         | None \<Rightarrow>
             (case symbol (wt p) of (t, l) \<Rightarrow>
                let p = p\<lparr>wt := l\<rparr>
                in if t = EOF \<or> t = ERR then (None, p)
                   else (Some (l_curr l), p\<lparr>p_b0 := Some (l_curr l)\<rparr>)))"

definition peek :: "scriptParser \<Rightarrow> tok \<times> scriptParser" where
  "peek p = (case parser_getw p of (None, p) \<Rightarrow> (EOF, p) | (Some w, p) \<Rightarrow> (w_typ w, parser_ungetw p))"

text \<open>\<open>detect1(PrimaryExpression)\<close>: the table \<open>firstList\<close> admits the two constants.\<close>

definition first_primary :: "tok \<Rightarrow> bool" where
  "first_primary t \<longleftrightarrow> t \<in> {INT_CONSTANT, STRING_CONSTANT}"

definition parser2 :: "scriptParser \<Rightarrow> (err + scriptNode) \<times> scriptParser" where
  "parser2 p =
     (case peek p of (t, p) \<Rightarrow>
        if t = INT_CONSTANT then
          (case parser_getw p of (w, p) \<Rightarrow> (Inr (O_CONST O_INT (w_value (the w))), p))
        else case peek p of (t, p) \<Rightarrow>
          if t = STRING_CONSTANT then
            (case parser_getw p of (w, p) \<Rightarrow> (Inr (O_CONST O_STRING (w_value (the w))), p))
          else (Inl (Err ''Expect PrimaryExpression''), p))"

definition psize :: "scriptParser \<Rightarrow> nat" where
  "psize p = 2 * lsize (wt p) + (if p_cnt p \<ge> 1 \<and> p_b0 p \<noteq> None then 1 else 0) + (if p_b1 p \<noteq> None then p_cnt p - 1 else 0)"

lemma getWord_loop_size: "lsize (snd (getWord_loop word w)) \<le> lsize w"
proof (induction word w rule: getWord_loop.induct)
  case (1 word w)
  obtain c w' where g: "lex_getc w = (c, w')" by fastforce
  show ?case
    using 1 [OF g [symmetric]] ungetc_restores [OF g] getc_decreases [of w _ w'] g
    by (subst getWord_loop.simps) (auto split: option.split)
qed

lemma getDigit_loop_size: "lsize (lex_ungetc (snd (getDigit_loop word w))) \<le> lsize w"
proof (induction word w rule: getDigit_loop.induct)
  case (1 word w)
  obtain c w' where g: "lex_getc w = (c, w')" by fastforce
  show ?case
    using 1 [OF g [symmetric]] ungetc_restores [OF g] getc_decreases [of w _ w'] g
    by (subst getDigit_loop.simps) (auto split: option.split)
qed

lemma getc_size: "lex_getc w = (c, w') \<Longrightarrow> lsize w' \<le> lsize w"
  by (cases "l_in w") (auto simp: lex_getc_def lsize_def split: if_splits)

lemma getLiteral_loop_size: "lsize (snd (getLiteral_loop a s w)) \<le> lsize w"
proof (induction a s w rule: getLiteral_loop.induct)
  case (1 a s w)
  obtain c w' where g: "lex_getc w = (c, w')" by fastforce
  show ?case
    using 1 [OF g [symmetric]] getc_size [OF g] getc_decreases [of w _ w'] g
    by (subst getLiteral_loop.simps) (auto split: option.split)
qed

lemma getWord_size: "getWord a w = (t, w') \<Longrightarrow> lsize w' \<le> lsize w"
  using getWord_loop_size [of "[a]" w] by (auto simp: getWord_def split: prod.splits)

lemma getLiteral_size: "getLiteral a w = (t, w') \<Longrightarrow> lsize w' \<le> lsize w"
  using getLiteral_loop_size [of a "[a]" w] by (auto simp: getLiteral_def split: prod.splits option.splits)

lemma getDigit_size: "getDigit a w = (t, w') \<Longrightarrow> lsize w' \<le> lsize w"
proof -
  assume d: "getDigit a w = (t, w')"
  obtain c w1 where g: "lex_getc w = (c, w1)" by fastforce
  have "lsize (lex_ungetc (snd (getDigit_word a w))) \<le> lsize w"
    using ungetc_restores [OF g] getDigit_loop_size [of "[a]" w] getDigit_loop_size [of "[a]" "lex_ungetc w1"] g
    by (auto simp: getDigit_word_def split: option.split)
  moreover have "lsize w' = lsize (lex_ungetc (snd (getDigit_word a w)))"
    using d unfolding getDigit_def by (auto simp: Let_def split: prod.splits option.splits)
  ultimately show ?thesis by simp
qed

lemma symbol_size: "symbol w = (t, w') \<Longrightarrow> lsize w' \<le> lsize w \<and> (t \<noteq> EOF \<longrightarrow> lsize w' < lsize w)"
proof (induction w rule: symbol.induct)
  case (1 w)
  obtain c w1 where g: "lex_getc w = (c, w1)" by fastforce
  show ?case
  proof (cases c)
    case None
    then show ?thesis using "1.prems" g getc_size [OF g] by (simp add: symbol.simps [of w])
  next
    case (Some b)
    have less: "lsize w1 < lsize w" using getc_decreases g Some by simp
    have sk: "lsize (skipNewline w1) \<le> lsize w1" by (rule skipNewline_size)
    have g': "(Some b, w1) = lex_getc w" using g Some by simp
    consider "isSpace (Some b)" "symbol w1 = (t, w')"
      | "\<not> isSpace (Some b)" "isNewline (Some b)" "symbol (skipNewline w1) = (t, w')"
      | "getWord b w1 = (t, w')" | "getDigit b w1 = (t, w')" | "getLiteral b w1 = (t, w')" | "lsize w' = lsize w1"
      using "1.prems" g Some by (auto simp: symbol.simps [of w] split: if_splits)
    then show ?thesis
    proof cases
      case 1 then show ?thesis using "1.IH"(1) [OF g' refl] less by fastforce
    next
      case 2 then show ?thesis using "1.IH"(2) [OF g' refl] less sk by fastforce
    next
      case 3 then show ?thesis using getWord_size less by fastforce
    next
      case 4 then show ?thesis using getDigit_size less by fastforce
    next
      case 5 then show ?thesis using getLiteral_size less by fastforce
    next
      case 6 then show ?thesis using less by simp
    qed
  qed
qed

definition pending :: "scriptParser \<Rightarrow> nat" where
  "pending p = (if p_cnt p \<ge> 1 \<and> p_b0 p \<noteq> None then 1 else 0) + (if p_b1 p \<noteq> None then p_cnt p - 1 else 0)"

lemma psize_pending: "psize p = 2 * lsize (wt p) + pending p"
  by (simp add: psize_def pending_def)

lemma roll_getw_None: "roll_getw p = (None, p') \<Longrightarrow> wt p' = wt p \<and> pending p' \<le> pending p \<and> (p_cnt p' \<noteq> 0 \<longrightarrow> p_b1 p' = None)"
  by (auto simp: roll_getw_def pending_def split: if_splits)

lemma roll_getw_Some: "roll_getw p = (Some w, p') \<Longrightarrow> wt p' = wt p \<and> pending p' < pending p \<and> pending (parser_ungetw p') \<le> pending p"
  by (auto simp: roll_getw_def pending_def parser_ungetw_def split: if_splits)

lemma pending_put: "pending (p\<lparr>p_b0 := Some w\<rparr>) \<le> Suc (pending p)"
  by (simp add: pending_def)

lemma pending_put_unget:
  "(p_cnt p \<noteq> 0 \<longrightarrow> p_b1 p = None) \<Longrightarrow> pending (parser_ungetw (p\<lparr>p_b0 := Some w\<rparr>)) \<le> Suc (pending p)"
  by (auto simp: pending_def parser_ungetw_def)

lemma pending_wt [simp]: "pending (p\<lparr>wt := l\<rparr>) = pending p" "wt (parser_ungetw p) = wt p"
  "p_cnt (p\<lparr>wt := l\<rparr>) = p_cnt p" "p_b1 (p\<lparr>wt := l\<rparr>) = p_b1 p"
  by (simp_all add: pending_def parser_ungetw_def)

lemma getw_size:
  assumes "parser_getw p = (r, p')"
  shows "psize p' \<le> psize p \<and> (r \<noteq> None \<longrightarrow> psize (parser_ungetw p') \<le> psize p \<and> psize p' < psize p)"
proof -
  obtain x p1 where x: "roll_getw p = (x, p1)" by fastforce
  have e: "parser_getw p = (case x of Some w \<Rightarrow> (Some w, p1)
         | None \<Rightarrow> (case symbol (wt p1) of (t, l) \<Rightarrow>
                let p = p1\<lparr>wt := l\<rparr> in if t = EOF \<or> t = ERR then (None, p)
                   else (Some (l_curr l), p\<lparr>p_b0 := Some (l_curr l)\<rparr>)))"
    using x unfolding parser_getw_def by (simp add: Let_def)
  show ?thesis
  proof (cases x)
    case (Some w)
    then show ?thesis using e assms roll_getw_Some [of p w p1] x by (auto simp: psize_pending)
  next
    case None
    obtain t l where s: "symbol (wt p1) = (t, l)" by fastforce
    note r = roll_getw_None [OF x [unfolded None]] and ls = symbol_size [OF s]
    show ?thesis
    proof (cases "t = EOF \<or> t = ERR")
      case True
      then have "r = None" "p' = p1\<lparr>wt := l\<rparr>" using e assms None s by (auto simp: Let_def)
      then show ?thesis using r ls by (simp add: psize_pending)
    next
      case False
      then have p': "r = Some (l_curr l)" "p' = (p1\<lparr>wt := l\<rparr>)\<lparr>p_b0 := Some (l_curr l)\<rparr>" using e assms None s by (auto simp: Let_def)
      have "lsize l < lsize (wt p)" using ls r False by simp
      moreover have "wt p' = l" by (simp add: p')
      moreover have "pending p' \<le> Suc (pending p)"
        using order_trans [OF pending_put [where p = "p1\<lparr>wt := l\<rparr>" and w = "l_curr l"], of "Suc (pending p)"] r
        unfolding p' by simp
      moreover have "pending (parser_ungetw p') \<le> Suc (pending p)"
        using order_trans [OF pending_put_unget [where p = "p1\<lparr>wt := l\<rparr>" and w = "l_curr l"], of "Suc (pending p)"] r
        unfolding p' by simp
      ultimately show ?thesis by (simp add: psize_pending)
    qed
  qed
qed

lemma peek_size: "peek p = (t, p') \<Longrightarrow> psize p' \<le> psize p"
  using getw_size [of p] by (auto simp: peek_def split: prod.splits option.splits)

lemma parser2_size: "parser2 p = (r, p') \<Longrightarrow> psize p' \<le> psize p"
proof -
  assume a: "parser2 p = (r, p')"
  obtain t p1 where p1: "peek p = (t, p1)" by fastforce
  obtain t2 p2 where p2: "peek p1 = (t2, p2)" by fastforce
  obtain w1 q1 where q1: "parser_getw p1 = (w1, q1)" by fastforce
  obtain w2 q2 where q2: "parser_getw p2 = (w2, q2)" by fastforce
  show ?thesis
    using a p1 p2 q1 q2 peek_size [OF p1] peek_size [OF p2] getw_size [OF q1] getw_size [OF q2]
    by (auto simp: parser2_def split: if_splits)
qed

lemma roll_unget: "roll_getw p = (Some w, p') \<Longrightarrow> \<exists>w' q. roll_getw (parser_ungetw p') = (Some w', q)"
  by (auto simp: roll_getw_def parser_ungetw_def split: if_splits)

lemma getw_roll: "roll_getw p = (Some w, p') \<Longrightarrow> parser_getw p = (Some w, p')"
  unfolding parser_getw_def by simp

lemma peek_getw_size:
  assumes "peek p = (t, p1)" and "t \<noteq> EOF" and "parser_getw p1 = (r, p2)"
  shows "psize p2 < psize p"
proof -
  obtain x q where x: "roll_getw p = (x, q)" by fastforce
  obtain w p' where g: "parser_getw p = (Some w, p')" and p1: "p1 = parser_ungetw p'"
    using assms(1,2) by (auto simp: peek_def split: prod.splits option.splits)
  note le = getw_size [OF g] getw_size [OF assms(3)]
  show ?thesis
  proof (cases x)
    case (Some w')
    then have "p' = q" using getw_roll x g by simp
    then obtain w2 q2 where "roll_getw p1 = (Some w2, q2)" using roll_unget x Some p1 by blast
    then have "r \<noteq> None" using getw_roll assms(3) by fastforce
    then show ?thesis using le p1 by simp
  next
    case None
    obtain t' l where s: "symbol (wt q) = (t', l)" by fastforce
    have e: "parser_getw p = (let p = q\<lparr>wt := l\<rparr> in if t' = EOF \<or> t' = ERR then (None, p)
                   else (Some (l_curr l), p\<lparr>p_b0 := Some (l_curr l)\<rparr>))"
      using x None s unfolding parser_getw_def by simp
    then have t': "t' \<noteq> EOF" "p' = (q\<lparr>wt := l\<rparr>)\<lparr>p_b0 := Some (l_curr l)\<rparr>" using g by (auto simp: Let_def split: if_splits)
    note r = roll_getw_None [OF x [unfolded None]]
    have "lsize l < lsize (wt p)" using symbol_size [OF s] r t' by simp
    moreover have "pending p1 \<le> Suc (pending p)"
      using order_trans [OF pending_put_unget [where p = "q\<lparr>wt := l\<rparr>" and w = "l_curr l"], of "Suc (pending p)"] r
      unfolding p1 t' by simp
    moreover have "wt p1 = l" by (simp add: p1 t')
    ultimately show ?thesis using le by (simp add: psize_pending)
  qed
qed

lemma parser2_consumes: "(Inr n, p') = parser2 p \<Longrightarrow> psize p' < psize p"
proof -
  assume a: "(Inr n, p') = parser2 p"
  obtain t p1 where p1: "peek p = (t, p1)" by fastforce
  obtain t2 p2 where p2: "peek p1 = (t2, p2)" by fastforce
  obtain w1 q1 where q1: "parser_getw p1 = (w1, q1)" by fastforce
  obtain w2 q2 where q2: "parser_getw p2 = (w2, q2)" by fastforce
  show ?thesis
    using a p1 p2 q1 q2 peek_size [OF p1] peek_getw_size [OF p1 _ q1] peek_getw_size [OF p2 _ q2]
    by (auto simp: parser2_def split: if_splits)
qed

lemma peek_le: "(t, p') = peek p \<Longrightarrow> psize p' \<le> psize p"
  by (rule peek_size) (rule sym)

function parser1 :: "scriptParser \<Rightarrow> (err + scriptNode) \<times> scriptParser" where
  "parser1 p =
     (case parser2 p of (Inl e, p1) \<Rightarrow> (Inl e, p1) | (Inr n1, p1) \<Rightarrow>
      case peek p1 of (t, p2) \<Rightarrow>
        if t = EOF then (Inr n1, snd (parser_getw p2))
        else case peek p2 of (t, p3) \<Rightarrow>
          if \<not> first_primary t then (Inl (Err ''Expect PrimaryExpression''), p3)
          else (case parser1 p3 of (Inl e, p4) \<Rightarrow> (Inl e, p4) | (Inr n2, p4) \<Rightarrow> (Inr (O_ELIST n1 n2), p4)))"
  by pat_completeness auto
termination
  by (relation "measure psize") (auto dest!: parser2_consumes peek_le)

declare parser1.simps [simp del]

definition parser0 :: "scriptParser \<Rightarrow> (err + scriptNode) \<times> scriptParser" where
  "parser0 p =
     (case peek p of (t, p) \<Rightarrow>
        if t \<noteq> IDENTIFIER then (Inl (Err ''Expect Function Name''), p)
        else case parser_getw p of (w, p) \<Rightarrow>
          let n1 = O_NAME (w_name (the w))
          in case peek p of (t, p) \<Rightarrow>
               if t = EOF then (Inr (O_CALL n1 None), snd (parser_getw p))
               else case parser1 p of (Inl e, p) \<Rightarrow> (Inl e, p) | (Inr n2, p) \<Rightarrow> (Inr (O_CALL n1 (Some n2)), p))"

lemma parser1_size: "psize (snd (parser1 p)) \<le> psize p"
proof (induction p rule: parser1.induct)
  case (1 p)
  obtain x p1 where x: "parser2 p = (x, p1)" by fastforce
  note l1 = parser2_size [OF x]
  show ?case
  proof (cases x)
    case (Inl e)
    then show ?thesis using x l1 by (simp add: parser1.simps [of p])
  next
    case (Inr n1)
    obtain t p2 where t: "peek p1 = (t, p2)" by fastforce
    obtain t' p3 where t': "peek p2 = (t', p3)" by fastforce
    obtain r q where r: "parser_getw p2 = (r, q)" by fastforce
    note l = peek_size [OF t] peek_size [OF t'] getw_size [OF r] l1
    have "psize (snd (parser1 p3)) \<le> psize p3" if "t \<noteq> EOF" "first_primary t'"
      using 1 x Inr t t' that by (metis (no_types))
    then show ?thesis using x Inr t t' r l by (subst parser1.simps) (auto split: sum.split prod.split)
  qed
qed

lemma parser0_consumes: "(Inr n, p') = parser0 p \<Longrightarrow> psize p' < psize p"
proof -
  assume a: "(Inr n, p') = parser0 p"
  obtain t p1 where p1: "peek p = (t, p1)" by fastforce
  obtain w q where q: "parser_getw p1 = (w, q)" by fastforce
  obtain t2 q2 where q2: "peek q = (t2, q2)" by fastforce
  obtain r q3 where q3: "parser_getw q2 = (r, q3)" by fastforce
  note l = peek_getw_size [OF p1 _ q] peek_size [OF q2] getw_size [OF q3] parser1_size [of q2]
  show ?thesis using a p1 q q2 q3 l
    by (cases "parser1 q2") (auto simp: parser0_def Let_def split: if_splits sum.splits)
qed

function Parser_loop :: "scriptParser \<Rightarrow> scriptNode list \<Rightarrow> err + scriptNode list" where
  "Parser_loop p ns =
     (case peek p of (t, p1) \<Rightarrow>
        if t = EOF then Inr ns
        else if t \<noteq> IDENTIFIER then Inl (Err ''Expect Function Call'')
        else case parser0 p1 of (Inl e, p2) \<Rightarrow> Inl e | (Inr node, p2) \<Rightarrow> Parser_loop p2 (ns @ [node]))"
  by pat_completeness auto
termination
  by (relation "measure (\<lambda>(p, _). psize p)") (auto dest!: parser0_consumes peek_le)

declare Parser_loop.simps [simp del]

definition NewParser :: "bytes \<Rightarrow> scriptParser" where
  "NewParser fd = \<lparr>wt = NewLex fd, p_cnt = 0, p_b0 = None, p_b1 = None\<rparr>"

section \<open>Script operations\<close>

record ScriptArgument =
  a_typ :: u32
  a_value :: val

record Script =
  s_name :: bytes
  s_args :: "ScriptArgument list"

definition ORDER :: u32 where "ORDER = 0"
definition AMOUNT :: u32 where "AMOUNT = 1"
definition ADDRESS :: u32 where "ADDRESS = 2"
definition TOKENID :: u32 where "TOKENID = 3"
definition PERCENTAGE :: u32 where "PERCENTAGE = 4"

definition typList :: "nat list" where
  "typList = [O_STRING, O_INT, O_STRING, O_STRING, O_INT]"

definition argumentValue :: "scriptNode \<Rightarrow> scriptNode" where
  "argumentValue np = (case np of O_ELIST l r \<Rightarrow> l | _ \<Rightarrow> np)"

definition nextArgument :: "scriptNode \<Rightarrow> scriptNode option" where
  "nextArgument np = (case np of O_ELIST l r \<Rightarrow> Some r | _ \<Rightarrow> None)"

text \<open>Bits 8 to 15 of \<open>op\<close>, and the \<open>value\<close> field.\<close>

definition node_sub :: "scriptNode \<Rightarrow> nat" where
  "node_sub np = (case np of O_CONST t v \<Rightarrow> t | _ \<Rightarrow> 0)"

definition node_value :: "scriptNode \<Rightarrow> val" where
  "node_value np = (case np of O_NAME n \<Rightarrow> VStr n | O_CONST t v \<Rightarrow> v | _ \<Rightarrow> VNil)"

definition takeArgument :: "u32 \<Rightarrow> scriptNode \<Rightarrow> ScriptArgument list \<Rightarrow> err + ScriptArgument list" where
  "takeArgument typ np args =
     (let arg = argumentValue np
      in if node_sub arg \<noteq> typList ! unat typ then Inl (Err ''type mismatch'')
         else Inr (args @ [\<lparr>a_typ = typ, a_value = node_value arg\<rparr>]))"

text \<open>The sequence of \<open>takeArgument\<close> and \<open>nextArgument\<close> calls every operation is made of.\<close>

fun takeArguments :: "u32 list \<Rightarrow> scriptNode option \<Rightarrow> ScriptArgument list \<Rightarrow> ScriptArgument list option" where
  "takeArguments [] np args = Some args"
| "takeArguments (t # ts) None args = None"
| "takeArguments (t # ts) (Some np) args =
     (case takeArgument t np args of Inl e \<Rightarrow> None | Inr args' \<Rightarrow> takeArguments ts (nextArgument np) args')"

definition operate :: "string \<Rightarrow> u32 list \<Rightarrow> scriptNode option \<Rightarrow> Script option" where
  "operate name ts np = map_option (\<lambda>args. \<lparr>s_name = str name, s_args = args\<rparr>) (takeArguments ts np [])"

definition operate0 :: "scriptNode option \<Rightarrow> Script option" where
  "operate0 = operate ''new'' [TOKENID, AMOUNT, AMOUNT]"

definition operate1 :: "scriptNode option \<Rightarrow> Script option" where
  "operate1 = operate ''mint'' [TOKENID, AMOUNT]"

definition operate2 :: "scriptNode option \<Rightarrow> Script option" where
  "operate2 = operate ''transfer'' [TOKENID, AMOUNT, ADDRESS]"

definition operate3 :: "scriptNode option \<Rightarrow> Script option" where
  "operate3 = operate ''freeze'' [TOKENID, ADDRESS, AMOUNT]"

definition operate4 :: "scriptNode option \<Rightarrow> Script option" where
  "operate4 = operate ''unfreeze'' [TOKENID, ADDRESS, AMOUNT]"

text \<open>\<open>operate5\<close> and \<open>operate6\<close> are not registered.\<close>

definition operate5 :: "scriptNode option \<Rightarrow> Script option" where
  "operate5 = operate ''rate'' [TOKENID, PERCENTAGE]"

definition operate6 :: "scriptNode option \<Rightarrow> Script option" where
  "operate6 = operate ''post'' [TOKENID, ORDER]"

definition operateRegistry :: "bytes \<Rightarrow> (scriptNode option \<Rightarrow> Script option) option" where
  "operateRegistry = map_of
     [(str ''new'', operate0), (str ''mint'', operate1), (str ''transfer'', operate2),
      (str ''freeze'', operate3), (str ''unfreeze'', operate4)]"

definition call_name :: "scriptNode \<Rightarrow> bytes" where
  "call_name n = (case n of O_CALL (O_NAME f) a \<Rightarrow> f | _ \<Rightarrow> [])"

definition call_args :: "scriptNode \<Rightarrow> scriptNode option" where
  "call_args n = (case n of O_CALL f a \<Rightarrow> a | _ \<Rightarrow> None)"

text \<open>The loop of \<open>Parser\<close> reads \<open>wp.ns[0]\<close> in every round.\<close>

definition Parser :: "bytes \<Rightarrow> Script option list" where
  "Parser dat =
     (case Parser_loop (NewParser dat) [] of
        Inl e \<Rightarrow> []
      | Inr ns \<Rightarrow>
          if ns = [] then []
          else case operateRegistry (call_name (hd ns)) of
                 None \<Rightarrow> []
               | Some fp \<Rightarrow> map (\<lambda>i. fp (call_args (hd ns))) [0..<length ns])"

section \<open>The binary form\<close>

definition ScriptArgument_Show :: "ScriptArgument \<Rightarrow> bytes" where
  "ScriptArgument_Show a =
     E32func (a_typ a) @ (case a_value a of VInt v \<Rightarrow> E64func v | VStr v \<Rightarrow> Eslice v | VNil \<Rightarrow> [])"

text \<open>An argument type outside the five known ones consumes nothing, not even the type itself.\<close>

definition ScriptArgument_Read :: "ScriptArgument \<Rightarrow> bytes \<Rightarrow> err + ScriptArgument \<times> bytes" where
  "ScriptArgument_Read a dat =
     (if length dat < 4 then Inl (Err ''ScriptArgument Read: Illegal Length'')
      else let t = le_get (take 4 dat); a = a\<lparr>a_typ := t\<rparr> in
        if t = AMOUNT \<or> t = PERCENTAGE then
          (let dat = drop 4 dat
           in if length dat < 8 then Inl (Err ''ScriptArgument Read: Illegal Length'')
              else Inr (a\<lparr>a_value := VInt (le_get (take 8 dat))\<rparr>, drop 8 dat))
        else if t = ORDER \<or> t = ADDRESS \<or> t = TOKENID then
          (case Dslice (drop 4 dat) of
             Inl e \<Rightarrow> Inl (Err ''ScriptArgument Read'')
           | Inr (v, rest) \<Rightarrow> Inr (a\<lparr>a_value := VStr v\<rparr>, rest))
        else Inr (a, dat))"

definition Script_Show :: "Script \<Rightarrow> bytes" where
  "Script_Show a =
     E32func (word_of_nat (length (s_args a))) @ Eslice (s_name a) @
     concat (map (\<lambda>i. ScriptArgument_Show (s_args a ! i)) [0..<unat (word_of_nat (length (s_args a)) :: u32)])"

fun read_args :: "nat \<Rightarrow> bytes \<Rightarrow> err + ScriptArgument list \<times> bytes" where
  "read_args 0 dat = Inr ([], dat)"
| "read_args (Suc n) dat =
     (case ScriptArgument_Read \<lparr>a_typ = 0, a_value = VNil\<rparr> dat of
        Inl e \<Rightarrow> Inl (Err ''ScriptArgument Read'')
      | Inr (a, rest) \<Rightarrow>
          (case read_args n rest of Inl e \<Rightarrow> Inl e | Inr (as, rest') \<Rightarrow> Inr (a # as, rest')))"

text \<open>\<open>Read\<close> on a script that has no arguments yet.\<close>

definition Script_Read :: "bytes \<Rightarrow> err + Script \<times> bytes" where
  "Script_Read dat =
     (if length dat < 4 then Inl (Err ''Script Read: Illegal Length'')
      else let n = le_get (take 4 dat) :: u32 in
        case Dslice (drop 4 dat) of
          Inl e \<Rightarrow> Inl (Err ''ScriptArgument Read'')
        | Inr (name, rest) \<Rightarrow>
            (case read_args (unat n) rest of
               Inl e \<Rightarrow> Inl e
             | Inr (as, rest') \<Rightarrow> Inr (\<lparr>s_name = name, s_args = as\<rparr>, rest')))"

section \<open>The lexer reads its input from left to right\<close>

text \<open>
  A lexer state whose roll buffer holds at most the last character is a position in the input.
\<close>

definition lex_ok :: "scriptLex \<Rightarrow> bool" where
  "lex_ok w \<longleftrightarrow> l_cnt w = 0 \<or> l_cnt w = 1 \<and> (l_b0 w = None \<longrightarrow> l_in w = [])"

definition lex_rest :: "scriptLex \<Rightarrow> bytes" where
  "lex_rest w = (if l_cnt w = 0 then l_in w else case l_b0 w of None \<Rightarrow> [] | Some b \<Rightarrow> b # l_in w)"

definition fresh :: "scriptLex \<Rightarrow> bool" where
  "fresh w \<longleftrightarrow> l_cnt w = 0 \<and> (l_b0 w = None \<longrightarrow> l_in w = [])"

lemma getc_nil: "lex_ok w \<Longrightarrow> lex_rest w = [] \<Longrightarrow>
    \<exists>w'. lex_getc w = (None, w') \<and> fresh w' \<and> l_b0 w' = None \<and> l_in w' = [] \<and> l_curr w' = l_curr w"
  by (cases w) (auto simp: lex_ok_def lex_rest_def lex_getc_def fresh_def split: if_splits option.splits list.splits)

lemma getc_cons: "lex_ok w \<Longrightarrow> lex_rest w = c # cs \<Longrightarrow>
    \<exists>w'. lex_getc w = (Some c, w') \<and> fresh w' \<and> l_b0 w' = Some c \<and> l_in w' = cs \<and> l_curr w' = l_curr w"
  by (cases w) (auto simp: lex_ok_def lex_rest_def lex_getc_def fresh_def split: if_splits option.splits list.splits)

lemma fresh_ok [simp]: "fresh w \<Longrightarrow> lex_ok w \<and> lex_rest w = l_in w"
  by (simp add: fresh_def lex_ok_def lex_rest_def)

lemma unget_ok [simp]: "fresh w \<Longrightarrow> lex_ok (lex_ungetc w) \<and> l_curr (lex_ungetc w) = l_curr w \<and>
    lex_rest (lex_ungetc w) = (case l_b0 w of None \<Rightarrow> [] | Some b \<Rightarrow> b # l_in w)"
  by (auto simp: fresh_def lex_ok_def lex_rest_def lex_ungetc_def split: option.split)

lemma lex_ok_curr [simp]: "lex_ok (w\<lparr>l_curr := x\<rparr>) = lex_ok w" "lex_rest (w\<lparr>l_curr := x\<rparr>) = lex_rest w"
  by (auto simp: lex_ok_def lex_rest_def split: option.split)

lemma getc_cases:
  assumes "lex_ok w"
  obtains w' where "lex_rest w = []" "lex_getc w = (None, w')" "fresh w'" "l_b0 w' = None" "l_in w' = []" "l_curr w' = l_curr w"
  | c cs w' where "lex_rest w = c # cs" "lex_getc w = (Some c, w')" "fresh w'" "l_b0 w' = Some c" "l_in w' = cs" "l_curr w' = l_curr w"
  using getc_nil [OF assms] getc_cons [OF assms] by (cases "lex_rest w") metis+

lemma skipNewline_rest:
  "lex_ok w \<Longrightarrow> lex_ok (skipNewline w) \<and> l_curr (skipNewline w) = l_curr w \<and>
    lex_rest (skipNewline w) = dropWhile (\<lambda>c. isNewline (Some c)) (lex_rest w)"
proof (induction w rule: skipNewline.induct)
  case (1 w)
  show ?case using "1.prems"
    by (cases rule: getc_cases; subst (1 2 3) skipNewline.simps) (use "1.IH" in auto)
qed

lemma getWord_loop_rest:
  "lex_ok w \<Longrightarrow> \<exists>w'. getWord_loop u w = (u @ takeWhile (\<lambda>c. isAlnum (Some c)) (lex_rest w), w') \<and> lex_ok w' \<and>
     l_curr w' = l_curr w \<and> lex_rest w' = dropWhile (\<lambda>c. isAlnum (Some c)) (lex_rest w)"
proof (induction u w rule: getWord_loop.induct)
  case (1 u w)
  show ?case using "1.prems"
    by (cases rule: getc_cases; subst getWord_loop.simps) (use "1.IH" in auto)
qed

lemma getDigit_loop_rest:
  "lex_ok w \<Longrightarrow> \<exists>w'. getDigit_loop u w = (u @ takeWhile (\<lambda>c. isXdigit (Some c)) (lex_rest w), w') \<and> lex_ok (lex_ungetc w') \<and>
     l_curr (lex_ungetc w') = l_curr w \<and> lex_rest (lex_ungetc w') = dropWhile (\<lambda>c. isXdigit (Some c)) (lex_rest w)"
proof (induction u w rule: getDigit_loop.induct)
  case (1 u w)
  show ?case using "1.prems"
    by (cases rule: getc_cases; subst getDigit_loop.simps) (use "1.IH" in auto)
qed

text \<open>The body of a string literal, and what follows its closing quote.\<close>

fun literal_ref :: "byte \<Rightarrow> bytes \<Rightarrow> bytes \<Rightarrow> bytes option \<times> bytes" where
  "literal_ref a s [] = (None, [])"
| "literal_ref a s (c # cs) =
     (if isNewline (Some c) then (None, cs)
      else if a = c then (if 96 \<in> set (s @ [c]) then None else Some (s @ [c]), cs)
      else literal_ref a (s @ [c]) cs)"

lemma getLiteral_loop_rest:
  "lex_ok w \<Longrightarrow> \<exists>w'. getLiteral_loop a s w = (fst (literal_ref a s (lex_rest w)), w') \<and> lex_ok w' \<and>
     l_curr w' = l_curr w \<and> lex_rest w' = snd (literal_ref a s (lex_rest w))"
proof (induction a s w rule: getLiteral_loop.induct)
  case (1 a s w)
  show ?case using "1.prems"
    by (cases rule: getc_cases; subst getLiteral_loop.simps) (use "1.IH" in auto)
qed

definition digit_ref :: "byte \<Rightarrow> bytes \<Rightarrow> bytes \<times> bytes" where
  "digit_ref a cs =
     (if a = 48 \<and> (cs = [] \<or> \<not> isDigit (Some (hd cs))) then ([a], cs)
      else (a # takeWhile (\<lambda>c. isXdigit (Some c)) cs, dropWhile (\<lambda>c. isXdigit (Some c)) cs))"

definition word_ref :: "byte \<Rightarrow> bytes \<Rightarrow> tok \<times> bytes \<times> val \<times> bytes" where
  "word_ref c cs =
     (if isAlpha (Some c) then
        (IDENTIFIER, c # takeWhile (\<lambda>c. isAlnum (Some c)) cs, VNil, dropWhile (\<lambda>c. isAlnum (Some c)) cs)
      else if isDigit (Some c) then
        (case ParseUint0 (fst (digit_ref c cs)) of
           None \<Rightarrow> (ERR, [], VNil, snd (digit_ref c cs))
         | Some n \<Rightarrow> (INT_CONSTANT, [], VInt n, snd (digit_ref c cs)))
      else if isSingleQuotation (Some c) \<or> isDoubleQuotation (Some c) then
        (case literal_ref c [c] cs of
           (None, r) \<Rightarrow> (ERR, [], VNil, r)
         | (Some s, r) \<Rightarrow> (STRING_CONSTANT, [], VStr (butlast (tl s)), r))
      else (ERR, [], VNil, cs))"

fun lex_ref :: "bytes \<Rightarrow> tok \<times> bytes \<times> val \<times> bytes" where
  "lex_ref [] = (EOF, [], VNil, [])"
| "lex_ref (c # cs) = (if isSpace (Some c) \<or> isNewline (Some c) then lex_ref cs else word_ref c cs)"

lemma lex_ref_skip: "lex_ref (dropWhile (\<lambda>c. isNewline (Some c)) cs) = lex_ref cs"
  by (induction cs) auto

lemma unat_lt8: "unat (c :: byte) < 256"
  using unsigned_less [of c] by simp

lemma uint_range: "n < 256 \<Longrightarrow> (\<forall>k\<in>set [0..<256]. P (word_of_nat k :: byte)) \<Longrightarrow> P (word_of_nat n :: byte)"
  by simp

lemma all_bytes: "(\<forall>k\<in>set [0..<256]. P (word_of_nat k :: byte)) \<Longrightarrow> P (c :: byte)"
  using uint_range [of "unat c" P] unsigned_less [of c] by (simp add: unat_lt8)

lemma class_facts:
  "\<forall>k\<in>set [0..<256]. (\<lambda>c :: byte.
      (isDigit (Some c) \<longrightarrow> isXdigit (Some c) \<and> isAlnum (Some c) \<and> \<not> isAlpha (Some c)) \<and>
      (isDigit (Some c) \<longleftrightarrow> 48 \<le> c \<and> c \<le> 57) \<and> (c \<noteq> 120 \<and> c \<noteq> 88 \<or> \<not> isXdigit (Some c)) \<and>
      (isAlpha (Some c) \<longrightarrow> isAlnum (Some c)) \<and> (isAlnum (Some c) \<or> isXdigit (Some c) \<longrightarrow> \<not> isSpace (Some c) \<and> \<not> isNewline (Some c))) (word_of_nat k)"
  by code_simp

lemmas classes = all_bytes [OF class_facts]

text \<open>The word that a lexer call leaves in \<open>curr\<close>, by the class of the call's result.\<close>

definition read_as :: "tok \<times> scriptLex \<Rightarrow> tok \<times> bytes \<times> val \<times> bytes \<Rightarrow> bool" where
  "read_as r s \<longleftrightarrow>
     (case r of (t, w) \<Rightarrow> case s of (t', u, v, cs) \<Rightarrow>
        t = t' \<and> lex_ok w \<and> lex_rest w = cs \<and>
        (t \<noteq> EOF \<and> t \<noteq> ERR \<longrightarrow> w_typ (l_curr w) = t) \<and>
        (t = IDENTIFIER \<longrightarrow> w_name (l_curr w) = u) \<and>
        (t = INT_CONSTANT \<or> t = STRING_CONSTANT \<longrightarrow> w_value (l_curr w) = v))"

lemma getWord_read: "fresh w \<Longrightarrow> l_in w = cs \<Longrightarrow> isAlpha (Some c) \<Longrightarrow> read_as (getWord c w) (word_ref c cs)"
  using getWord_loop_rest [of w "[c]"] by (auto simp: getWord_def word_ref_def read_as_def)

lemma getLiteral_read:
  "fresh w \<Longrightarrow> l_in w = cs \<Longrightarrow> \<not> isAlpha (Some c) \<Longrightarrow> \<not> isDigit (Some c) \<Longrightarrow>
   isSingleQuotation (Some c) \<or> isDoubleQuotation (Some c) \<Longrightarrow> read_as (getLiteral c w) (word_ref c cs)"
  using getLiteral_loop_rest [of w c "[c]"]
  by (cases "literal_ref c [c] cs") (auto simp: getLiteral_def word_ref_def read_as_def split: option.split)

lemma getDigit_word_rest:
  assumes "fresh w" "l_in w = cs"
  shows "\<exists>v. getDigit_word c w = (fst (digit_ref c cs), v) \<and> lex_ok (lex_ungetc v) \<and> lex_rest (lex_ungetc v) = snd (digit_ref c cs)"
proof -
  have ok: "lex_ok w" and r: "lex_rest w = cs" using assms by simp_all
  show ?thesis using ok
  proof (cases rule: getc_cases)
    case (1 w')
    then show ?thesis using r getDigit_loop_rest [OF ok, of "[c]"] by (auto simp: getDigit_word_def digit_ref_def)
  next
    case (2 d ds w')
    have "lex_ok (lex_ungetc w')" "lex_rest (lex_ungetc w') = cs" using 2 r by simp_all
    then show ?thesis
      using 2 r getDigit_loop_rest [OF ok, of "[c]"] getDigit_loop_rest [of "lex_ungetc w'" "[c]"] classes [of d]
      by (auto simp: getDigit_word_def digit_ref_def)
  qed
qed

lemma getDigit_read:
  assumes "fresh w" "l_in w = cs" "isDigit (Some c)"
  shows "read_as (getDigit c w) (word_ref c cs)"
proof -
  obtain v where m: "getDigit_word c w = (fst (digit_ref c cs), v)" "lex_ok (lex_ungetc v)" "lex_rest (lex_ungetc v) = snd (digit_ref c cs)"
    using getDigit_word_rest [OF assms(1,2)] by blast
  have "\<not> isAlpha (Some c)" using assms(3) classes [of c] by simp
  then show ?thesis
    using assms(3) m by (cases "ParseUint0 (fst (digit_ref c cs))") (simp_all add: getDigit_def Let_def word_ref_def read_as_def)
qed

lemma symbol_read: "lex_ok w \<Longrightarrow> read_as (symbol w) (lex_ref (lex_rest w))"
proof (induction w rule: symbol.induct)
  case (1 w)
  show ?case using "1.prems"
  proof (cases rule: getc_cases)
    case (1 w')
    then show ?thesis by (simp add: symbol.simps [of w] read_as_def)
  next
    case (2 c cs w')
    note IH = "1.IH" [OF 2(2) [symmetric] refl]
    have ok: "lex_ok w'" "lex_rest w' = cs" using 2 by simp_all
    note sk = skipNewline_rest [OF ok(1)]
    consider "isSpace (Some c)" | "\<not> isSpace (Some c)" "isNewline (Some c)" | "\<not> isSpace (Some c)" "\<not> isNewline (Some c)" by blast
    then show ?thesis
    proof cases
      case 1
      then show ?thesis using 2 IH(1) ok by (simp add: symbol.simps [of w])
    next
      case newline: 2
      then show ?thesis using 2 IH(2) ok sk by (simp add: symbol.simps [of w] lex_ref_skip)
    next
      case 3
      have s: "symbol w = (if isAlpha (Some c) then getWord c w' else if isDigit (Some c) then getDigit c w'
        else if isSingleQuotation (Some c) \<or> isDoubleQuotation (Some c) then getLiteral c w'
        else (ERR, w'\<lparr>l_curr := (l_curr w')\<lparr>w_typ := ERR\<rparr>\<rparr>))"
        using 3 2 by (simp add: symbol.simps [of w])
      have "read_as (symbol w) (word_ref c cs)"
        using ok unfolding s
        by (simp add: getWord_read [OF 2(3,5)] getDigit_read [OF 2(3,5)] getLiteral_read [OF 2(3,5)])
           (simp add: word_ref_def read_as_def)
      then show ?thesis using 2 3 by simp
    qed
  qed
qed

section \<open>The parser reads the words of the input in order\<close>

definition prs_ok :: "scriptParser \<Rightarrow> bool" where
  "prs_ok p \<longleftrightarrow> lex_ok (wt p) \<and> p_b1 p = None \<and> (p_cnt p = 0 \<or> p_cnt p = 1 \<and> p_b0 p \<noteq> None)"

definition pos_at :: "scriptParser \<Rightarrow> bytes \<Rightarrow> bool" where
  "pos_at p r \<longleftrightarrow> prs_ok p \<and> p_cnt p = 0 \<and> lex_rest (wt p) = r"

definition word_is :: "scriptWord \<Rightarrow> tok \<Rightarrow> bytes \<Rightarrow> val \<Rightarrow> bool" where
  "word_is w t u v \<longleftrightarrow> w_typ w = t \<and> (t = IDENTIFIER \<longrightarrow> w_name w = u) \<and> (t = INT_CONSTANT \<or> t = STRING_CONSTANT \<longrightarrow> w_value w = v)"

text \<open>The next word, read ahead or still in the input, and what follows it.\<close>

definition sees :: "scriptParser \<Rightarrow> tok \<Rightarrow> bytes \<Rightarrow> val \<Rightarrow> bytes \<Rightarrow> bool" where
  "sees p t u v r \<longleftrightarrow> prs_ok p \<and> t \<noteq> EOF \<and> t \<noteq> ERR \<and>
     (if p_cnt p = 0 then lex_ref (lex_rest (wt p)) = (t, u, v, r)
      else (\<exists>w. p_b0 p = Some w \<and> word_is w t u v) \<and> lex_rest (wt p) = r)"

lemma symbol_word:
  "lex_ok l \<Longrightarrow> lex_ref (lex_rest l) = (t, u, v, r) \<Longrightarrow>
    \<exists>l'. symbol l = (t, l') \<and> lex_ok l' \<and> lex_rest l' = r \<and> (t \<noteq> EOF \<and> t \<noteq> ERR \<longrightarrow> word_is (l_curr l') t u v)"
  using symbol_read [of l] by (cases "symbol l") (auto simp: read_as_def word_is_def)

lemma sees_getw: "sees p t u v r \<Longrightarrow> \<exists>w p'. parser_getw p = (Some w, p') \<and> word_is w t u v \<and> pos_at p' r \<and> p_b0 p' = Some w"
  using symbol_word [of "wt p" t u v r]
  by (auto simp: sees_def prs_ok_def pos_at_def parser_getw_def roll_getw_def Let_def split: if_splits)

lemma sees_peek: "sees p t u v r \<Longrightarrow> \<exists>p'. peek p = (t, p') \<and> sees p' t u v r"
proof -
  assume s: "sees p t u v r"
  obtain w p' where g: "parser_getw p = (Some w, p')" "word_is w t u v" "pos_at p' r" "p_b0 p' = Some w"
    using sees_getw [OF s] by blast
  have "sees (parser_ungetw p') t u v r"
    using g s by (auto simp: sees_def pos_at_def prs_ok_def parser_ungetw_def)
  moreover have "peek p = (t, parser_ungetw p')" using g by (simp add: peek_def word_is_def)
  ultimately show ?thesis by blast
qed

lemma pos_at_nil_getw: "pos_at p [] \<Longrightarrow> \<exists>p'. parser_getw p = (None, p') \<and> pos_at p' []"
  using symbol_word [of "wt p" EOF "[]" VNil "[]"]
  by (auto simp: pos_at_def prs_ok_def parser_getw_def roll_getw_def Let_def)

lemma pos_at_nil_peek: "pos_at p [] \<Longrightarrow> \<exists>p'. peek p = (EOF, p') \<and> pos_at p' []"
  using pos_at_nil_getw [of p] by (auto simp: peek_def)

lemma pos_at_sees: "pos_at p cs \<Longrightarrow> lex_ref cs = (t, u, v, r) \<Longrightarrow> t \<noteq> EOF \<Longrightarrow> t \<noteq> ERR \<Longrightarrow> sees p t u v r"
  by (simp add: pos_at_def sees_def)

section \<open>Printed scripts\<close>

function dec :: "nat \<Rightarrow> bytes" where
  "dec n = (if n < 10 then [word_of_nat (48 + n)] else dec (n div 10) @ [word_of_nat (48 + n mod 10)])"
  by pat_completeness auto
termination
  by (relation "measure id") auto

declare dec.simps [simp del]

definition print_value :: "val \<Rightarrow> bytes" where
  "print_value v = (case v of VInt n \<Rightarrow> 32 # dec (unat n) | VStr s \<Rightarrow> 32 # 34 # s @ [34] | VNil \<Rightarrow> [])"

definition printable :: "val \<Rightarrow> bool" where
  "printable v = (case v of VInt n \<Rightarrow> True
     | VStr s \<Rightarrow> (\<forall>c\<in>set s. \<not> isNewline (Some c) \<and> c \<noteq> 34 \<and> c \<noteq> 96) | VNil \<Rightarrow> False)"

definition print_script :: "Script \<Rightarrow> bytes" where
  "print_script s = s_name s @ concat (map (print_value \<circ> a_value) (s_args s))"

lemma digit_byte: "k < 10 \<Longrightarrow> isDigit (Some (word_of_nat (48 + k))) \<and> digit_val (word_of_nat (48 + k)) = int k"
proof -
  assume "k < 10"
  then have "k \<in> set [0..<10]" by simp
  moreover have "\<forall>k\<in>set [0..<10]. isDigit (Some (word_of_nat (48 + k))) \<and> digit_val (word_of_nat (48 + k)) = int k"
    by code_simp
  ultimately show ?thesis by blast
qed

lemma dec_digits: "\<forall>c\<in>set (dec n). isDigit (Some c)"
proof (induction n rule: dec.induct)
  case (1 n)
  then show ?case using digit_byte [of n] digit_byte [of "n mod 10"]
    by (subst dec.simps) auto
qed

lemma digits_value_append:
  "digits_value b (xs @ ys) acc = (case digits_value b xs acc of None \<Rightarrow> None | Some a \<Rightarrow> digits_value b ys a)"
  by (induction xs arbitrary: acc) auto

lemma dec_value: "digits_value 10 (dec n) 0 = Some (int n)"
proof (induction n rule: dec.induct)
  case (1 n)
  then show ?case using digit_byte [of n] digit_byte [of "n mod 10"]
    by (subst dec.simps) (auto simp: digits_value_append zmod_int zdiv_int)
qed

lemma dec_not_nil: "dec n \<noteq> []"
  by (subst dec.simps) auto

lemma dec_leading: "0 < n \<Longrightarrow> hd (dec n) \<noteq> 48"
proof (induction n rule: dec.induct)
  case (1 n)
  show ?case
  proof (cases "n < 10")
    case True
    then have "n \<in> set [1..<10]" using 1 by simp
    moreover have "\<forall>n\<in>set [1..<10]. (word_of_nat (48 + n) :: byte) \<noteq> 48" by code_simp
    ultimately show ?thesis using True by (subst dec.simps) auto
  next
    case False
    then show ?thesis using 1 dec_not_nil by (subst dec.simps) auto
  qed
qed

lemma parse_dec: "ParseUint0 (dec (unat n)) = Some n"
proof (cases "n = 0")
  case True
  then show ?thesis by (simp add: ParseUint0_def dec.simps)
next
  case False
  then have "hd (dec (unat n)) \<noteq> 48" using dec_leading [of "unat n"] by (simp add: unat_gt_0)
  then show ?thesis using unsigned_less [of n, where 'a = int] by (simp add: ParseUint0_def dec_value not_le)
qed

section \<open>Reading back a printed script\<close>

text \<open>What follows a printed constant or name: nothing, or another constant.\<close>

definition tail_ok :: "bytes \<Rightarrow> bool" where
  "tail_ok cs \<longleftrightarrow> cs = [] \<or> (\<exists>c. hd cs = c \<and> isSpace (Some c))"

lemma space_classes: "isSpace (Some 32)" "\<not> isAlpha (Some 34)" "\<not> isDigit (Some 34)" "isDoubleQuotation (Some 34)"
  "\<not> isSpace (Some 34)" "\<not> isNewline (Some 34)"
  by code_simp+

lemma tail_ok_takeWhile:
  assumes "tail_ok cs" "\<forall>c\<in>set xs. P c" "\<And>c. isSpace (Some c) \<Longrightarrow> \<not> P c"
  shows "takeWhile P (xs @ cs) = xs" "dropWhile P (xs @ cs) = cs"
  using assms by (cases cs; auto simp: tail_ok_def)+

lemma not_space: "isSpace (Some c) \<Longrightarrow> \<not> isAlnum (Some c) \<and> \<not> isXdigit (Some c) \<and> \<not> isDigit (Some c)"
  using classes [of c] by blast

lemma digit_ref_dec:
  assumes "tail_ok cs" and d: "dec n = x # xs"
  shows "digit_ref x (xs @ cs) = (dec n, cs)"
proof -
  have dig: "\<forall>c\<in>set (x # xs). isDigit (Some c)" using dec_digits [of n] d by simp
  have "x \<noteq> 48 \<or> xs = []"
  proof (cases "n = 0")
    case True
    then show ?thesis using d by (subst (asm) dec.simps) simp
  next
    case False
    then show ?thesis using dec_leading [of n] d by simp
  qed
  moreover have "\<forall>c\<in>set xs. isXdigit (Some c)" using dig classes by auto
  note tw = tail_ok_takeWhile [OF assms(1) this not_space [THEN conjunct2, THEN conjunct1]]
  moreover have "cs = [] \<or> \<not> isDigit (Some (hd cs))" using assms(1) not_space by (auto simp: tail_ok_def)
  moreover have "xs = [] \<Longrightarrow> takeWhile (\<lambda>c. isXdigit (Some c)) cs = [] \<and> dropWhile (\<lambda>c. isXdigit (Some c)) cs = cs"
    using tw by simp
  ultimately show ?thesis using d by (auto simp: digit_ref_def)
qed

lemma literal_ref_body:
  "\<forall>c\<in>set s. \<not> isNewline (Some c) \<and> c \<noteq> a \<and> c \<noteq> 96 \<Longrightarrow> \<not> isNewline (Some a) \<Longrightarrow> a \<noteq> 96 \<Longrightarrow> 96 \<notin> set u \<Longrightarrow>
   literal_ref a u (s @ a # cs) = (Some (u @ s @ [a]), cs)"
  by (induction s arbitrary: u) auto

definition const_tok :: "val \<Rightarrow> tok" where
  "const_tok v = (case v of VInt n \<Rightarrow> INT_CONSTANT | _ \<Rightarrow> STRING_CONSTANT)"

definition const_node :: "val \<Rightarrow> scriptNode" where
  "const_node v = O_CONST (case v of VInt n \<Rightarrow> O_INT | _ \<Rightarrow> O_STRING) v"

lemma lex_ref_print:
  assumes "printable v" "tail_ok cs"
  shows "lex_ref (print_value v @ cs) = (const_tok v, [], v, cs)"
proof (cases v)
  case (VInt n)
  obtain x xs where d: "dec (unat n) = x # xs" using dec_not_nil [of "unat n"] by (cases "dec (unat n)") auto
  have x: "isDigit (Some x)" "isXdigit (Some x)" "\<not> isAlpha (Some x)" "\<not> isSpace (Some x)" "\<not> isNewline (Some x)"
    using dec_digits [of "unat n"] d classes [of x] by auto
  have "word_ref x (xs @ cs) = (INT_CONSTANT, [], VInt n, cs)"
    using x digit_ref_dec [OF assms(2) d] parse_dec [of n] by (simp add: word_ref_def)
  then show ?thesis using VInt x d by (simp add: print_value_def const_tok_def space_classes)
next
  case (VStr s)
  then have "literal_ref 34 [34] (s @ 34 # cs) = (Some ([34] @ s @ [34]), cs)"
    using assms(1) by (intro literal_ref_body) (auto simp: printable_def space_classes)
  then have "word_ref 34 (s @ 34 # cs) = (STRING_CONSTANT, [], VStr s, cs)"
    by (simp add: word_ref_def space_classes)
  then show ?thesis using VStr by (simp add: print_value_def const_tok_def space_classes)
qed (use assms in \<open>simp add: printable_def\<close>)

lemma lex_ref_name:
  assumes "tail_ok cs" "u \<noteq> []" "\<forall>c\<in>set u. isAlpha (Some c)"
  shows "lex_ref (u @ cs) = (IDENTIFIER, u, VNil, cs)"
proof (cases u)
  case (Cons c u')
  have c: "isAlpha (Some c)" "\<not> isSpace (Some c)" "\<not> isNewline (Some c)" using assms(3) Cons classes [of c] by auto
  have "\<forall>c\<in>set u'. isAlnum (Some c)" using assms(3) Cons classes by auto
  from tail_ok_takeWhile [OF assms(1) this not_space [THEN conjunct1]]
  show ?thesis using c Cons by (simp add: word_ref_def)
qed (use assms in simp)

fun arg_nodes :: "val list \<Rightarrow> scriptNode" where
  "arg_nodes [] = O_NAME []"
| "arg_nodes [v] = const_node v"
| "arg_nodes (v # vs) = O_ELIST (const_node v) (arg_nodes vs)"

lemma tail_ok_print: "\<forall>v\<in>set vs. printable v \<Longrightarrow> tail_ok (concat (map print_value vs))"
  by (cases vs) (auto simp: tail_ok_def print_value_def printable_def space_classes split: val.splits)

lemma parser2_const:
  assumes "sees p (const_tok v) [] v r"
  shows "\<exists>p'. parser2 p = (Inr (const_node v), p') \<and> pos_at p' r"
proof -
  obtain p1 where p1: "peek p = (const_tok v, p1)" "sees p1 (const_tok v) [] v r" using sees_peek [OF assms] by blast
  obtain p2 where p2: "peek p1 = (const_tok v, p2)" "sees p2 (const_tok v) [] v r" using sees_peek [OF p1(2)] by blast
  obtain w1 q1 where q1: "parser_getw p1 = (Some w1, q1)" "word_is w1 (const_tok v) [] v" "pos_at q1 r" using sees_getw [OF p1(2)] by blast
  obtain w2 q2 where q2: "parser_getw p2 = (Some w2, q2)" "word_is w2 (const_tok v) [] v" "pos_at q2 r" using sees_getw [OF p2(2)] by blast
  show ?thesis
    using p1 p2 q1 q2 by (cases v) (simp_all add: parser2_def const_tok_def const_node_def word_is_def)
qed

lemma parser1_args:
  "sees p (const_tok v) [] v (concat (map print_value vs)) \<Longrightarrow> \<forall>v\<in>set vs. printable v \<Longrightarrow>
   \<exists>p'. parser1 p = (Inr (arg_nodes (v # vs)), p') \<and> pos_at p' []"
proof (induction vs arbitrary: p v)
  case Nil
  obtain p1 where p1: "parser2 p = (Inr (const_node v), p1)" "pos_at p1 []" using parser2_const Nil(1) by fastforce
  obtain p2 where p2: "peek p1 = (EOF, p2)" "pos_at p2 []" using pos_at_nil_peek [OF p1(2)] by blast
  obtain p3 where p3: "parser_getw p2 = (None, p3)" "pos_at p3 []" using pos_at_nil_getw [OF p2(2)] by blast
  show ?case using p1 p2 p3 by (simp add: parser1.simps [of p])
next
  case (Cons x vs)
  let ?r = "concat (map print_value vs)"
  obtain p1 where p1: "parser2 p = (Inr (const_node v), p1)" "pos_at p1 (print_value x @ ?r)"
    using parser2_const [OF Cons(2)] by auto
  have "lex_ref (print_value x @ ?r) = (const_tok x, [], x, ?r)"
    using Cons(3) by (intro lex_ref_print tail_ok_print) auto
  then have s: "sees p1 (const_tok x) [] x ?r"
    using pos_at_sees [OF p1(2)] by (simp add: const_tok_def split: val.split)
  obtain p2 where p2: "peek p1 = (const_tok x, p2)" "sees p2 (const_tok x) [] x ?r" using sees_peek [OF s] by blast
  obtain p3 where p3: "peek p2 = (const_tok x, p3)" "sees p3 (const_tok x) [] x ?r" using sees_peek [OF p2(2)] by blast
  obtain p4 where p4: "parser1 p3 = (Inr (arg_nodes (x # vs)), p4)" "pos_at p4 []" using Cons.IH [OF p3(2)] Cons(3) by auto
  have "const_tok x \<noteq> EOF" "first_primary (const_tok x)" by (auto simp: const_tok_def first_primary_def split: val.split)
  then show ?case using p1 p2 p3 p4 by (simp add: parser1.simps [of p])
qed

lemma Parser_loop_call:
  assumes "u \<noteq> []" "\<forall>c\<in>set u. isAlpha (Some c)" "vs \<noteq> []" "\<forall>v\<in>set vs. printable v"
  shows "Parser_loop (NewParser (u @ concat (map print_value vs))) [] = Inr [O_CALL (O_NAME u) (Some (arg_nodes vs))]"
proof -
  obtain v vs' where vs: "vs = v # vs'" using assms(3) by (cases vs) auto
  let ?cs = "concat (map print_value vs)" and ?r = "concat (map print_value vs')"
  let ?p = "NewParser (u @ ?cs)"
  have "pos_at ?p (u @ ?cs)" by (simp add: pos_at_def prs_ok_def NewParser_def NewLex_def lex_ok_def lex_rest_def)
  from pos_at_sees [OF this lex_ref_name [OF tail_ok_print [OF assms(4)] assms(1,2)]]
  have s: "sees ?p IDENTIFIER u VNil ?cs" by simp
  obtain p1 where p1: "peek ?p = (IDENTIFIER, p1)" "sees p1 IDENTIFIER u VNil ?cs" using sees_peek [OF s] by blast
  obtain p2 where p2: "peek p1 = (IDENTIFIER, p2)" "sees p2 IDENTIFIER u VNil ?cs" using sees_peek [OF p1(2)] by blast
  obtain w p3 where p3: "parser_getw p2 = (Some w, p3)" "word_is w IDENTIFIER u VNil" "pos_at p3 ?cs" using sees_getw [OF p2(2)] by blast
  have "lex_ref ?cs = (const_tok v, [], v, ?r)"
    using lex_ref_print [of v ?r] tail_ok_print [of vs'] assms(4) vs by simp
  then have s3: "sees p3 (const_tok v) [] v ?r"
    using pos_at_sees [OF p3(3)] by (simp add: const_tok_def split: val.split)
  obtain p4 where p4: "peek p3 = (const_tok v, p4)" "sees p4 (const_tok v) [] v ?r" using sees_peek [OF s3] by blast
  obtain p5 where p5: "parser1 p4 = (Inr (arg_nodes vs), p5)" "pos_at p5 []" using parser1_args [OF p4(2)] assms(4) vs by auto
  obtain p6 where p6: "peek p5 = (EOF, p6)" using pos_at_nil_peek [OF p5(2)] by blast
  have "const_tok v \<noteq> EOF" by (simp add: const_tok_def split: val.split)
  then have "parser0 p1 = (Inr (O_CALL (O_NAME u) (Some (arg_nodes vs))), p5)"
    using p2 p3 p4 p5 by (simp add: parser0_def word_is_def)
  then show ?thesis using p1 p6 by (simp add: Parser_loop.simps [of ?p] Parser_loop.simps [of p5])
qed

section \<open>Types of scripts\<close>

definition has_type :: "u32 \<Rightarrow> val \<Rightarrow> bool" where
  "has_type t v = (case v of VInt n \<Rightarrow> t = AMOUNT \<or> t = PERCENTAGE | VStr s \<Rightarrow> t = ORDER \<or> t = ADDRESS \<or> t = TOKENID | VNil \<Rightarrow> False)"

definition signatures :: "(bytes \<times> u32 list) list" where
  "signatures =
     [(str ''new'', [TOKENID, AMOUNT, AMOUNT]), (str ''mint'', [TOKENID, AMOUNT]),
      (str ''transfer'', [TOKENID, AMOUNT, ADDRESS]), (str ''freeze'', [TOKENID, ADDRESS, AMOUNT]),
      (str ''unfreeze'', [TOKENID, ADDRESS, AMOUNT])]"

definition well_typed :: "Script \<Rightarrow> bool" where
  "well_typed s \<longleftrightarrow> (s_name s, map a_typ (s_args s)) \<in> set signatures \<and> (\<forall>a\<in>set (s_args s). has_type (a_typ a) (a_value a))"

text \<open>A constant node carries a value of its subtype.\<close>

fun typed_node :: "scriptNode \<Rightarrow> bool" where
  "typed_node (O_CONST t v) = (case v of VInt n \<Rightarrow> t = O_INT | VStr s \<Rightarrow> t = O_STRING | VNil \<Rightarrow> False)"
| "typed_node (O_ELIST l r) = (typed_node l \<and> typed_node r)"
| "typed_node n = False"

definition typed_word :: "scriptWord \<Rightarrow> bool" where
  "typed_word w \<longleftrightarrow> w_typ w \<noteq> EOF \<and> w_typ w \<noteq> ERR \<and>
     (w_typ w = INT_CONSTANT \<longrightarrow> (\<exists>n. w_value w = VInt n)) \<and> (w_typ w = STRING_CONSTANT \<longrightarrow> (\<exists>s. w_value w = VStr s))"

definition prs_typed :: "scriptParser \<Rightarrow> bool" where
  "prs_typed p \<longleftrightarrow> prs_ok p \<and> (\<forall>w. p_b0 p = Some w \<longrightarrow> typed_word w)"

lemma lex_ref_typed:
  "lex_ref cs = (t, u, v, r) \<Longrightarrow> (t = INT_CONSTANT \<longrightarrow> (\<exists>n. v = VInt n)) \<and> (t = STRING_CONSTANT \<longrightarrow> (\<exists>s. v = VStr s))"
  by (induction cs rule: lex_ref.induct) (auto simp: word_ref_def split: if_splits option.splits prod.splits)

lemma getw_typed:
  assumes "prs_typed p" "parser_getw p = (x, p')"
  shows "prs_typed p' \<and> p_cnt p' = 0 \<and> (\<forall>w. x = Some w \<longrightarrow> typed_word w \<and> p_b0 p' = Some w)"
proof (cases "p_cnt p = 0")
  case True
  obtain t u v r where l: "lex_ref (lex_rest (wt p)) = (t, u, v, r)" by (cases "lex_ref (lex_rest (wt p))")
  have "lex_ok (wt p)" using assms(1) by (simp add: prs_typed_def prs_ok_def)
  then obtain l' where l': "symbol (wt p) = (t, l')" "lex_ok l'" "t \<noteq> EOF \<and> t \<noteq> ERR \<longrightarrow> word_is (l_curr l') t u v"
    using symbol_word l by blast
  then have w: "t \<noteq> EOF \<and> t \<noteq> ERR \<longrightarrow> typed_word (l_curr l')"
    using lex_ref_typed [OF l] by (simp add: typed_word_def word_is_def)
  have g: "parser_getw p = (let p = p\<lparr>wt := l'\<rparr> in if t = EOF \<or> t = ERR then (None, p)
      else (Some (l_curr l'), p\<lparr>p_b0 := Some (l_curr l')\<rparr>))"
    using True l'(1) by (simp add: parser_getw_def roll_getw_def)
  show ?thesis
    using assms w l'(2) True unfolding g
    by (cases "t = EOF \<or> t = ERR") (auto simp: prs_typed_def prs_ok_def Let_def)
next
  case False
  then show ?thesis
    using assms by (auto simp: prs_typed_def prs_ok_def parser_getw_def roll_getw_def)
qed

lemma peek_typed:
  assumes "prs_typed p" "peek p = (t, p')"
  shows "prs_typed p' \<and> (t \<noteq> EOF \<longrightarrow> (\<exists>w q. parser_getw p' = (Some w, q) \<and> w_typ w = t \<and> typed_word w \<and> prs_typed q))"
proof -
  obtain x q where g: "parser_getw p = (x, q)" by fastforce
  note q = getw_typed [OF assms(1) g]
  show ?thesis
  proof (cases x)
    case None
    then show ?thesis using assms(2) g q by (simp add: peek_def)
  next
    case (Some w)
    then have p': "p' = parser_ungetw q" "t = w_typ w" using assms(2) g by (simp_all add: peek_def)
    then have ok: "prs_typed p'" using q Some by (auto simp: prs_typed_def prs_ok_def parser_ungetw_def)
    moreover obtain y q' where g': "parser_getw p' = (y, q')" by fastforce
    moreover have "y = Some w" using g' p' q Some by (auto simp: parser_getw_def roll_getw_def parser_ungetw_def)
    ultimately show ?thesis using getw_typed [OF ok g'] p' by auto
  qed
qed

lemma parser2_typed:
  assumes "prs_typed p" "parser2 p = (x, p')"
  shows "prs_typed p' \<and> (\<forall>n. x = Inr n \<longrightarrow> typed_node n)"
proof -
  obtain t1 p1 where p1: "peek p = (t1, p1)" by fastforce
  note a1 = peek_typed [OF assms(1) p1]
  obtain t2 p2 where p2: "peek p1 = (t2, p2)" by fastforce
  note a2 = peek_typed [OF a1 [THEN conjunct1] p2]
  consider "t1 = INT_CONSTANT" | "t1 \<noteq> INT_CONSTANT" "t2 = STRING_CONSTANT" | "t1 \<noteq> INT_CONSTANT" "t2 \<noteq> STRING_CONSTANT" by blast
  then show ?thesis
  proof cases
    case 1
    then obtain w q n where "parser_getw p1 = (Some w, q)" "w_value w = VInt n" "prs_typed q"
      using a1 by (auto simp: typed_word_def)
    then show ?thesis using assms(2) p1 1 by (auto simp: parser2_def)
  next
    case 2
    then obtain w q s where "parser_getw p2 = (Some w, q)" "w_value w = VStr s" "prs_typed q"
      using a2 by (auto simp: typed_word_def)
    then show ?thesis using assms(2) p1 p2 2 by (auto simp: parser2_def)
  next
    case 3
    then show ?thesis using assms(2) p1 p2 a2 by (auto simp: parser2_def)
  qed
qed

lemma parser1_typed:
  "prs_typed p \<Longrightarrow> prs_typed (snd (parser1 p)) \<and> (\<forall>n. fst (parser1 p) = Inr n \<longrightarrow> typed_node n)"
proof (induction p rule: parser1.induct)
  case (1 p)
  obtain x p1 where x: "parser2 p = (x, p1)" by fastforce
  note a1 = parser2_typed [OF 1(2) x]
  show ?case
  proof (cases x)
    case (Inl e)
    then show ?thesis using x a1 by (simp add: parser1.simps [of p])
  next
    case (Inr n1)
    obtain t p2 where t: "peek p1 = (t, p2)" by fastforce
    note a2 = peek_typed [OF a1 [THEN conjunct1] t]
    obtain t' p3 where t': "peek p2 = (t', p3)" by fastforce
    note a3 = peek_typed [OF a2 [THEN conjunct1] t']
    obtain r q where r: "parser_getw p2 = (r, q)" by fastforce
    note a4 = getw_typed [OF a2 [THEN conjunct1] r]
    obtain y p4 where y: "parser1 p3 = (y, p4)" by fastforce
    have "prs_typed p4 \<and> (\<forall>n. y = Inr n \<longrightarrow> typed_node n)" if "t \<noteq> EOF" "first_primary t'"
      using "1.IH" [OF x [symmetric] Inr t [symmetric] that(1) t' [symmetric]] that a3 y by simp
    then show ?thesis using x Inr t t' r y a1 a3 a4 by (auto simp: parser1.simps [of p] split: sum.split)
  qed
qed

definition typed_call :: "scriptNode \<Rightarrow> bool" where
  "typed_call n \<longleftrightarrow> (case call_args n of None \<Rightarrow> True | Some a \<Rightarrow> typed_node a)"

lemma parser0_typed:
  assumes "prs_typed p" "parser0 p = (x, p')"
  shows "prs_typed p' \<and> (\<forall>n. x = Inr n \<longrightarrow> typed_call n)"
proof -
  obtain t p1 where p1: "peek p = (t, p1)" by fastforce
  note a1 = peek_typed [OF assms(1) p1]
  obtain w q where q: "parser_getw p1 = (w, q)" by fastforce
  note a2 = getw_typed [OF a1 [THEN conjunct1] q]
  obtain t2 q2 where q2: "peek q = (t2, q2)" by fastforce
  note a3 = peek_typed [OF a2 [THEN conjunct1] q2]
  obtain r q3 where q3: "parser_getw q2 = (r, q3)" by fastforce
  note a4 = getw_typed [OF a3 [THEN conjunct1] q3] and a5 = parser1_typed [OF a3 [THEN conjunct1]]
  show ?thesis
  proof (cases "t = IDENTIFIER")
    case True
    then show ?thesis
      using assms(2) p1 q q2 q3 a3 a4 a5
      by (cases "parser1 q2") (auto simp: parser0_def typed_call_def call_args_def Let_def split: if_splits sum.splits)
  next
    case False
    then show ?thesis using assms(2) p1 a1 by (auto simp: parser0_def)
  qed
qed

lemma Parser_loop_typed:
  "prs_typed p \<Longrightarrow> \<forall>n\<in>set ns. typed_call n \<Longrightarrow> Parser_loop p ns = Inr ns' \<Longrightarrow> \<forall>n\<in>set ns'. typed_call n"
proof (induction p ns rule: Parser_loop.induct)
  case (1 p ns)
  obtain t p1 where p1: "peek p = (t, p1)" by fastforce
  note a1 = peek_typed [OF 1(2) p1]
  obtain x p2 where x: "parser0 p1 = (x, p2)" by fastforce
  note a2 = parser0_typed [OF a1 [THEN conjunct1] x]
  consider "t = EOF" "ns' = ns" | n where "t = IDENTIFIER" "x = Inr n" "Parser_loop p2 (ns @ [n]) = Inr ns'"
    using 1(4) p1 x by (auto simp: Parser_loop.simps [of p ns] split: if_splits sum.splits)
  then show ?case
  proof cases
    case 1
    then show ?thesis using "1.prems"(2) by simp
  next
    case 2
    have "t \<noteq> EOF" "\<not> t \<noteq> IDENTIFIER" using 2 by simp_all
    from "1.IH" [OF p1 [symmetric] this x [symmetric] 2(2)] show ?thesis using 2 a2 "1.prems"(2) by simp
  qed
qed

lemma takeArguments_typed:
  "takeArguments ts np acc = Some as \<Longrightarrow> (\<forall>n. np = Some n \<longrightarrow> typed_node n) \<Longrightarrow> set ts \<subseteq> {ORDER, AMOUNT, ADDRESS, TOKENID, PERCENTAGE} \<Longrightarrow>
   \<exists>bs. as = acc @ bs \<and> map a_typ bs = ts \<and> (\<forall>a\<in>set bs. has_type (a_typ a) (a_value a))"
proof (induction ts np acc arbitrary: as rule: takeArguments.induct)
  case (3 t ts np acc)
  obtain acc' where acc': "takeArgument t np acc = Inr acc'" "takeArguments ts (nextArgument np) acc' = Some as"
    using 3(2) by (auto split: sum.splits)
  have "\<forall>n. nextArgument np = Some n \<longrightarrow> typed_node n" using 3(3) by (cases np) (auto simp: nextArgument_def)
  then obtain bs where bs: "as = acc' @ bs" "map a_typ bs = ts" "\<forall>a\<in>set bs. has_type (a_typ a) (a_value a)"
    using "3.IH" [OF acc'] 3(4) by auto
  let ?a = "\<lparr>a_typ = t, a_value = node_value (argumentValue np)\<rparr>"
  have sub: "node_sub (argumentValue np) = typList ! unat t" and a': "acc' = acc @ [?a]"
    using acc'(1) by (auto simp: takeArgument_def Let_def split: if_splits)
  have "typed_node (argumentValue np)" using 3(3) by (cases np) (auto simp: argumentValue_def)
  then have "has_type t (node_value (argumentValue np))"
    using sub 3(4) by (cases "argumentValue np")
      (auto simp: has_type_def node_value_def node_sub_def typList_def O_INT_def O_STRING_def ORDER_def AMOUNT_def ADDRESS_def
        TOKENID_def PERCENTAGE_def split: val.splits)
  then show ?case using bs a' by (intro exI [of _ "?a # bs"]) auto
qed simp_all

section \<open>Properties\<close>

lemma NewParser_typed: "prs_typed (NewParser d)"
  by (simp add: prs_typed_def prs_ok_def NewParser_def NewLex_def lex_ok_def)

lemma operate_typed:
  "operate f ts np = Some s \<Longrightarrow> (\<forall>n. np = Some n \<longrightarrow> typed_node n) \<Longrightarrow> set ts \<subseteq> {ORDER, AMOUNT, ADDRESS, TOKENID, PERCENTAGE} \<Longrightarrow>
   (str f, ts) \<in> set signatures \<Longrightarrow> well_typed s"
  using takeArguments_typed [of ts np "[]"] by (auto simp: operate_def well_typed_def)

lemmas operate_defs = operate0_def operate1_def operate2_def operate3_def operate4_def

lemma registry_typed:
  "operateRegistry f = Some fp \<Longrightarrow> fp np = Some s \<Longrightarrow> (\<forall>n. np = Some n \<longrightarrow> typed_node n) \<Longrightarrow> well_typed s"
  unfolding operateRegistry_def operate_defs
  by (auto split: if_splits dest!: operate_typed [OF _ _ _ _, of _ _ np s] simp: signatures_def)

text \<open>
  C27. Every script the parser accepts has the argument list of its operation: the operation is
  one of the five registered ones, its arguments are exactly those of its signature, in order,
  and the value of each is an unsigned integer for an amount and a string for the others.
\<close>

theorem parser_well_typed:
  assumes "Some s \<in> set (Parser d)"
  shows "well_typed s"
proof -
  obtain ns where ns: "Parser_loop (NewParser d) [] = Inr ns" "ns \<noteq> []"
    using assms by (cases "Parser_loop (NewParser d) []") (auto simp: Parser_def split: if_splits)
  obtain fp where fp: "operateRegistry (call_name (hd ns)) = Some fp" "fp (call_args (hd ns)) = Some s"
    using assms ns by (cases "operateRegistry (call_name (hd ns))") (auto simp: Parser_def)
  have "typed_call (hd ns)" using Parser_loop_typed [OF NewParser_typed _ ns(1)] ns(2) by simp
  then show ?thesis using registry_typed [OF fp] by (simp add: typed_call_def split: option.splits)
qed

lemma takeArguments_nodes:
  "list_all2 has_type ts vs \<Longrightarrow> vs \<noteq> [] \<Longrightarrow> set ts \<subseteq> {ORDER, AMOUNT, ADDRESS, TOKENID, PERCENTAGE} \<Longrightarrow>
   takeArguments ts (Some (arg_nodes vs)) acc = Some (acc @ map2 (\<lambda>t v. \<lparr>a_typ = t, a_value = v\<rparr>) ts vs)"
proof (induction ts vs arbitrary: acc rule: list_all2_induct)
  case (Cons t ts v vs)
  have s: "node_sub (const_node v) = typList ! unat t" "node_value (const_node v) = v"
    using Cons(1) by (cases v; auto simp: has_type_def const_node_def node_sub_def node_value_def typList_def O_INT_def O_STRING_def
        ORDER_def AMOUNT_def ADDRESS_def TOKENID_def PERCENTAGE_def)+
  have a: "argumentValue (arg_nodes (v # vs)) = const_node v"
    by (cases vs) (simp_all add: argumentValue_def const_node_def)
  have "takeArguments ts (nextArgument (arg_nodes (v # vs))) acc' = Some (acc' @ map2 (\<lambda>t v. \<lparr>a_typ = t, a_value = v\<rparr>) ts vs)" for acc'
    using Cons by (cases vs) (simp_all add: nextArgument_def const_node_def)
  then show ?case using s a by (simp add: takeArgument_def Let_def)
qed simp

lemma str_eq_iff: "str a = str b \<longleftrightarrow> map (of_char :: char \<Rightarrow> byte) a = map of_char b"
  by (simp add: str_def)

lemma registry_entries:
  "operateRegistry (str ''new'') = Some operate0" "operateRegistry (str ''mint'') = Some operate1"
  "operateRegistry (str ''transfer'') = Some operate2" "operateRegistry (str ''freeze'') = Some operate3"
  "operateRegistry (str ''unfreeze'') = Some operate4"
  by (simp_all add: operateRegistry_def str_eq_iff)

lemma registry_operate:
  assumes "(f, ts) \<in> set signatures"
  obtains g where "f = str g" "operateRegistry f = Some (operate g ts)" "set ts \<subseteq> {ORDER, AMOUNT, ADDRESS, TOKENID, PERCENTAGE}" "ts \<noteq> []"
proof -
  have "\<exists>g\<in>{''new'', ''mint'', ''transfer'', ''freeze'', ''unfreeze''}. f = str g \<and> operateRegistry (str g) = Some (operate g ts)"
    using assms registry_entries unfolding operate_defs signatures_def by auto
  moreover have "set ts \<subseteq> {ORDER, AMOUNT, ADDRESS, TOKENID, PERCENTAGE} \<and> ts \<noteq> []"
    using assms by (auto simp: signatures_def)
  ultimately show ?thesis using that by blast
qed

lemma signature_name: "(f, ts) \<in> set signatures \<Longrightarrow> f \<noteq> [] \<and> (\<forall>c\<in>set f. isAlpha (Some c))"
proof -
  have "\<forall>p\<in>set signatures. fst p \<noteq> [] \<and> (\<forall>c\<in>set (fst p). isAlpha (Some c))" by code_simp
  then show "(f, ts) \<in> set signatures \<Longrightarrow> ?thesis" by fastforce
qed

lemma Parser_print:
  assumes "well_typed s" and "\<forall>a\<in>set (s_args s). printable (a_value a)"
  shows "Parser (print_script s) = [Some s]"
proof -
  let ?vs = "map a_value (s_args s)" and ?ts = "map a_typ (s_args s)"
  have sig: "(s_name s, ?ts) \<in> set signatures" using assms(1) by (simp add: well_typed_def)
  obtain g fp where g: "s_name s = str g" "operateRegistry (s_name s) = Some (operate g ?ts)"
    "set ?ts \<subseteq> {ORDER, AMOUNT, ADDRESS, TOKENID, PERCENTAGE}" "?ts \<noteq> []"
    using registry_operate [OF sig] by metis
  have "Parser_loop (NewParser (s_name s @ concat (map print_value ?vs))) [] = Inr [O_CALL (O_NAME (s_name s)) (Some (arg_nodes ?vs))]"
    using signature_name [OF sig] g(4) assms(2) by (intro Parser_loop_call) auto
  moreover have "takeArguments ?ts (Some (arg_nodes ?vs)) [] = Some (map2 (\<lambda>t v. \<lparr>a_typ = t, a_value = v\<rparr>) ?ts ?vs)"
    using assms(1) g(3,4) takeArguments_nodes [of ?ts ?vs "[]"]
    by (simp add: well_typed_def list_all2_map1 list_all2_map2 list.rel_refl_strong)
  moreover have "map2 (\<lambda>t v. \<lparr>a_typ = t, a_value = v\<rparr>) ?ts ?vs = s_args s"
    by (simp add: map2_map_map [of _ _ "s_args s"] map_idI)
  ultimately show ?thesis
    using g(1,2) by (simp add: Parser_def print_script_def call_name_def call_args_def operate_def o_def)
qed

text \<open>
  C28. Parsing the text of a well-typed script gives back exactly that script: the name, then each
  argument behind a space, amounts in decimal and strings between double quotes, for every
  string without a newline, a double quote or a back quote.
\<close>

theorem parse_printed_script:
  assumes "well_typed s" and "\<forall>a\<in>set (s_args s). printable (a_value a)"
  shows "Parser (print_script s) = [Some s]"
  using assms by (rule Parser_print)

text \<open>
  A text of several statements is not executed statement by statement: the parser returns the
  operation of the first statement once for every statement of the text.
\<close>

theorem parser_repeats_first_statement:
  "Parser d = replicate (length (Parser d)) (hd (Parser d))"
proof -
  have "\<exists>n x. Parser d = replicate n x"
    by (auto simp: Parser_def map_replicate_const split: sum.split option.split intro: exI [of _ 0])
  then show ?thesis by (metis hd_replicate length_replicate replicate_empty)
qed

theorem parser_repeats_example:
  "Parser (str ''mint '' @ [34, 84, 34] @ str '' 20;x new '' @ [34, 85, 34] @ str '' 1 1'') =
     replicate 2 (Some \<lparr>s_name = str ''mint'', s_args = [\<lparr>a_typ = TOKENID, a_value = VStr [84]\<rparr>, \<lparr>a_typ = AMOUNT, a_value = VInt 20\<rparr>]\<rparr>)"
  by code_simp

lemma arg_read_show:
  assumes "has_type (a_typ a) (a_value a)" "length (ScriptArgument_Show a) + length rest < 2 ^ 32"
  shows "ScriptArgument_Read \<lparr>a_typ = 0, a_value = VNil\<rparr> (ScriptArgument_Show a @ rest) = Inr (a, rest)"
proof (cases "a_value a")
  case (VInt n)
  then have "a_typ a = AMOUNT \<or> a_typ a = PERCENTAGE" using assms(1) by (simp add: has_type_def)
  moreover have "le_get (E64func n) = n" by (simp add: E64func_def le_get_le_put take_bit_word_eq_self)
  ultimately show ?thesis
    using VInt by (cases a) (simp add: ScriptArgument_Read_def ScriptArgument_Show_def Let_def)
next
  case (VStr s)
  then have t: "a_typ a = ORDER \<or> a_typ a = ADDRESS \<or> a_typ a = TOKENID" using assms(1) by (simp add: has_type_def)
  then have "a_typ a \<noteq> AMOUNT \<and> a_typ a \<noteq> PERCENTAGE"
    by (auto simp: ORDER_def AMOUNT_def ADDRESS_def TOKENID_def PERCENTAGE_def)
  moreover have "Dslice (Eslice s @ rest) = Inr (s, rest)"
    using assms(2) VStr by (intro Dslice_Eslice) (simp add: ScriptArgument_Show_def Eslice_def)
  ultimately show ?thesis
    using VStr t by (cases a) (simp add: ScriptArgument_Read_def ScriptArgument_Show_def Let_def)
qed (use assms in \<open>simp add: has_type_def\<close>)

lemma read_args_show:
  "\<forall>a\<in>set as. has_type (a_typ a) (a_value a) \<Longrightarrow> length (concat (map ScriptArgument_Show as)) + length rest < 2 ^ 32 \<Longrightarrow>
   read_args (length as) (concat (map ScriptArgument_Show as) @ rest) = Inr (as, rest)"
proof (induction as)
  case (Cons a as)
  then show ?case
    using arg_read_show [of a "concat (map ScriptArgument_Show as) @ rest"] by simp
qed simp

lemma length_shown: "length as \<le> length (concat (map ScriptArgument_Show as))"
  by (induction as) (auto simp: ScriptArgument_Show_def)

lemma Script_Show_eq:
  "length (s_args s) < 2 ^ 32 \<Longrightarrow>
   Script_Show s = E32func (word_of_nat (length (s_args s))) @ Eslice (s_name s) @ concat (map ScriptArgument_Show (s_args s))"
  using map_nth [of "s_args s"] by (simp add: Script_Show_def flip: map_map [unfolded o_def, of ScriptArgument_Show "(!) (s_args s)"])

text \<open>
  Decoding the binary form of a script whose argument types match their values, followed by
  other data, returns the script and the data behind it, for texts below 4 GiB.
\<close>

theorem script_show_read:
  assumes "\<forall>a\<in>set (s_args s). has_type (a_typ a) (a_value a)"
    and "length (s_name s) + length (concat (map ScriptArgument_Show (s_args s))) + length rest < 2 ^ 32"
  shows "Script_Read (Script_Show s @ rest) = Inr (s, rest)"
proof -
  have n: "length (s_args s) < 2 ^ 32" using assms(2) length_shown [of "s_args s"] by simp
  have "Dslice (Eslice (s_name s) @ concat (map ScriptArgument_Show (s_args s)) @ rest)
        = Inr (s_name s, concat (map ScriptArgument_Show (s_args s)) @ rest)"
    using assms(2) by (intro Dslice_Eslice) simp
  then show ?thesis
    using n read_args_show [of "s_args s" rest] assms by (simp add: Script_Read_def Script_Show_eq Let_def)
qed

definition demo_script :: Script where
  "demo_script = \<lparr>s_name = str ''transfer'', s_args =
     [\<lparr>a_typ = TOKENID, a_value = VStr (str ''abc'')\<rparr>, \<lparr>a_typ = AMOUNT, a_value = VInt 1050\<rparr>,
      \<lparr>a_typ = ADDRESS, a_value = VStr (str ''fff'')\<rparr>]\<rparr>"

lemma demo_script_ok: "well_typed demo_script \<and> (\<forall>a\<in>set (s_args demo_script). printable (a_value a) \<and> has_type (a_typ a) (a_value a))"
  by code_simp

theorem script_show_read_witness: "Script_Read (Script_Show demo_script @ [7]) = Inr (demo_script, [7])"
  by (rule script_show_read) (simp add: demo_script_ok, simp add: demo_script_def ScriptArgument_Show_def Eslice_def)

theorem parse_printed_script_witness: "Parser (print_script demo_script) = [Some demo_script]"
  by (rule parse_printed_script) (simp_all add: demo_script_ok)

theorem parser_well_typed_witness: "well_typed demo_script"
proof (rule parser_well_typed)
  show "Some demo_script \<in> set (Parser (str ''transfer '' @ [34] @ str ''abc'' @ [34] @ str '' 1050 '' @ [34] @ str ''fff'' @ [34]))"
    by code_simp
qed

end
