(* ===== verification/Tokens.thy ===== *)
theory Tokens
  imports State Merkle Scripts
begin

text \<open>
  The token contracts, \<open>pkg/contract/exec/exec.go\<close>, and the token queries of the chain,
  \<open>pkg/blockchain/token.go\<close>. The map of the values a run has written is an association list.
\<close>

section \<open>Keys\<close>

definition aKey :: "bytes \<Rightarrow> bytes" where "aKey tid = tid"
definition bKey :: "bytes \<Rightarrow> bytes \<Rightarrow> bytes" where "bKey tid ad = str ''b'' @ str ''/'' @ tid @ ad"
definition pKey :: "bytes \<Rightarrow> bytes" where "pKey tid = str ''p'' @ str ''/'' @ tid"
definition fKey :: "bytes \<Rightarrow> bytes \<Rightarrow> bytes" where "fKey tid ad = str ''F'' @ str ''/'' @ tid @ ad"
definition tKey :: "bytes \<Rightarrow> bytes \<Rightarrow> bytes" where "tKey tid ad = str ''t'' @ str ''/'' @ tid @ ad"
definition cKey :: "bytes \<Rightarrow> bytes \<Rightarrow> bytes" where "cKey tid ad = str ''c'' @ str ''/'' @ tid @ ad"

definition sHA1 :: "('z) env_scheme \<Rightarrow> bytes \<Rightarrow> bytes" where
  "sHA1 E s = hex_EncodeToString (sha1 E s)"

section \<open>State\<close>

text \<open>
  \<open>Common_String\<close> is \<open>common.Address.String\<close> of go-ethereum, the checksummed hexadecimal form.
\<close>

record ('d, 't, 's) tsys = "('d, 't, 's) sys" +
  Common_String :: "caddr \<Rightarrow> bytes"

type_synonym tokmap = "(bytes \<times> bytes) list"

definition sdbGet :: "('d, 't, 's, 'z) sys_scheme \<Rightarrow> 's \<Rightarrow> bytes \<Rightarrow> u64" where
  "sdbGet S s k = big_Uint64 (GetBalance (SD S) s (HexToAddress S (sHA1 S k)))"

definition TokenBalance :: "('d, 't, 's, 'z) sys_scheme \<Rightarrow> 's \<Rightarrow> bytes \<Rightarrow> bytes \<Rightarrow> u64" where
  "TokenBalance S s tid ad = big_Uint64 (GetBalance (SD S) s (HexToAddress S (sHA1 S (bKey tid ad))))"

definition TokenFreeze :: "('d, 't, 's, 'z) sys_scheme \<Rightarrow> 's \<Rightarrow> bytes \<Rightarrow> bytes \<Rightarrow> u64" where
  "TokenFreeze S s tid ad = big_Uint64 (GetBalance (SD S) s (HexToAddress S (sHA1 S (fKey tid ad))))"

text \<open>\<open>binary.LittleEndian.Uint64\<close>, which panics on a short slice.\<close>

definition LE_Uint64 :: "bytes \<Rightarrow> err + u64" where
  "LE_Uint64 v = (if length v < 8 then Inl (Panic ''index out of range'') else Inr (le_get (take 8 v)))"

definition Precision :: "('d, 't, 's, 'z) sys_scheme \<Rightarrow> 'd \<Rightarrow> bytes \<Rightarrow> err + u64" where
  "Precision S d tid = bindE (bgStore_Get (KV S) d (pKey tid)) LE_Uint64"

text \<open>The value of a key in a run: what the run has written, or what the state holds.\<close>

definition readVal :: "('d, 't, 's, 'z) sys_scheme \<Rightarrow> 's \<Rightarrow> bytes \<Rightarrow> tokmap \<Rightarrow> err + u64" where
  "readVal S s k mp = (case map_of mp k of Some v \<Rightarrow> LE_Uint64 v | None \<Rightarrow> Inr (sdbGet S s k))"

definition putVal :: "bytes \<Rightarrow> u64 \<Rightarrow> (tokmap, unit) M" where
  "putVal k v = modM (AList.update k (E64func v))"

text \<open>\<open>sc.Arguments()[i].Value()\<close> and a type assertion whose failure leaves the zero value.\<close>

definition arg_str :: "Script \<Rightarrow> nat \<Rightarrow> err + bytes" where
  "arg_str sc i = (if length (s_args sc) \<le> i then Inl (Panic ''index out of range'')
     else Inr (case a_value (s_args sc ! i) of VStr v \<Rightarrow> v | _ \<Rightarrow> []))"

definition arg_int :: "Script \<Rightarrow> nat \<Rightarrow> err + u64" where
  "arg_int sc i = (if length (s_args sc) \<le> i then Inl (Panic ''index out of range'')
     else Inr (case a_value (s_args sc ! i) of VInt v \<Rightarrow> v | _ \<Rightarrow> 0))"

section \<open>Operations\<close>

definition deal0 :: "('d, 't, 's, 'z) sys_scheme \<Rightarrow> 't \<Rightarrow> 's \<Rightarrow> bytes \<Rightarrow> Script \<Rightarrow> (tokmap, unit) M" where
  "deal0 S t s executor sc =
     bindM (liftE (arg_str sc 0)) (\<lambda>arg0. bindM (liftE (arg_int sc 1)) (\<lambda>arg1. bindM (liftE (arg_int sc 2)) (\<lambda>arg2.
     bindM (readM (\<lambda>mp. Inr (map_of mp (aKey arg0) \<noteq> None))) (\<lambda>inmp.
     thenM (failIf inmp (Err ''token exist''))
    (thenM (failIf (case bg_get (KV S) t (aKey arg0) of Inl e \<Rightarrow> False | Inr v \<Rightarrow> True) (Err ''token exist''))
    (thenM (modM (AList.update arg0 executor))
    (thenM (putVal (bKey arg0 executor) 0)
    (thenM (putVal (tKey arg0 executor) arg1)
    (thenM (putVal (pKey arg0) arg2)
           (modM (AList.update (fKey arg0 executor) (replicate 8 0))))))))))))"

text \<open>The guard of \<open>mint\<close>, \<open>freeze\<close> and \<open>unfreeze\<close>: the executor owns the token in the database.\<close>

definition checkOwner :: "('d, 't, 's, 'z) sys_scheme \<Rightarrow> 't \<Rightarrow> bytes \<Rightarrow> bytes \<Rightarrow> (tokmap, unit) M" where
  "checkOwner S t executor arg0 =
     bindM (liftE (bg_get (KV S) t (aKey arg0))) (\<lambda>v. failIf (v \<noteq> executor) (Err ''permission denied''))"

text \<open>The comparison is between signed integers, and their difference wraps.\<close>

definition deal1 :: "('d, 't, 's, 'z) sys_scheme \<Rightarrow> 't \<Rightarrow> 's \<Rightarrow> bytes \<Rightarrow> Script \<Rightarrow> (tokmap, unit) M" where
  "deal1 S t s executor sc =
     bindM (liftE (arg_str sc 0)) (\<lambda>arg0. bindM (liftE (arg_int sc 1)) (\<lambda>arg1.
     thenM (checkOwner S t executor arg0)
    (bindM (readM (readVal S s (tKey arg0 executor))) (\<lambda>tot.
     bindM (readM (readVal S s (cKey arg0 executor))) (\<lambda>c.
     thenM (failIf (sint (tot - arg1) < sint c) (Err ''overflow''))
    (thenM (putVal (cKey arg0 executor) (c + arg1))
    (bindM (readM (readVal S s (bKey arg0 executor))) (\<lambda>b.
           putVal (bKey arg0 executor) (b + arg1)))))))))"

definition deal2 :: "('d, 't, 's, 'z) tsys_scheme \<Rightarrow> 't \<Rightarrow> 's \<Rightarrow> bytes \<Rightarrow> Script \<Rightarrow> (tokmap, unit) M" where
  "deal2 S t s executor sc =
     bindM (liftE (arg_str sc 0)) (\<lambda>arg0. bindM (liftE (arg_int sc 1)) (\<lambda>arg1. bindM (liftE (arg_str sc 2)) (\<lambda>arg2a.
     bindM (liftE (NewAddrFromString S arg2a)) (\<lambda>arg2b. bindM (liftE (NewCommonAddr S arg2b)) (\<lambda>arg2c.
     let arg2 = Common_String S arg2c in
     thenM (\<lambda>mp. (case map_of mp (aKey arg0) of Some v \<Rightarrow> Inr ()
                  | None \<Rightarrow> bindE (bg_get (KV S) t (aKey arg0)) (\<lambda>v. Inr ()), mp))
    (bindM (readM (readVal S s (fKey arg0 executor))) (\<lambda>free.
     bindM (readM (readVal S s (bKey arg0 executor))) (\<lambda>from.
     thenM (failIf (from < arg1 + free) (Err ''insufficient balance''))
    (bindM (readM (readVal S s (bKey arg0 arg2))) (\<lambda>to.
     if bKey arg0 arg2 \<noteq> bKey arg0 executor
     then thenM (putVal (bKey arg0 executor) (from - arg1)) (putVal (bKey arg0 arg2) (to + arg1))
     else retM ()))))))))))"

definition deal3 :: "('d, 't, 's, 'z) sys_scheme \<Rightarrow> 't \<Rightarrow> 's \<Rightarrow> bytes \<Rightarrow> Script \<Rightarrow> (tokmap, unit) M" where
  "deal3 S t s executor sc =
     bindM (liftE (arg_str sc 0)) (\<lambda>arg0. bindM (liftE (arg_str sc 1)) (\<lambda>arg1. bindM (liftE (arg_int sc 2)) (\<lambda>arg2.
     thenM (checkOwner S t executor arg0)
    (bindM (readM (readVal S s (bKey arg0 arg1))) (\<lambda>b.
     bindM (readM (readVal S s (fKey arg0 arg1))) (\<lambda>f.
     putVal (fKey arg0 arg1) (if b < f + arg2 then b else f + arg2)))))))"

definition deal4 :: "('d, 't, 's, 'z) sys_scheme \<Rightarrow> 't \<Rightarrow> 's \<Rightarrow> bytes \<Rightarrow> Script \<Rightarrow> (tokmap, unit) M" where
  "deal4 S t s executor sc =
     bindM (liftE (arg_str sc 0)) (\<lambda>arg0. bindM (liftE (arg_str sc 1)) (\<lambda>arg1. bindM (liftE (arg_int sc 2)) (\<lambda>arg2.
     thenM (checkOwner S t executor arg0)
    (bindM (readM (readVal S s (fKey arg0 arg1))) (\<lambda>f.
     putVal (fKey arg0 arg1) (if f < arg2 then 0 else f - arg2))))))"

text \<open>An unregistered name is a call of a nil function.\<close>

definition dealRegistry :: "('d, 't, 's, 'z) tsys_scheme \<Rightarrow> bytes \<Rightarrow> 't \<Rightarrow> 's \<Rightarrow> bytes \<Rightarrow> Script \<Rightarrow> (tokmap, unit) M" where
  "dealRegistry S name =
     (if name = str ''new'' then deal0 S else if name = str ''mint'' then deal1 S
      else if name = str ''transfer'' then deal2 S else if name = str ''freeze'' then deal3 S
      else if name = str ''unfreeze'' then deal4 S else (\<lambda>t s ex sc. raiseM (Panic ''nil pointer'')))"

fun exec_scripts :: "('d, 't, 's, 'z) tsys_scheme \<Rightarrow> 't \<Rightarrow> 's \<Rightarrow> bytes \<Rightarrow> Script option list \<Rightarrow> (tokmap, unit) M" where
  "exec_scripts S t s owner [] = retM ()"
| "exec_scripts S t s owner (None # scs) = raiseM (Err ''parser script error'')"
| "exec_scripts S t s owner (Some sc # scs) =
     thenM (dealRegistry S (s_name sc) t s owner sc) (exec_scripts S t s owner scs)"

text \<open>\<open>exec.New\<close>: the run of the scripts on an empty map.\<close>

definition exec_New :: "('d, 't, 's, 'z) tsys_scheme \<Rightarrow> 't \<Rightarrow> 's \<Rightarrow> Script option list \<Rightarrow> bytes \<Rightarrow> err + tokmap" where
  "exec_New S t s scs owner =
     (case exec_scripts S t s owner scs [] of (Inl e, mp) \<Rightarrow> Inl e | (Inr u, mp) \<Rightarrow> Inr mp)"

text \<open>Strings are sorted bytewise.\<close>

fun bytes_le :: "bytes \<Rightarrow> bytes \<Rightarrow> bool" where
  "bytes_le [] ys = True"
| "bytes_le (x # xs) [] = False"
| "bytes_le (x # xs) (y # ys) = (x < y \<or> x = y \<and> bytes_le xs ys)"

fun insert_key :: "bytes \<Rightarrow> bytes list \<Rightarrow> bytes list" where
  "insert_key x [] = [x]"
| "insert_key x (y # ys) = (if bytes_le x y then x # y # ys else y # insert_key x ys)"

definition exec_Root :: "('z) env_scheme \<Rightarrow> tokmap \<Rightarrow> err + bytes" where
  "exec_Root E mp =
     (let ss = foldr insert_key (map fst mp) []
      in GetMtHash (New (sha3_256 E) (concat (map (\<lambda>k. [k, the (map_of mp k)]) ss))))"

text \<open>
  \<open>Flush\<close>; the order of the list stands for the order in which the map is iterated. The first two
  bytes of a shorter key are read from the zeroed buffer behind it.
\<close>

fun exec_Flush :: "('d, 't, 's, 'z) sys_scheme \<Rightarrow> tokmap \<Rightarrow> ('t \<times> 's, unit) M" where
  "exec_Flush S [] = retM ()"
| "exec_Flush S ((k, v) # mp) =
     (if take 2 (k @ [0, 0]) \<in> set (map str [''b/'', ''F/'', ''t/'', ''c/''])
      then bindM (liftE (LE_Uint64 v)) (\<lambda>b.
           thenM (modM (map_prod id (SetBalance (SD S) (HexToAddress S (sHA1 S k)) (Uint64ToBigInt b))))
                 (exec_Flush S mp))
      else thenM (zoomM fst (\<lambda>t (_, s). (t, s)) (bg_set (KV S) k v)) (exec_Flush S mp))"

section \<open>The queries of the chain\<close>

definition GetTokenBalance :: "('d, 't, 's, 'z) tsys_scheme \<Rightarrow> ('d, 's) chain \<Rightarrow> addr \<Rightarrow> bytes \<Rightarrow> err + u64" where
  "GetTokenBalance S bc ad symb =
     bindE (NewCommonAddr S ad) (\<lambda>coAddr. Inr (TokenBalance S (sdb bc) symb (Common_String S coAddr)))"

definition GetFrozenTokenBal :: "('d, 't, 's, 'z) tsys_scheme \<Rightarrow> ('d, 's) chain \<Rightarrow> addr \<Rightarrow> bytes \<Rightarrow> err + u64" where
  "GetFrozenTokenBal S bc ad symb =
     bindE (NewCommonAddr S ad) (\<lambda>coAddr. Inr (TokenFreeze S (sdb bc) symb (Common_String S coAddr)))"

text \<open>The transaction of \<open>GetTokenRoot\<close> has written nothing when it is committed.\<close>

definition GetTokenRoot :: "('d, 't, 's, 'z) tsys_scheme \<Rightarrow> ('d, 's) chain \<Rightarrow> addr \<Rightarrow> bytes \<Rightarrow> err + bytes" where
  "GetTokenRoot S bc ad script =
     bindE (NewCommonAddr S ad) (\<lambda>coAddr.
     bindE (exec_New S (kv_new (KV S) (db bc)) (sdb bc) (Parser script) (Common_String S coAddr)) (\<lambda>mp.
     exec_Root S mp))"

definition GetTokenDemic :: "('d, 't, 's, 'z) sys_scheme \<Rightarrow> ('d, 's) chain \<Rightarrow> bytes \<Rightarrow> err + u64" where
  "GetTokenDemic S bc symb = Precision S (db bc) symb"

section \<open>Reading what was written\<close>

lemma LE_E64 [simp]: "LE_Uint64 (E64func v) = Inr v"
  by (simp add: LE_Uint64_def E64func_def le_get_le_put take_bit_word_eq_self)

lemma readVal_update [simp]:
  "readVal S s k (AList.update k' v mp) = (if k = k' then LE_Uint64 v else readVal S s k mp)"
  by (simp add: readVal_def update_conv')

lemma key_eq [simp]:
  "bKey a x = bKey b y \<longleftrightarrow> a @ x = b @ y" "fKey a x = fKey b y \<longleftrightarrow> a @ x = b @ y" "cKey a x = cKey b y \<longleftrightarrow> a @ x = b @ y"
  "tKey a x = tKey b y \<longleftrightarrow> a @ x = b @ y" "pKey a = pKey b \<longleftrightarrow> a = b"
  by (simp_all add: bKey_def fKey_def cKey_def tKey_def pKey_def)

lemma key_neq [simp]:
  "bKey a x \<noteq> fKey b y" "fKey b y \<noteq> bKey a x" "bKey a x \<noteq> cKey b y" "cKey b y \<noteq> bKey a x"
  "bKey a x \<noteq> tKey b y" "tKey b y \<noteq> bKey a x" "cKey a x \<noteq> fKey b y" "fKey b y \<noteq> cKey a x"
  "cKey a x \<noteq> tKey b y" "tKey b y \<noteq> cKey a x" "tKey a x \<noteq> fKey b y" "fKey b y \<noteq> tKey a x"
  "bKey a x \<noteq> pKey b" "fKey a x \<noteq> pKey b" "pKey b \<noteq> bKey a x" "pKey b \<noteq> fKey a x"
  by (simp_all add: bKey_def fKey_def cKey_def tKey_def pKey_def str_def)

lemma putVal_run [monad_simps]: "putVal k v mp = (Inr (), AList.update k (E64func v) mp)"
  by (simp add: putVal_def monad_simps)

text \<open>The scripts of the operations.\<close>

definition sc_new :: "bytes \<Rightarrow> u64 \<Rightarrow> u64 \<Rightarrow> Script" where
  "sc_new tid n p = \<lparr>s_name = str ''new'', s_args = [\<lparr>a_typ = TOKENID, a_value = VStr tid\<rparr>, \<lparr>a_typ = AMOUNT, a_value = VInt n\<rparr>, \<lparr>a_typ = AMOUNT, a_value = VInt p\<rparr>]\<rparr>"

definition sc_mint :: "bytes \<Rightarrow> u64 \<Rightarrow> Script" where
  "sc_mint tid n = \<lparr>s_name = str ''mint'', s_args = [\<lparr>a_typ = TOKENID, a_value = VStr tid\<rparr>, \<lparr>a_typ = AMOUNT, a_value = VInt n\<rparr>]\<rparr>"

definition sc_transfer :: "bytes \<Rightarrow> u64 \<Rightarrow> bytes \<Rightarrow> Script" where
  "sc_transfer tid n a = \<lparr>s_name = str ''transfer'', s_args = [\<lparr>a_typ = TOKENID, a_value = VStr tid\<rparr>, \<lparr>a_typ = AMOUNT, a_value = VInt n\<rparr>, \<lparr>a_typ = ADDRESS, a_value = VStr a\<rparr>]\<rparr>"

definition sc_freeze :: "string \<Rightarrow> bytes \<Rightarrow> bytes \<Rightarrow> u64 \<Rightarrow> Script" where
  "sc_freeze op tid a n = \<lparr>s_name = str op, s_args = [\<lparr>a_typ = TOKENID, a_value = VStr tid\<rparr>, \<lparr>a_typ = ADDRESS, a_value = VStr a\<rparr>, \<lparr>a_typ = AMOUNT, a_value = VInt n\<rparr>]\<rparr>"

lemma script_args [simp]:
  "arg_str (sc_new tid n p) 0 = Inr tid" "arg_int (sc_new tid n p) 1 = Inr n" "arg_int (sc_new tid n p) 2 = Inr p"
  "arg_str (sc_mint tid n) 0 = Inr tid" "arg_int (sc_mint tid n) 1 = Inr n"
  "arg_str (sc_transfer tid n a) 0 = Inr tid" "arg_int (sc_transfer tid n a) 1 = Inr n" "arg_str (sc_transfer tid n a) 2 = Inr a"
  "arg_str (sc_freeze op tid a n) 0 = Inr tid" "arg_str (sc_freeze op tid a n) 1 = Inr a" "arg_int (sc_freeze op tid a n) 2 = Inr n"
  by (simp_all add: sc_new_def sc_mint_def sc_transfer_def sc_freeze_def arg_str_def arg_int_def)

lemmas script_args' [simp] = script_args [unfolded One_nat_def]

section \<open>What the operations do\<close>

lemmas deal_simps = monad_simps

definition token_known :: "('d, 't, 's, 'z) sys_scheme \<Rightarrow> 't \<Rightarrow> bytes \<Rightarrow> tokmap \<Rightarrow> bool" where
  "token_known S t tid mp \<longleftrightarrow> map_of mp tid \<noteq> None \<or> (\<exists>v. bg_get (KV S) t tid = Inr v)"

lemma deal2_run:
  assumes "NewAddrFromString S a = Inr ad" "NewCommonAddr S ad = Inr ca"
    "readVal S s (fKey tid ex) mp = Inr free" "readVal S s (bKey tid ex) mp = Inr b" "readVal S s (bKey tid (Common_String S ca)) mp = Inr to"
  shows "deal2 S t s ex (sc_transfer tid n a) mp =
    (if \<not> token_known S t tid mp then (Inl (projl (bg_get (KV S) t tid)), mp)
     else if b < n + free then (Inl (Err ''insufficient balance''), mp)
     else (Inr (), if Common_String S ca = ex then mp
       else AList.update (bKey tid (Common_String S ca)) (E64func (to + n)) (AList.update (bKey tid ex) (E64func (b - n)) mp)))"
  using assms
  by (cases "map_of mp tid"; cases "bg_get (KV S) t tid")
     (simp_all add: deal2_def deal_simps token_known_def aKey_def Let_def bindE_def)

lemma deal1_run:
  assumes "bg_get (KV S) t tid = Inr ex" "readVal S s (tKey tid ex) mp = Inr tot" "readVal S s (cKey tid ex) mp = Inr c"
    "readVal S s (bKey tid ex) mp = Inr b"
  shows "deal1 S t s ex (sc_mint tid n) mp =
    (if sint (tot - n) < sint c then (Inl (Err ''overflow''), mp)
     else (Inr (), AList.update (bKey tid ex) (E64func (b + n)) (AList.update (cKey tid ex) (E64func (c + n)) mp)))"
  using assms by (simp add: deal1_def deal_simps checkOwner_def aKey_def)

lemma sint_word_of_int: "- 9223372036854775808 \<le> x \<Longrightarrow> x < 9223372036854775808 \<Longrightarrow> sint (word_of_int x :: u64) = x"
  by (simp add: signed_of_int signed_take_bit_int_eq_self)

lemma word_of_unat: "(a :: u64) = word_of_int (int (unat a))"
  by simp

lemma sint_small: "unat (a :: u64) < 9223372036854775808 \<Longrightarrow> sint a = int (unat a)"
  by (subst word_of_unat, rule sint_word_of_int) linarith+

lemma sint_minus_small: "unat (a :: u64) < 9223372036854775808 \<Longrightarrow> unat b < 9223372036854775808 \<Longrightarrow> sint (a - b) = int (unat a) - int (unat b)"
  by (subst word_of_unat [of a], subst word_of_unat [of b], subst wi_hom_sub, rule sint_word_of_int) linarith+


text \<open>
  A mint by the owner of a token is exact and bounded by the total: with a total and an amount
  minted so far below two to the 63, an amount below two to the 63 is accepted precisely when it does not take
  the minted amount above the total; the minted amount and the owner's balance then grow by it, and
  nothing else changes.
\<close>

theorem mint_within_total:
  assumes "bg_get (KV S) t tid = Inr ex" and "readVal S s (tKey tid ex) mp = Inr tot"
    and "readVal S s (cKey tid ex) mp = Inr c" and "readVal S s (bKey tid ex) mp = Inr b"
    and "unat tot < 2 ^ 63" and "unat c < 2 ^ 63" and "unat n < 2 ^ 63"
  shows "((\<exists>mp'. deal1 S t s ex (sc_mint tid n) mp = (Inr (), mp')) \<longleftrightarrow> unat c + unat n \<le> unat tot) \<and>
    (\<forall>mp'. deal1 S t s ex (sc_mint tid n) mp = (Inr (), mp') \<longrightarrow>
       readVal S s (bKey tid ex) mp' = Inr (b + n) \<and> readVal S s (cKey tid ex) mp' = Inr (c + n) \<and> unat (c + n) = unat c + unat n \<and>
       (\<forall>k. k \<noteq> bKey tid ex \<and> k \<noteq> cKey tid ex \<longrightarrow> readVal S s k mp' = readVal S s k mp))"
proof -
  have "sint (tot - n) = int (unat tot) - int (unat n)" "sint c = int (unat c)"
    using assms(5-7) by (intro sint_minus_small sint_small; simp)+
  then have "sint (tot - n) < sint c \<longleftrightarrow> unat tot < unat c + unat n" by linarith
  moreover have "unat (c + n) = unat c + unat n" using assms(6,7) by (intro unat_plus_u64) simp
  ultimately show ?thesis using deal1_run [OF assms(1-4), of n] by auto
qed

text \<open>
  The total does not bound a mint of more than two to the 63: the comparison of \<open>deal1\<close> is between
  signed integers, so an amount two to the 64 minus \<open>m\<close> counts as \<open>- m\<close> and passes for every total,
  the owner gets it, and the minted amount goes down by \<open>m\<close>.
\<close>

theorem mint_bypasses_total:
  assumes "bg_get (KV S) t tid = Inr ex" and "readVal S s (tKey tid ex) mp = Inr tot"
    and "readVal S s (cKey tid ex) mp = Inr c" and "readVal S s (bKey tid ex) mp = Inr b"
    and "unat tot + unat m < 2 ^ 63" and "c \<le> tot"
  shows "\<exists>mp'. deal1 S t s ex (sc_mint tid (- m)) mp = (Inr (), mp') \<and>
    readVal S s (bKey tid ex) mp' = Inr (b + (- m)) \<and> readVal S s (cKey tid ex) mp' = Inr (c - m)"
proof -
  have "tot - - m = tot + m" by simp
  moreover have "unat (tot + m) = unat tot + unat m" using assms(5) by (intro unat_plus_u64) simp
  ultimately have "sint (tot - - m) = int (unat tot + unat m)"
    using sint_small [of "tot + m"] assms(5) by simp
  moreover have "sint c = int (unat c)" using assms(5,6) by (intro sint_small) (simp add: word_le_nat_alt)
  moreover have "unat c \<le> unat tot" using assms(6) by (simp add: word_le_nat_alt)
  ultimately have "\<not> sint (tot - - m) < sint c" by linarith
  then show ?thesis using deal1_run [OF assms(1-4), of "- m"] by simp
qed



text \<open>
  A transfer can create tokens: the sum of the amount and the frozen tokens wraps around, so a
  sender with any frozen tokens \<open>f\<close> may send two to the 64 minus \<open>f\<close> whatever the balance; the sender's
  balance then grows by \<open>f\<close>.
\<close>

theorem token_transfer_wraps:
  assumes "NewAddrFromString S a = Inr ad" and "NewCommonAddr S ad = Inr ca" and "Common_String S ca \<noteq> ex"
    and "readVal S s (fKey tid ex) mp = Inr free" and "readVal S s (bKey tid ex) mp = Inr b"
    and "readVal S s (bKey tid (Common_String S ca)) mp = Inr to" and "token_known S t tid mp"
  shows "\<exists>mp'. deal2 S t s ex (sc_transfer tid (- free) a) mp = (Inr (), mp') \<and>
    readVal S s (bKey tid ex) mp' = Inr (b + free) \<and> readVal S s (bKey tid (Common_String S ca)) mp' = Inr (to + (- free))"
  using deal2_run [OF assms(1,2,4,5,6), of t "- free"] assms(3,7) by simp

text \<open>
  Token identifiers share the name space of the balances: a token may be created under the
  name of a balance key, by anyone, and the run then holds the first eight bytes of the executor's
  address as the balance of that account in that other token.
\<close>

theorem new_overwrites_balance:
  assumes "map_of mp (bKey tid a) = None" and "bg_get (KV S) t (bKey tid a) = Inl e" and "8 \<le> length ex"
  shows "\<exists>mp'. deal0 S t s ex (sc_new (bKey tid a) n p) mp = (Inr (), mp') \<and>
    readVal S s (bKey tid a) mp' = Inr (le_get (take 8 ex))"
proof -
  have "tid @ a \<noteq> bKey tid a @ ex"
  proof
    assume "tid @ a = bKey tid a @ ex"
    then have "length (tid @ a) = length (bKey tid a @ ex)" by (rule arg_cong)
    then show False by (simp add: bKey_def)
  qed
  then show ?thesis using assms by (auto simp: deal0_def deal_simps aKey_def putVal_def LE_Uint64_def)
qed

text \<open>
  The owner of a token can freeze the balances of other tokens: a key is the concatenation of
  the identifier and the address, so the owner of \<open>tid\<close> freezes any amount of the token \<open>tid @ x\<close> of any
  account.
\<close>

theorem freeze_crosses_tokens:
  assumes "bg_get (KV S) t tid = Inr ex"
    and "readVal S s (bKey (tid @ x) a) mp = Inr b" and "readVal S s (fKey (tid @ x) a) mp = Inr f" and "f \<le> b"
  shows "\<exists>mp'. deal3 S t s ex (sc_freeze ''freeze'' tid (x @ a) (b - f)) mp = (Inr (), mp') \<and>
    readVal S s (fKey (tid @ x) a) mp' = Inr b"
proof -
  have k: "bKey tid (x @ a) = bKey (tid @ x) a" "fKey tid (x @ a) = fKey (tid @ x) a" by simp_all
  show ?thesis using assms by (simp add: deal3_def deal_simps checkOwner_def aKey_def k)
qed

text \<open>An empty element makes the whole tree nil, and the root of a nil tree panics.\<close>

lemma nil_tree: "[] \<in> set xs \<Longrightarrow> mkMerkleTreeRoot H xs = None"
proof (induction H xs rule: mkMerkleTreeRoot.induct)
  case (1 H xs)
  show ?case
  proof (cases "length xs \<le> 1")
    case True
    then have "xs = [[]]" using 1(3) by (cases xs) auto
    then show ?thesis by (simp add: mkMerkleTreeRoot.simps mkLeaf_def)
  next
    case False
    let ?i = "powerOfTwo (length xs)"
    have "set xs = set (take ?i xs) \<union> set (drop ?i xs)" by (metis append_take_drop_id set_append)
    then consider "[] \<in> set (take ?i xs)" | "[] \<in> set (drop ?i xs)" using 1(3) by blast
    then show ?thesis
      using 1(1,2) [OF _ _ refl] False
      by cases (auto simp: mkMerkleTreeRoot.simps [of H xs] mkBranch_def Let_def split: option.split)
  qed
qed

lemma set_insert_key [simp]: "set (foldr insert_key ks []) = set ks"
proof -
  have "set (insert_key k xs) = insert k (set xs)" for k xs by (induction xs) auto
  then show ?thesis by (induction ks) auto
qed

lemma Root_panics: "([], v) \<in> set mp \<Longrightarrow> exec_Root E mp = Inl (Panic ''nil pointer'')"
proof -
  assume m: "([], v) \<in> set mp"
  let ?xs = "concat (map (\<lambda>k. [k, the (map_of mp k)]) (foldr insert_key (map fst mp) []))"
  have "[] \<in> set ?xs" using m by (force simp: image_iff)
  then have "?xs \<noteq> []" "mkMerkleTreeRoot (sha3_256 E) ?xs = None" using nil_tree by force+
  then show ?thesis by (simp only: exec_Root_def Let_def New_def GetMtHash_def if_False option.case)
qed

text \<open>
  A script that creates a token with an empty identifier crashes the query of the token root:
  the empty key is a nil leaf of the Merkle tree, the tree becomes nil, and reading its root is a nil
  dereference. The script is accepted from anyone while no such token is in the database.
\<close>

theorem token_root_panics:
  assumes "NewCommonAddr S ad = Inr ca" and "bg_get (KV S) (kv_new (KV S) (db bc)) [] = Inl e"
  shows "GetTokenRoot S bc ad (print_script (sc_new [] n p)) = Inl (Panic ''nil pointer'')"
proof -
  let ?ex = "Common_String S ca" and ?t = "kv_new (KV S) (db bc)"
  have "well_typed (sc_new [] n p)" "\<forall>a\<in>set (s_args (sc_new [] n p)). printable (a_value a)"
    by (simp_all add: well_typed_def sc_new_def signatures_def has_type_def printable_def)
  then have parse: "Parser (print_script (sc_new [] n p)) = [Some (sc_new [] n p)]" by (rule Parser_print)
  have "\<exists>mp. deal0 S ?t (sdb bc) ?ex (sc_new [] n p) [] = (Inr (), mp) \<and> map_of mp [] = Some ?ex"
    using assms(2) by (auto simp: deal0_def deal_simps aKey_def putVal_def update_conv' bKey_def tKey_def pKey_def fKey_def str_def)
  then obtain mp where mp: "exec_scripts S ?t (sdb bc) ?ex [Some (sc_new [] n p)] [] = (Inr (), mp)" "map_of mp [] = Some ?ex"
    by (auto simp: dealRegistry_def sc_new_def deal_simps)
  then show ?thesis
    using assms(1) parse Root_panics [OF map_of_SomeD [OF mp(2)]] by (simp add: GetTokenRoot_def bindE_def exec_New_def)
qed

section \<open>Frozen tokens stay covered\<close>

text \<open>The frozen amount of no key exceeds the balance of the same key.\<close>

definition covered :: "('d, 't, 's, 'z) sys_scheme \<Rightarrow> 's \<Rightarrow> tokmap \<Rightarrow> bool" where
  "covered S s mp \<longleftrightarrow> (\<forall>x f b. readVal S s (fKey x []) mp = Inr f \<longrightarrow> readVal S s (bKey x []) mp = Inr b \<longrightarrow> f \<le> b)"

lemma key_nil: "bKey x a = bKey (x @ a) []" "fKey x a = fKey (x @ a) []"
  by simp_all

lemma coveredD: "covered S s mp \<Longrightarrow> readVal S s (fKey x a) mp = Inr f \<Longrightarrow> readVal S s (bKey x a) mp = Inr b \<Longrightarrow> f \<le> b"
  unfolding covered_def key_nil [of x a] by blast

lemma covered_other: "covered S s mp \<Longrightarrow> (\<And>x. bKey x [] \<noteq> k) \<Longrightarrow> (\<And>x. fKey x [] \<noteq> k) \<Longrightarrow> covered S s (AList.update k v mp)"
  by (simp add: covered_def)

lemma covered_put_f:
  "covered S s mp \<Longrightarrow> (\<And>b. readVal S s (bKey x a) mp = Inr b \<Longrightarrow> f \<le> b) \<Longrightarrow> covered S s (AList.update (fKey x a) (E64func f) mp)"
  unfolding covered_def key_nil [of x a] by auto

lemma covered_put_b:
  "covered S s mp \<Longrightarrow> (\<And>f. readVal S s (fKey x a) mp = Inr f \<Longrightarrow> f \<le> b) \<Longrightarrow> covered S s (AList.update (bKey x a) (E64func b) mp)"
  unfolding covered_def key_nil [of x a] by auto

lemma well_typed_cases:
  assumes "well_typed sc"
  obtains (new) tid n p where "sc = sc_new tid n p" | (mint) tid n where "sc = sc_mint tid n"
    | (transfer) tid n a where "sc = sc_transfer tid n a" | (freeze) tid a n where "sc = sc_freeze ''freeze'' tid a n"
    | (unfreeze) tid a n where "sc = sc_freeze ''unfreeze'' tid a n"
proof -
  define tok where "tok v = \<lparr>a_typ = TOKENID, a_value = VStr v\<rparr>" for v
  define adr where "adr v = \<lparr>a_typ = ADDRESS, a_value = VStr v\<rparr>" for v
  define amt where "amt n = \<lparr>a_typ = AMOUNT, a_value = VInt n\<rparr>" for n
  have int: "a_typ a = AMOUNT \<Longrightarrow> has_type (a_typ a) (a_value a) \<Longrightarrow> \<exists>n. a = amt n" for a
    by (cases a) (auto simp: amt_def has_type_def AMOUNT_def ORDER_def ADDRESS_def TOKENID_def split: val.splits)
  have str: "a_typ a = TOKENID \<Longrightarrow> has_type (a_typ a) (a_value a) \<Longrightarrow> \<exists>v. a = tok v" for a
    by (cases a) (auto simp: tok_def has_type_def AMOUNT_def PERCENTAGE_def TOKENID_def split: val.splits)
  have adr: "a_typ a = ADDRESS \<Longrightarrow> has_type (a_typ a) (a_value a) \<Longrightarrow> \<exists>v. a = adr v" for a
    by (cases a) (auto simp: adr_def has_type_def AMOUNT_def PERCENTAGE_def ADDRESS_def split: val.splits)
  have ty: "\<forall>a\<in>set (s_args sc). has_type (a_typ a) (a_value a)" and sig: "(s_name sc, map a_typ (s_args sc)) \<in> set signatures"
    using assms by (simp_all add: well_typed_def)
  obtain f ts where f: "s_name sc = f \<and> map a_typ (s_args sc) = ts" "(f, ts) \<in> set signatures" using sig by blast
  consider "f = str ''new''" "ts = [TOKENID, AMOUNT, AMOUNT]"
    | "f = str ''mint''" "ts = [TOKENID, AMOUNT]"
    | "f = str ''transfer''" "ts = [TOKENID, AMOUNT, ADDRESS]"
    | "f \<in> {str ''freeze'', str ''unfreeze''}" "ts = [TOKENID, ADDRESS, AMOUNT]"
    using f(2) unfolding signatures_def by auto
  then show ?thesis
  proof cases
    case 1
    with f(1) obtain x y z where a: "s_args sc = [x, y, z]" "a_typ x = TOKENID" "a_typ y = AMOUNT" "a_typ z = AMOUNT" by auto
    obtain tid n p where "x = tok tid" "y = amt n" "z = amt p" using str [of x] int [of y] int [of z] ty a by auto
    then have "sc = sc_new tid n p" using 1 f(1) a by (cases sc) (simp add: sc_new_def tok_def amt_def)
    then show ?thesis by (rule new)
  next
    case 2
    with f(1) obtain x y where a: "s_args sc = [x, y]" "a_typ x = TOKENID" "a_typ y = AMOUNT" by auto
    obtain tid n where "x = tok tid" "y = amt n" using str [of x] int [of y] ty a by auto
    then have "sc = sc_mint tid n" using 2 f(1) a by (cases sc) (simp add: sc_mint_def tok_def amt_def)
    then show ?thesis by (rule mint)
  next
    case 3
    with f(1) obtain x y z where a: "s_args sc = [x, y, z]" "a_typ x = TOKENID" "a_typ y = AMOUNT" "a_typ z = ADDRESS" by auto
    obtain tid n d where "x = tok tid" "y = amt n" "z = adr d" using str [of x] int [of y] adr [of z] ty a by auto
    then have "sc = sc_transfer tid n d" using 3 f(1) a by (cases sc) (simp add: sc_transfer_def tok_def amt_def adr_def)
    then show ?thesis by (rule transfer)
  next
    case 4
    with f(1) obtain x y z where a: "s_args sc = [x, y, z]" "a_typ x = TOKENID" "a_typ y = ADDRESS" "a_typ z = AMOUNT" by auto
    obtain tid n d where "x = tok tid" "y = adr d" "z = amt n" using str [of x] int [of z] adr [of y] ty a by auto
    then have "sc = sc_freeze ''freeze'' tid d n \<or> sc = sc_freeze ''unfreeze'' tid d n"
      using 4 f(1) a by (cases sc) (auto simp: sc_freeze_def tok_def amt_def adr_def)
    then show ?thesis using freeze unfreeze by blast
  qed
qed

definition fits :: "('d, 't, 's, 'z) tsys_scheme \<Rightarrow> 's \<Rightarrow> bytes \<Rightarrow> Script \<Rightarrow> tokmap \<Rightarrow> bool" where
  "fits S s ex sc mp \<longleftrightarrow>
     (\<forall>tid n p. sc = sc_new tid n p \<longrightarrow> take 2 tid \<noteq> str ''b/'' \<and> take 2 tid \<noteq> str ''F/'') \<and>
     (\<forall>tid n b. sc = sc_mint tid n \<longrightarrow> readVal S s (bKey tid ex) mp = Inr b \<longrightarrow> unat b + unat n < 2 ^ 64) \<and>
     (\<forall>tid n a f. sc = sc_transfer tid n a \<longrightarrow> readVal S s (fKey tid ex) mp = Inr f \<longrightarrow> unat n + unat f < 2 ^ 64) \<and>
     (\<forall>tid n a ad ca b. sc = sc_transfer tid n a \<longrightarrow> NewAddrFromString S a = Inr ad \<longrightarrow> NewCommonAddr S ad = Inr ca \<longrightarrow>
        readVal S s (bKey tid (Common_String S ca)) mp = Inr b \<longrightarrow> unat b + unat n < 2 ^ 64)"

lemma sc_names [simp]:
  "s_name (sc_new tid n p) = str ''new''" "s_name (sc_mint tid n) = str ''mint''" "s_name (sc_transfer tid n a) = str ''transfer''"
  "s_name (sc_freeze op tid a n) = str op"
  by (simp_all add: sc_new_def sc_mint_def sc_transfer_def sc_freeze_def)

lemma registry_names [simp]:
  "dealRegistry S (str ''new'') = deal0 S" "dealRegistry S (str ''mint'') = deal1 S" "dealRegistry S (str ''transfer'') = deal2 S"
  "dealRegistry S (str ''freeze'') = deal3 S" "dealRegistry S (str ''unfreeze'') = deal4 S"
  by (simp_all add: dealRegistry_def str_def)

lemmas ok_rules = bindM_ok thenM_ok failIf_ok

lemma checkOwner_ok: "checkOwner S t ex tid mp = (Inr r, mp') \<Longrightarrow> mp' = mp"
  by (auto simp: checkOwner_def ok_rules liftE_run)

lemma deal0_covered:
  assumes "covered S s mp" "deal0 S t s ex (sc_new tid n p) mp = (Inr (), mp')" "take 2 tid \<noteq> str ''b/''" "take 2 tid \<noteq> str ''F/''"
  shows "covered S s mp'"
proof -
  have e: "mp' = AList.update (fKey tid ex) (replicate 8 0) (AList.update (pKey tid) (E64func p) (AList.update (tKey tid ex) (E64func n)
      (AList.update (bKey tid ex) (E64func 0) (AList.update tid ex mp))))"
    using assms(2) by (auto simp: deal0_def ok_rules readM_run liftE_run putVal_run modM_def)
  have "bKey x [] \<noteq> tid \<and> fKey x [] \<noteq> tid" for x using assms(3,4) by (auto simp: bKey_def fKey_def str_def)
  moreover have "LE_Uint64 (replicate 8 0) = Inr 0" by code_simp
  ultimately show ?thesis using assms(1) unfolding covered_def e
    by (simp add: eq_commute [of "bKey _ _" "tKey _ _"])
qed

lemma deal1_covered:
  assumes "covered S s mp" "deal1 S t s ex (sc_mint tid n) mp = (Inr (), mp')"
    "\<And>b. readVal S s (bKey tid ex) mp = Inr b \<Longrightarrow> unat b + unat n < 2 ^ 64"
  shows "covered S s mp'"
proof -
  obtain c b where e: "mp' = AList.update (bKey tid ex) (E64func (b + n)) (AList.update (cKey tid ex) (E64func (c + n)) mp)"
    "readVal S s (bKey tid ex) mp = Inr b"
    using assms(2) by (auto simp: deal1_def ok_rules readM_run liftE_run putVal_run dest!: checkOwner_ok)
  have le: "b \<le> b + n" using assms(3) [OF e(2)] by (simp add: word_le_nat_alt unat_plus_u64)
  have "covered S s (AList.update (cKey tid ex) (E64func (c + n)) mp)" by (rule covered_other [OF assms(1)]) simp_all
  then show ?thesis
    unfolding e(1) using coveredD [OF assms(1) _ e(2)] le by (intro covered_put_b) (auto intro: order_trans)
qed

lemma deal2_covered:
  assumes "covered S s mp" "deal2 S t s ex (sc_transfer tid n a) mp = (Inr (), mp')"
    "\<And>f. readVal S s (fKey tid ex) mp = Inr f \<Longrightarrow> unat n + unat f < 2 ^ 64"
    "\<And>ad ca b. NewAddrFromString S a = Inr ad \<Longrightarrow> NewCommonAddr S ad = Inr ca \<Longrightarrow>
       readVal S s (bKey tid (Common_String S ca)) mp = Inr b \<Longrightarrow> unat b + unat n < 2 ^ 64"
  shows "covered S s mp'"
proof -
  obtain ad ca f b to where r: "NewAddrFromString S a = Inr ad" "NewCommonAddr S ad = Inr ca"
    "readVal S s (fKey tid ex) mp = Inr f" "readVal S s (bKey tid ex) mp = Inr b" "readVal S s (bKey tid (Common_String S ca)) mp = Inr to"
    using assms(2) by (auto simp: deal2_def ok_rules readM_run liftE_run Let_def)
  let ?a = "Common_String S ca"
  have "\<not> b < n + f" and e: "mp' = (if ?a = ex then mp
       else AList.update (bKey tid ?a) (E64func (to + n)) (AList.update (bKey tid ex) (E64func (b - n)) mp))"
    using assms(2) deal2_run [OF r, of t n] by (auto split: if_splits)
  moreover have "unat (n + f) = unat n + unat f" using assms(3) [OF r(3)] by (intro unat_plus_u64) simp
  ultimately have f: "unat n + unat f \<le> unat b" by (simp add: not_less word_le_nat_alt)
  then have le: "n \<le> b" by (simp add: word_le_nat_alt)
  then have "f \<le> b - n" using f by (simp add: word_le_nat_alt unat_minus_u64)
  then have c: "covered S s (AList.update (bKey tid ex) (E64func (b - n)) mp)"
    using r(3) by (intro covered_put_b [OF assms(1)]) auto
  have "to \<le> to + n" using assms(4) [OF r(1,2,5)] by (simp add: word_le_nat_alt unat_plus_u64)
  then show ?thesis
    unfolding e using assms(1) c coveredD [OF assms(1) _ r(5)] by (auto intro!: covered_put_b intro: order_trans)
qed

lemma deal3_covered:
  assumes "covered S s mp" "deal3 S t s ex (sc_freeze op tid a n) mp = (Inr (), mp')"
  shows "covered S s mp'"
proof -
  obtain b f where "readVal S s (bKey tid a) mp = Inr b" "mp' = AList.update (fKey tid a) (E64func (if b < f + n then b else f + n)) mp"
    using assms(2) by (auto simp: deal3_def ok_rules readM_run liftE_run putVal_run dest!: checkOwner_ok)
  then show ?thesis using assms(1) by (auto intro!: covered_put_f)
qed

lemma deal4_covered:
  assumes "covered S s mp" "deal4 S t s ex (sc_freeze op tid a n) mp = (Inr (), mp')"
  shows "covered S s mp'"
proof -
  obtain f where f: "readVal S s (fKey tid a) mp = Inr f" "mp' = AList.update (fKey tid a) (E64func (if f < n then 0 else f - n)) mp"
    using assms(2) by (auto simp: deal4_def ok_rules readM_run liftE_run putVal_run dest!: checkOwner_ok)
  have "(if f < n then 0 else f - n) \<le> f" by (auto simp: not_less word_sub_le)
  then show ?thesis
    unfolding f(2) using coveredD [OF assms(1) f(1)] by (intro covered_put_f [OF assms(1)]) (metis order_trans)
qed

text \<open>
  C26. The frozen tokens of an account never exceed its balance: every script that the parser can
  produce keeps this for every token and account, if it creates no token under the name of a balance or
  quota key and its amount does not wrap a balance or the sum of \<open>deal2\<close> around.
\<close>

theorem frozen_tokens_stay_covered:
  assumes "covered S s mp" and "well_typed sc" and "fits S s ex sc mp"
    and "dealRegistry S (s_name sc) t s ex sc mp = (Inr (), mp')"
  shows "covered S s mp'"
  using assms(2)
proof (cases rule: well_typed_cases)
  case (new tid n p)
  then have "take 2 tid \<noteq> str ''b/'' \<and> take 2 tid \<noteq> str ''F/''" using assms(3) unfolding fits_def by blast
  then show ?thesis using new assms(1,4) deal0_covered by auto
next
  case (mint tid n)
  then have "\<And>b. readVal S s (bKey tid ex) mp = Inr b \<Longrightarrow> unat b + unat n < 2 ^ 64" using assms(3) unfolding fits_def by blast
  then show ?thesis using mint assms(4) by (intro deal1_covered [OF assms(1), of t ex tid n]) simp_all
next
  case (transfer tid n a)
  have "\<And>f. readVal S s (fKey tid ex) mp = Inr f \<Longrightarrow> unat n + unat f < 2 ^ 64"
    "\<And>ad ca b. NewAddrFromString S a = Inr ad \<Longrightarrow> NewCommonAddr S ad = Inr ca \<Longrightarrow>
       readVal S s (bKey tid (Common_String S ca)) mp = Inr b \<Longrightarrow> unat b + unat n < 2 ^ 64"
    using assms(3) transfer unfolding fits_def by blast+
  then show ?thesis using transfer assms(4) by (intro deal2_covered [OF assms(1), of t ex tid n a]) simp_all
next
  case (freeze tid a n)
  then show ?thesis using assms(1,4) deal3_covered by auto
next
  case (unfreeze tid a n)
  then show ?thesis using assms(1,4) deal4_covered by auto
qed

section \<open>A run on the example environment\<close>

definition demo_tok :: "(memdb, memtx, memstate) tsys" where
  "demo_tok = sys.extend demo_sys \<lparr>Common_String = (\<lambda>a. str ''0x'' @ hex_EncodeToString a)\<rparr>"

definition alice :: bytes where "alice = str ''0x'' @ hex_EncodeToString (replicate 20 1)"
definition bob :: bytes where "bob = str ''0x'' @ hex_EncodeToString (replicate 20 2)"

definition bob_addr :: bytes where "bob_addr = projr (Address_String demo_tok (0 # replicate 20 2))"

definition demo_mp :: tokmap where
  "demo_mp = [(str ''T'', alice), (bKey (str ''T'') alice, E64func 100), (fKey (str ''T'') alice, E64func 30), (bKey (str ''T'') bob, E64func 5)]"

definition demo_st :: memstate where "demo_st = ([], [])"

lemma demo_bob: "NewAddrFromString demo_tok bob_addr = Inr (0 # replicate 20 2) \<and>
   NewCommonAddr demo_tok (0 # replicate 20 2) = Inr (replicate 20 2) \<and> Common_String demo_tok (replicate 20 2) = bob \<and> bob \<noteq> alice"
  by code_simp

lemma demo_reads:
  "readVal demo_tok demo_st (fKey (str ''T'') alice) demo_mp = Inr 30 \<and> readVal demo_tok demo_st (bKey (str ''T'') alice) demo_mp = Inr 100 \<and>
   readVal demo_tok demo_st (bKey (str ''T'') bob) demo_mp = Inr 5 \<and> readVal demo_tok demo_st (fKey (str ''T'') bob) demo_mp = Inr 0 \<and>
   readVal demo_tok demo_st (tKey (str ''T'') alice) demo_mp = Inr 0 \<and> readVal demo_tok demo_st (cKey (str ''T'') alice) demo_mp = Inr 0"
  by code_simp

definition demo_tx0 :: memtx where "demo_tx0 = kv_new mem_kv [(str ''T'', alice)]"

lemma demo_owner: "bg_get (KV demo_tok) demo_tx0 (str ''T'') = Inr alice"
  by code_simp


theorem token_transfer_wraps_witness:
  "\<exists>mp'. deal2 demo_tok demo_tx0 demo_st alice (sc_transfer (str ''T'') (- 30) bob_addr) demo_mp = (Inr (), mp') \<and>
     readVal demo_tok demo_st (bKey (str ''T'') alice) mp' = Inr 130"
proof -
  have k: "token_known demo_tok demo_tx0 (str ''T'') demo_mp" by (simp add: token_known_def demo_mp_def)
  have ne: "Common_String demo_tok (replicate 20 2) \<noteq> alice"
    and to: "readVal demo_tok demo_st (bKey (str ''T'') (Common_String demo_tok (replicate 20 2))) demo_mp = Inr 5"
    using demo_bob demo_reads by simp_all
  show ?thesis
    using token_transfer_wraps [OF demo_bob [THEN conjunct1] demo_bob [THEN conjunct2, THEN conjunct1] ne
      demo_reads [THEN conjunct1] demo_reads [THEN conjunct2, THEN conjunct1] to k] by fastforce
qed

lemma demo_mint_reads:
  "readVal demo_tok demo_st (tKey (str ''T'') alice) (AList.update (tKey (str ''T'') alice) (E64func 1000) demo_mp) = Inr 1000 \<and>
   readVal demo_tok demo_st (cKey (str ''T'') alice) (AList.update (tKey (str ''T'') alice) (E64func 1000) demo_mp) = Inr 0 \<and>
   readVal demo_tok demo_st (bKey (str ''T'') alice) (AList.update (tKey (str ''T'') alice) (E64func 1000) demo_mp) = Inr 100"
  using demo_reads by simp

lemmas demo_mint = demo_owner demo_mint_reads [THEN conjunct1] demo_mint_reads [THEN conjunct2, THEN conjunct1]
  demo_mint_reads [THEN conjunct2, THEN conjunct2]

theorem mint_within_total_witness:
  "\<exists>mp'. deal1 demo_tok demo_tx0 demo_st alice (sc_mint (str ''T'') 1000)
      (AList.update (tKey (str ''T'') alice) (E64func 1000) demo_mp) = (Inr (), mp') \<and>
     readVal demo_tok demo_st (bKey (str ''T'') alice) mp' = Inr 1100"
proof -
  have "unat (1000 :: u64) < 2 ^ 63" "unat (0 :: u64) < 2 ^ 63" by simp_all
  from mint_within_total [OF demo_mint this this(1)] show ?thesis by fastforce
qed

theorem mint_bypasses_total_witness:
  "\<exists>mp'. deal1 demo_tok demo_tx0 demo_st alice (sc_mint (str ''T'') (- 1))
      (AList.update (tKey (str ''T'') alice) (E64func 1000) demo_mp) = (Inr (), mp') \<and>
     readVal demo_tok demo_st (cKey (str ''T'') alice) mp' = Inr (0 - 1)"
proof -
  have "unat (1000 :: u64) + unat (1 :: u64) < 2 ^ 63" "(0 :: u64) \<le> 1000" by simp_all
  from mint_bypasses_total [OF demo_mint this] show ?thesis by blast
qed

theorem new_overwrites_balance_witness:
  "\<exists>mp'. deal0 demo_tok demo_tx0 demo_st alice (sc_new (bKey (str ''T'') bob) 1 1) [] = (Inr (), mp') \<and>
     readVal demo_tok demo_st (bKey (str ''T'') bob) mp' = Inr 0x3130313031307830"
proof -
  have "bg_get (KV demo_tok) demo_tx0 (bKey (str ''T'') bob) = Inl NotExist" by code_simp
  moreover have "8 \<le> length alice" "le_get (take 8 alice) = (0x3130313031307830 :: u64)" by code_simp+
  ultimately show ?thesis using new_overwrites_balance [of "[]" "str ''T''" bob demo_tok demo_tx0] by fastforce
qed

theorem freeze_crosses_tokens_witness:
  "\<exists>mp'. deal3 demo_tok demo_tx0 demo_st alice (sc_freeze ''freeze'' (str ''T'') (str ''OKEN'' @ bob) 9)
      [(bKey (str ''TOKEN'') bob, E64func 9)] = (Inr (), mp') \<and> readVal demo_tok demo_st (fKey (str ''TOKEN'') bob) mp' = Inr 9"
proof -
  have "readVal demo_tok demo_st (bKey (str ''T'' @ str ''OKEN'') bob) [(bKey (str ''TOKEN'') bob, E64func 9)] = Inr 9"
    "readVal demo_tok demo_st (fKey (str ''T'' @ str ''OKEN'') bob) [(bKey (str ''TOKEN'') bob, E64func 9)] = Inr 0"
    "str ''T'' @ str ''OKEN'' = str ''TOKEN''"
    by code_simp+
  with freeze_crosses_tokens [OF demo_owner this(1,2)] show ?thesis by simp
qed

theorem token_root_panics_witness:
  "GetTokenRoot demo_tok demo_chain (0 # replicate 20 2) (print_script (sc_new [] 1 1)) = Inl (Panic ''nil pointer'')"
proof -
  have "bg_get (KV demo_tok) (kv_new (KV demo_tok) (db demo_chain)) [] = Inl NotExist" by code_simp
  from token_root_panics [OF demo_bob [THEN conjunct2, THEN conjunct1] this] show ?thesis .
qed

theorem frozen_tokens_stay_covered_witness:
  "\<exists>mp'. dealRegistry demo_tok (str ''new'') demo_tx0 demo_st alice (sc_new (str ''U'') 7 2) [] = (Inr (), mp') \<and> covered demo_tok demo_st mp'"
proof -
  have "covered demo_tok demo_st []" by (simp add: covered_def readVal_def sdbGet_def demo_tok_def demo_st_def mem_sdb_def sys.defs)
  moreover have "well_typed (sc_new (str ''U'') 7 2)" by code_simp
  moreover have "fits demo_tok demo_st alice (sc_new (str ''U'') 7 2) []"
  proof -
    have "take 2 (str ''U'') \<noteq> str ''b/'' \<and> take 2 (str ''U'') \<noteq> str ''F/''" "str ''new'' \<noteq> str ''mint''" "str ''new'' \<noteq> str ''transfer''"
      by code_simp+
    then show ?thesis by (auto simp: fits_def sc_new_def sc_mint_def sc_transfer_def)
  qed
  moreover have "fst (deal0 demo_tok demo_tx0 demo_st alice (sc_new (str ''U'') 7 2) []) = Inr ()" by code_simp
  ultimately show ?thesis
    using frozen_tokens_stay_covered [of demo_tok demo_st "[]" "sc_new (str ''U'') 7 2" alice demo_tx0]
    by (metis prod.collapse registry_names(1) sc_names(1))
qed

end
