(* ===== verification/Collections.thy ===== *)
theory Collections
  imports Store
begin

text \<open>
  The lists and the sorted sets of \<open>pkg/storage/store/bg/bg.go\<close>. A list is a range of numbered cells and
  an entry with the two ends of the range, a sorted set an entry with the score of each member and a second
  one whose key holds score and member in this order. A 64-bit word stands for an \<open>int64\<close>, a 32-bit word
  for an \<open>int32\<close>; comparisons read them with \<open>sint\<close>.
\<close>

section \<open>Keys\<close>

definition eListMetaKey :: "bytes \<Rightarrow> bytes" where "eListMetaKey k = str ''l'' @ k"

definition eListMetaValue :: "u64 \<Rightarrow> u64 \<Rightarrow> bytes" where
  "eListMetaValue start fin = E64func start @ E64func fin"

definition dListMetaValue :: "bytes \<Rightarrow> err + u64 \<times> u64" where
  "dListMetaValue buf =
     (if length buf < 16 then Inl (Panic ''slice bounds out of range'')
      else Inr (le_get (take 8 buf), le_get (take 8 (drop 8 buf))))"

definition eListKey :: "bytes \<Rightarrow> u64 \<Rightarrow> bytes" where "eListKey k idx = str ''l'' @ k @ E64func idx"

definition listStartEnd :: "('d, 't, 'z) kv_scheme \<Rightarrow> 't \<Rightarrow> bytes \<Rightarrow> err + u64 \<times> u64" where
  "listStartEnd K t k = bindE (bg_get K t (eListMetaKey k)) dListMetaValue"

section \<open>Lists\<close>

definition bg_lnew :: "('d, 't, 'z) kv_scheme \<Rightarrow> bytes \<Rightarrow> ('t, unit) M" where
  "bg_lnew K k = bg_set K (eListMetaKey k) (eListMetaValue 0 0)"

definition bg_llen :: "('d, 't, 'z) kv_scheme \<Rightarrow> 't \<Rightarrow> bytes \<Rightarrow> err + u64" where
  "bg_llen K t k =
     (case listStartEnd K t k of
        Inl e \<Rightarrow> if is_panic e then Inl e else Inr 0
      | Inr (start, fin) \<Rightarrow> Inr (fin - start))"

fun bg_ldel :: "('d, 't, 'z) kv_scheme \<Rightarrow> bytes \<Rightarrow> nat \<Rightarrow> u64 \<Rightarrow> ('t, unit) M" where
  "bg_ldel K k 0 start = retM ()"
| "bg_ldel K k (Suc n) start = thenM (bg_del K (eListKey k start)) (bg_ldel K k n (start + 1))"

definition bg_llclear :: "('d, 't, 'z) kv_scheme \<Rightarrow> bytes \<Rightarrow> ('t, unit) M" where
  "bg_llclear K k =
     bindM (readM (\<lambda>t. listStartEnd K t k)) (\<lambda>(start, fin).
     thenM (bg_ldel K k (nat (sint fin - sint start)) start) (bg_del K (eListMetaKey k)))"

text \<open>The pushes make a new list after any error of the lookup.\<close>

definition listBounds :: "('d, 't, 'z) kv_scheme \<Rightarrow> bytes \<Rightarrow> ('t, u64 \<times> u64) M" where
  "listBounds K k = (\<lambda>t.
     case listStartEnd K t k of
       Inr p \<Rightarrow> (Inr p, t)
     | Inl e \<Rightarrow> if is_panic e then (Inl e, t) else thenM (bg_lnew K k) (retM (0, 0)) t)"

definition bg_llpush :: "('d, 't, 'z) kv_scheme \<Rightarrow> bytes \<Rightarrow> bytes \<Rightarrow> ('t, u64) M" where
  "bg_llpush K k v =
     bindM (listBounds K k) (\<lambda>(start, fin).
     thenM (failIf (start - 1 = fin) OutOfSize)
    (thenM (bg_set K (eListKey k (start - 1)) v)
    (thenM (bg_set K (eListMetaKey k) (eListMetaValue (start - 1) fin))
    (retM (fin - start + 1)))))"

definition bg_llpop :: "('d, 't, 'z) kv_scheme \<Rightarrow> bytes \<Rightarrow> ('t, bytes) M" where
  "bg_llpop K k =
     bindM (readM (\<lambda>t. listStartEnd K t k)) (\<lambda>(start, fin).
     thenM (failIf (start = fin) OutOfSize)
    (bindM (readM (\<lambda>t. bg_get K t (eListKey k start))) (\<lambda>v.
     thenM (bg_set K (eListMetaKey k) (eListMetaValue (start + 1) fin))
    (retM v))))"

definition bg_lrpush :: "('d, 't, 'z) kv_scheme \<Rightarrow> bytes \<Rightarrow> bytes \<Rightarrow> ('t, u64) M" where
  "bg_lrpush K k v =
     bindM (listBounds K k) (\<lambda>(start, fin).
     thenM (failIf (start = fin + 1) OutOfSize)
    (thenM (bg_set K (eListKey k fin) v)
    (thenM (bg_set K (eListMetaKey k) (eListMetaValue start (fin + 1)))
    (retM (fin - start + 1)))))"

definition bg_lrpop :: "('d, 't, 'z) kv_scheme \<Rightarrow> bytes \<Rightarrow> ('t, bytes) M" where
  "bg_lrpop K k =
     bindM (readM (\<lambda>t. listStartEnd K t k)) (\<lambda>(start, fin).
     thenM (failIf (start = fin) OutOfSize)
    (bindM (readM (\<lambda>t. bg_get K t (eListKey k (fin - 1)))) (\<lambda>v.
     thenM (bg_set K (eListMetaKey k) (eListMetaValue start (fin - 1)))
    (retM v))))"

text \<open>An index below zero counts from the end.\<close>

definition absIndex :: "u64 \<Rightarrow> u64 \<Rightarrow> u64 \<Rightarrow> u64" where
  "absIndex start fin idx = (if 0 \<le> sint idx then idx + start else idx + fin)"

definition outside :: "u64 \<Rightarrow> u64 \<Rightarrow> u64 \<Rightarrow> bool" where
  "outside start fin idx \<longleftrightarrow> sint idx < sint start \<or> sint fin \<le> sint idx"

text \<open>\<open>lset\<close> adds the start of the range twice.\<close>

definition bg_lset :: "('d, 't, 'z) kv_scheme \<Rightarrow> bytes \<Rightarrow> u64 \<Rightarrow> bytes \<Rightarrow> ('t, unit) M" where
  "bg_lset K k idx v =
     bindM (readM (\<lambda>t. listStartEnd K t k)) (\<lambda>(start, fin).
     let idx = absIndex start fin idx in
     thenM (failIf (outside start fin idx) OutOfSize) (bg_set K (eListKey k (idx + start)) v))"

definition bg_lindex :: "('d, 't, 'z) kv_scheme \<Rightarrow> 't \<Rightarrow> bytes \<Rightarrow> u64 \<Rightarrow> err + bytes" where
  "bg_lindex K t k idx =
     bindE (listStartEnd K t k) (\<lambda>(start, fin).
     let idx = absIndex start fin idx in
     if outside start fin idx then Inr [] else bg_get K t (eListKey k idx))"

definition bg_lrange :: "('d, 't, 'z) kv_scheme \<Rightarrow> 't \<Rightarrow> bytes \<Rightarrow> u64 \<Rightarrow> u64 \<Rightarrow> err + bytes list" where
  "bg_lrange K t k start fin =
     bindE (listStartEnd K t k) (\<lambda>(x, y).
     let fin = (if sint fin < 0 then fin + y else fin + x);
         start = (if sint start < 0 then start + y else start + x);
         start = (if sint start < sint x then x else start);
         fin = (if sint y \<le> sint fin then y else fin)
     in Inr (concat (map (\<lambda>i. case bg_get K t (eListKey k (start + word_of_nat i)) of Inl _ \<Rightarrow> [] | Inr v \<Rightarrow> [v])
               [0..<nat (sint fin - sint start + 1)])))"

section \<open>Sorted sets\<close>

definition eZetKey :: "bytes \<Rightarrow> bytes \<Rightarrow> bytes" where
  "eZetKey k v = str ''z'' @ E32func (word_of_nat (length k)) @ k @ str ''+'' @ v"

definition zetPrefix :: "bytes \<Rightarrow> bytes" where
  "zetPrefix k = str ''sz'' @ E32func (word_of_nat (length k)) @ k @ str ''+''"

definition eZetScore :: "bytes \<Rightarrow> bytes \<Rightarrow> u32 \<Rightarrow> bytes" where
  "eZetScore k v score = zetPrefix k @ EB32func score @ v"

definition dZetScore :: "bytes \<Rightarrow> err + u32 \<times> bytes" where
  "dZetScore buf =
     (let buf1 = drop 2 buf; n = (le_get (take 4 buf1) :: u32)
      in if length buf < 6 \<or> length buf1 < unat (9 + n) \<or> 9 + n < 5 + n then Inl (Panic ''slice bounds out of range'')
         else Inr (le_get (rev (take 4 (drop (unat (5 + n)) buf1))), drop (unat (9 + n)) buf1))"

definition bg_zadd :: "('d, 't, 'z) kv_scheme \<Rightarrow> bytes \<Rightarrow> u32 \<Rightarrow> bytes \<Rightarrow> ('t, unit) M" where
  "bg_zadd K k score v = thenM (bg_set K (eZetKey k v) (E32func score)) (bg_set K (eZetScore k v score) [])"

text \<open>The error of decoding a score is dropped, its value then is zero.\<close>

definition scoreOf :: "bytes \<Rightarrow> u32" where
  "scoreOf buf = (case D32func buf of Inl _ \<Rightarrow> 0 | Inr s \<Rightarrow> s)"

definition bg_zscore :: "('d, 't, 'z) kv_scheme \<Rightarrow> 't \<Rightarrow> bytes \<Rightarrow> bytes \<Rightarrow> err + u32" where
  "bg_zscore K t k v = bindE (bg_get K t (eZetKey k v)) (\<lambda>buf. Inr (scoreOf buf))"

definition bg_zdel :: "('d, 't, 'z) kv_scheme \<Rightarrow> bytes \<Rightarrow> bytes \<Rightarrow> ('t, unit) M" where
  "bg_zdel K k v =
     bindM (readM (\<lambda>t. bg_get K t (eZetKey k v))) (\<lambda>buf.
     thenM (bg_del K (eZetKey k v)) (bg_del K (eZetScore k v (scoreOf buf))))"

fun bg_zdel_all :: "('d, 't, 'z) kv_scheme \<Rightarrow> bytes \<Rightarrow> bytes list \<Rightarrow> ('t, unit) M" where
  "bg_zdel_all K k [] = retM ()"
| "bg_zdel_all K k (key # keys) =
     bindM (liftE (dZetScore key)) (\<lambda>(score, v).
     thenM (bg_del K (eZetKey k v)) (thenM (bg_del K (eZetScore k v score)) (bg_zdel_all K k keys)))"

definition bg_zclear :: "('d, 't, 'z) kv_scheme \<Rightarrow> bytes \<Rightarrow> ('t, unit) M" where
  "bg_zclear K k = (\<lambda>t. bg_zdel_all K k (map fst (kv_scan K t (zetPrefix k))) t)"

text \<open>The iterator visits the keys in the order of their bytes; \<open>Seek\<close> skips the ones below the given key.\<close>

fun bytes_less :: "bytes \<Rightarrow> bytes \<Rightarrow> bool" where
  "bytes_less xs [] = False"
| "bytes_less [] (y # ys) = True"
| "bytes_less (x # xs) (y # ys) = (x < y \<or> x = y \<and> bytes_less xs ys)"

fun zrange_from :: "u32 \<Rightarrow> bytes list \<Rightarrow> err + bytes list" where
  "zrange_from fin [] = Inr []"
| "zrange_from fin (key # keys) =
     bindE (dZetScore key) (\<lambda>(score, v).
     if sint fin < sint score then Inr [] else bindE (zrange_from fin keys) (\<lambda>vs. Inr (v # vs)))"

definition bg_zrange :: "('d, 't, 'z) kv_scheme \<Rightarrow> 't \<Rightarrow> bytes \<Rightarrow> u32 \<Rightarrow> u32 \<Rightarrow> err + bytes list" where
  "bg_zrange K t k start fin =
     zrange_from fin (dropWhile (\<lambda>key. bytes_less key (eZetScore k [] start)) (map fst (kv_scan K t (zetPrefix k))))"

section \<open>The methods of the store\<close>

definition bgStore_Llen :: "('d, 't, 'z) kv_scheme \<Rightarrow> 'd \<Rightarrow> bytes \<Rightarrow> err + u64" where
  "bgStore_Llen K d k = bg_llen K (kv_new K d) k"
definition bgStore_Lclear :: "('d, 't, 'z) kv_scheme \<Rightarrow> bytes \<Rightarrow> ('d, unit) M" where
  "bgStore_Lclear K k = bgs_update K (bg_llclear K k)"
definition bgStore_Llpush :: "('d, 't, 'z) kv_scheme \<Rightarrow> bytes \<Rightarrow> bytes \<Rightarrow> ('d, u64) M" where
  "bgStore_Llpush K k v = bgs_update K (bg_llpush K k v)"
definition bgStore_Llpop :: "('d, 't, 'z) kv_scheme \<Rightarrow> bytes \<Rightarrow> ('d, bytes) M" where
  "bgStore_Llpop K k = bgs_update K (bg_llpop K k)"
definition bgStore_Lrpush :: "('d, 't, 'z) kv_scheme \<Rightarrow> bytes \<Rightarrow> bytes \<Rightarrow> ('d, u64) M" where
  "bgStore_Lrpush K k v = bgs_update K (bg_lrpush K k v)"
definition bgStore_Lrpop :: "('d, 't, 'z) kv_scheme \<Rightarrow> bytes \<Rightarrow> ('d, bytes) M" where
  "bgStore_Lrpop K k = bgs_update K (bg_lrpop K k)"
definition bgStore_Lrange :: "('d, 't, 'z) kv_scheme \<Rightarrow> 'd \<Rightarrow> bytes \<Rightarrow> u64 \<Rightarrow> u64 \<Rightarrow> err + bytes list" where
  "bgStore_Lrange K d k start fin = bg_lrange K (kv_new K d) k start fin"
definition bgStore_Lset :: "('d, 't, 'z) kv_scheme \<Rightarrow> bytes \<Rightarrow> u64 \<Rightarrow> bytes \<Rightarrow> ('d, unit) M" where
  "bgStore_Lset K k idx v = bgs_update K (bg_lset K k idx v)"
definition bgStore_Lindex :: "('d, 't, 'z) kv_scheme \<Rightarrow> 'd \<Rightarrow> bytes \<Rightarrow> u64 \<Rightarrow> err + bytes" where
  "bgStore_Lindex K d k idx = bg_lindex K (kv_new K d) k idx"
definition bgStore_Zclear :: "('d, 't, 'z) kv_scheme \<Rightarrow> bytes \<Rightarrow> ('d, unit) M" where
  "bgStore_Zclear K k = bgs_update K (bg_zclear K k)"
definition bgStore_Zdel :: "('d, 't, 'z) kv_scheme \<Rightarrow> bytes \<Rightarrow> bytes \<Rightarrow> ('d, unit) M" where
  "bgStore_Zdel K k v = bgs_update K (bg_zdel K k v)"
definition bgStore_Zadd :: "('d, 't, 'z) kv_scheme \<Rightarrow> bytes \<Rightarrow> u32 \<Rightarrow> bytes \<Rightarrow> ('d, unit) M" where
  "bgStore_Zadd K k score v = bgs_update K (bg_zadd K k score v)"
definition bgStore_Zscore :: "('d, 't, 'z) kv_scheme \<Rightarrow> 'd \<Rightarrow> bytes \<Rightarrow> bytes \<Rightarrow> err + u32" where
  "bgStore_Zscore K d k v = bg_zscore K (kv_new K d) k v"
definition bgStore_Zrange :: "('d, 't, 'z) kv_scheme \<Rightarrow> 'd \<Rightarrow> bytes \<Rightarrow> u32 \<Rightarrow> u32 \<Rightarrow> err + bytes list" where
  "bgStore_Zrange K d k start fin = bg_zrange K (kv_new K d) k start fin"

section \<open>Lists are double-ended queues\<close>

text \<open>The list of name \<open>k\<close> holds \<open>xs\<close> in the cells from \<open>s\<close> on.\<close>

definition list_at :: "('d, 't, 'z) kv_scheme \<Rightarrow> bytes \<Rightarrow> u64 \<Rightarrow> 't \<Rightarrow> bytes list \<Rightarrow> bool" where
  "list_at K k s t xs \<longleftrightarrow>
     bg_get K t (eListMetaKey k) = Inr (eListMetaValue s (s + word_of_nat (length xs))) \<and> length xs < 2 ^ 64 \<and>
     (\<forall>i < length xs. bg_get K t (eListKey k (s + word_of_nat i)) = Inr (xs ! i))"

lemma dListMetaValue_eListMetaValue [simp]: "dListMetaValue (eListMetaValue a b) = Inr (a, b)"
  by (simp add: dListMetaValue_def eListMetaValue_def E64func_def le_get_le_put take_bit_word_eq_self)

lemma eListKey_inj [simp]: "eListKey k i = eListKey k j \<longleftrightarrow> i = j"
  by (simp add: eListKey_def)

lemma eListKey_meta [simp]: "eListKey k i \<noteq> eListMetaKey k" "eListMetaKey k \<noteq> eListKey k i"
  by (auto simp: eListKey_def eListMetaKey_def dest: arg_cong [where f = length])

lemma word_of_nat_less_inj: "i < 2 ^ 64 \<Longrightarrow> j < 2 ^ 64 \<Longrightarrow> (word_of_nat i :: u64) = word_of_nat j \<longleftrightarrow> i = j"
  by (simp add: word_of_nat_eq_iff take_bit_eq_mod)

lemma list_at_bounds: "list_at K k s t xs \<Longrightarrow> listStartEnd K t k = Inr (s, s + word_of_nat (length xs))"
  by (simp add: list_at_def listStartEnd_def monad_simps)

lemma list_at_empty: "list_at K k s t xs \<Longrightarrow> s = s + word_of_nat (length xs) \<longleftrightarrow> xs = []"
  using word_of_nat_less_inj [of "length xs" 0] by (auto simp: list_at_def)

lemma llen_list: "list_at K k s t xs \<Longrightarrow> bg_llen K t k = Inr (word_of_nat (length xs))"
  by (simp add: bg_llen_def list_at_bounds)

context badger
begin

lemma lrpush_list:
  assumes "list_at K k s t xs" and "bg_lrpush K k v t = (Inr n, t')"
  shows "list_at K k s t' (xs @ [v]) \<and> n = word_of_nat (length xs + 1)"
proof -
  let ?f = "s + word_of_nat (length xs) :: u64"
  obtain t1 u1 u2 where ne: "s \<noteq> ?f + 1" and t1: "bg_set K (eListKey k ?f) v t = (Inr u1, t1)"
    and t': "bg_set K (eListMetaKey k) (eListMetaValue s (?f + 1)) t1 = (Inr u2, t')" and n: "n = word_of_nat (length xs) + 1"
    using assms(2) by (auto simp: bg_lrpush_def listBounds_def list_at_bounds [OF assms(1)] monad_ok bindM_run)
  have len: "length xs < 2 ^ 64" using assms(1) by (simp add: list_at_def)
  have "length xs \<noteq> 2 ^ 64 - 1"
  proof
    assume "length xs = 2 ^ 64 - 1"
    then have "(word_of_nat (length xs) :: u64) = - 1" by simp
    then show False using ne by simp
  qed
  moreover have "bg_get K t' = (bg_get K t)(eListKey k ?f := Inr v, eListMetaKey k := Inr (eListMetaValue s (?f + 1)))"
    using plain.Set_ok [OF t1] plain.Set_ok [OF t'] by simp
  moreover have "word_of_nat i \<noteq> (word_of_nat (length xs) :: u64)" if "i < length xs" for i
    using that len word_of_nat_less_inj [of i "length xs"] by simp
  ultimately show ?thesis
    using assms(1) n len by (auto simp: list_at_def nth_append less_Suc_eq algebra_simps)
qed

lemma llpush_list:
  assumes "list_at K k s t xs" and "bg_llpush K k v t = (Inr n, t')"
  shows "list_at K k (s - 1) t' (v # xs) \<and> n = word_of_nat (length xs + 1)"
proof -
  let ?f = "s + word_of_nat (length xs) :: u64"
  obtain t1 u1 u2 where ne: "s - 1 \<noteq> ?f" and t1: "bg_set K (eListKey k (s - 1)) v t = (Inr u1, t1)"
    and t': "bg_set K (eListMetaKey k) (eListMetaValue (s - 1) ?f) t1 = (Inr u2, t')" and n: "n = word_of_nat (length xs) + 1"
    using assms(2) by (auto simp: bg_llpush_def listBounds_def list_at_bounds [OF assms(1)] monad_ok bindM_run)
  have len: "length xs < 2 ^ 64" using assms(1) by (simp add: list_at_def)
  have "length xs \<noteq> 2 ^ 64 - 1"
  proof
    assume "length xs = 2 ^ 64 - 1"
    then have "(word_of_nat (length xs) :: u64) = - 1" by simp
    then show False using ne by simp
  qed
  moreover have "bg_get K t' = (bg_get K t)(eListKey k (s - 1) := Inr v, eListMetaKey k := Inr (eListMetaValue (s - 1) ?f))"
    using plain.Set_ok [OF t1] plain.Set_ok [OF t'] by simp
  moreover have "s + word_of_nat i \<noteq> s - 1" if "i < length xs" for i
  proof
    assume "s + word_of_nat i = s - 1"
    then have "(word_of_nat (Suc i) :: u64) = word_of_nat 0" by (simp add: algebra_simps)
    then show False using that len calculation(1) word_of_nat_less_inj [of "Suc i" 0] by simp
  qed
  ultimately show ?thesis
    using assms(1) n len by (auto simp: list_at_def nth_Cons' less_Suc_eq_0_disj algebra_simps)
qed

lemma lrpop_list:
  assumes "list_at K k s t xs" and "bg_lrpop K k t = (Inr v, t')"
  shows "xs \<noteq> [] \<and> v = last xs \<and> list_at K k s t' (butlast xs)"
proof -
  let ?f = "s + word_of_nat (length xs) :: u64"
  obtain u where ne: "s \<noteq> ?f" and v: "bg_get K t (eListKey k (?f - 1)) = Inr v"
    and t': "bg_set K (eListMetaKey k) (eListMetaValue s (?f - 1)) t = (Inr u, t')"
    using assms(2) by (auto simp: bg_lrpop_def list_at_bounds [OF assms(1)] monad_ok)
  have xs: "xs \<noteq> []" using ne list_at_empty [OF assms(1)] by blast
  then have f: "?f - 1 = s + word_of_nat (length xs - 1)" by (cases xs) simp_all
  have "v = xs ! (length xs - 1)"
    using v assms(1) xs unfolding f by (simp add: list_at_def)
  moreover have "list_at K k s t' (butlast xs)"
    using assms(1) plain.Set_ok [OF t'] by (simp add: list_at_def nth_butlast f less_imp_diff_less)
  ultimately show ?thesis using xs by (simp add: last_conv_nth)
qed

lemma llpop_list:
  assumes "list_at K k s t xs" and "bg_llpop K k t = (Inr v, t')"
  shows "xs \<noteq> [] \<and> v = hd xs \<and> list_at K k (s + 1) t' (tl xs)"
proof -
  let ?f = "s + word_of_nat (length xs) :: u64"
  obtain u where ne: "s \<noteq> ?f" and v: "bg_get K t (eListKey k s) = Inr v"
    and t': "bg_set K (eListMetaKey k) (eListMetaValue (s + 1) ?f) t = (Inr u, t')"
    using assms(2) by (auto simp: bg_llpop_def list_at_bounds [OF assms(1)] monad_ok)
  obtain x ys where xs: "xs = x # ys" using ne list_at_empty [OF assms(1)] by (cases xs) auto
  have cells: "bg_get K t (eListKey k (s + word_of_nat i)) = Inr (xs ! i)" if "i < length xs" for i
    using assms(1) that by (simp add: list_at_def)
  have "v = x" using v cells [of 0] xs by simp
  moreover have "bg_get K t (eListKey k (s + 1 + word_of_nat i)) = Inr (ys ! i)" if "i < length ys" for i
    using cells [of "Suc i"] that xs by (simp add: algebra_simps)
  ultimately show ?thesis
    using xs assms(1) plain.Set_ok [OF t'] by (simp add: list_at_def algebra_simps)
qed

end

text \<open>The interface of a double-ended queue, and what pushes and pops in a row do.\<close>

fun push_all :: "('v \<Rightarrow> ('t, 'n) M) \<Rightarrow> 'v list \<Rightarrow> ('t, unit) M" where
  "push_all push [] = retM ()"
| "push_all push (v # vs) = bindM (push v) (\<lambda>_. push_all push vs)"

fun pop_n :: "('t, 'v) M \<Rightarrow> nat \<Rightarrow> ('t, 'v list) M" where
  "pop_n pop 0 = retM []"
| "pop_n pop (Suc n) = bindM pop (\<lambda>v. bindM (pop_n pop n) (\<lambda>vs. retM (v # vs)))"

locale deque =
  fixes holds :: "'t \<Rightarrow> 'v list \<Rightarrow> bool"
    and pushl pushr :: "'v \<Rightarrow> ('t, 'n) M"
    and popl popr :: "('t, 'v) M"
  assumes pushl_ok: "holds t xs \<Longrightarrow> pushl v t = (Inr n, t') \<Longrightarrow> holds t' (v # xs)"
    and pushr_ok: "holds t xs \<Longrightarrow> pushr v t = (Inr n, t') \<Longrightarrow> holds t' (xs @ [v])"
    and popl_ok: "holds t xs \<Longrightarrow> popl t = (Inr v, t') \<Longrightarrow> xs \<noteq> [] \<and> v = hd xs \<and> holds t' (tl xs)"
    and popr_ok: "holds t xs \<Longrightarrow> popr t = (Inr v, t') \<Longrightarrow> xs \<noteq> [] \<and> v = last xs \<and> holds t' (butlast xs)"
begin

lemma push_all_right: "holds t xs \<Longrightarrow> push_all pushr vs t = (Inr u, t') \<Longrightarrow> holds t' (xs @ vs)"
proof (induction vs arbitrary: t xs)
  case (Cons v vs)
  then obtain n t1 where "pushr v t = (Inr n, t1)" "push_all pushr vs t1 = (Inr u, t')" by (auto simp: monad_ok)
  then show ?case using Cons.IH [OF pushr_ok [OF Cons.prems(1)]] by fastforce
qed (simp add: monad_ok)

lemma push_all_left: "holds t xs \<Longrightarrow> push_all pushl vs t = (Inr u, t') \<Longrightarrow> holds t' (rev vs @ xs)"
proof (induction vs arbitrary: t xs)
  case (Cons v vs)
  then obtain n t1 where "pushl v t = (Inr n, t1)" "push_all pushl vs t1 = (Inr u, t')" by (auto simp: monad_ok)
  then show ?case using Cons.IH [OF pushl_ok [OF Cons.prems(1)]] by fastforce
qed (simp add: monad_ok)

lemma pop_n_left: "holds t xs \<Longrightarrow> pop_n popl n t = (Inr vs, t') \<Longrightarrow> n \<le> length xs \<and> vs = take n xs \<and> holds t' (drop n xs)"
proof (induction n arbitrary: t xs vs)
  case (Suc n)
  then obtain v t1 ws where v: "popl t = (Inr v, t1)" "pop_n popl n t1 = (Inr ws, t')" "vs = v # ws" by (auto simp: monad_ok)
  note p = popl_ok [OF Suc.prems(1) v(1)]
  then show ?case using Suc.IH [OF _ v(2), of "tl xs"] v(3) by (cases xs) auto
qed (auto simp: monad_ok)

text \<open>First in, first out; and last in, first out.\<close>

lemma fifo:
  "holds t [] \<Longrightarrow> push_all pushr vs t = (Inr u, t1) \<Longrightarrow> pop_n popl n t1 = (Inr ws, t2) \<Longrightarrow> ws = take n vs \<and> n \<le> length vs"
  using push_all_right pop_n_left by fastforce

lemma lifo:
  "holds t [] \<Longrightarrow> push_all pushl vs t = (Inr u, t1) \<Longrightarrow> pop_n popl n t1 = (Inr ws, t2) \<Longrightarrow> ws = take n (rev vs) \<and> n \<le> length vs"
  using push_all_left pop_n_left by fastforce

end

sublocale badger \<subseteq> lists: deque "\<lambda>t xs. \<exists>s. list_at K k s t xs" "bg_llpush K k" "bg_lrpush K k" "bg_llpop K k" "bg_lrpop K k"
  for k
  by unfold_locales (blast dest: llpush_list lrpush_list llpop_list lrpop_list)+

interpretation mem_list: deque "\<lambda>t xs. \<exists>s. list_at mem_kv k s t xs" "bg_llpush mem_kv k" "bg_lrpush mem_kv k"
    "bg_llpop mem_kv k" "bg_lrpop mem_kv k" for k
  by (rule mem.lists.deque_axioms)

context badger
begin

text \<open>The first push makes the list.\<close>

lemma push_fresh:
  assumes "listStartEnd K t k = Inl e" and "\<not> is_panic e"
  shows "bg_lrpush K k v t = (Inr n, t') \<Longrightarrow> list_at K k 0 t' [v]" and "bg_llpush K k v t = (Inr n, t') \<Longrightarrow> list_at K k (- 1) t' [v]"
proof -
  have b: "\<exists>t1. listBounds K k t = (Inr (0, 0), t1) \<and> list_at K k 0 t1 []"
    if "listBounds K k t = (Inr (s, f), t1)" for s f t1
  proof -
    have "bg_set K (eListMetaKey k) (eListMetaValue 0 0) t = (Inr (), t1)" "s = 0" "f = 0"
      using that assms by (auto simp: listBounds_def bg_lnew_def monad_ok)
    then show ?thesis using that plain.Set_ok [of "eListMetaKey k"] by (simp add: list_at_def)
  qed
  have r: "list_at K k 0 t1 [] \<Longrightarrow> listBounds K k t = (Inr (0, 0), t1) \<Longrightarrow> bg_lrpush K k v t = bg_lrpush K k v t1"
    and l: "list_at K k 0 t1 [] \<Longrightarrow> listBounds K k t = (Inr (0, 0), t1) \<Longrightarrow> bg_llpush K k v t = bg_llpush K k v t1" for t1
    by (auto simp: bg_lrpush_def bg_llpush_def bindM_run listBounds_def list_at_bounds)
  have new: "\<exists>t1. listBounds K k t = (Inr (0, 0), t1) \<and> list_at K k 0 t1 []"
    if "bindM (listBounds K k) f t = (Inr n, t')" for f :: "u64 \<times> u64 \<Rightarrow> ('t, u64) M"
  proof -
    obtain p t1 where "listBounds K k t = (Inr p, t1)" using \<open>bindM (listBounds K k) f t = (Inr n, t')\<close> unfolding bindM_ok by blast
    then show ?thesis using b by (cases p) metis
  qed
  show "list_at K k 0 t' [v]" if run: "bg_lrpush K k v t = (Inr n, t')"
  proof -
    obtain t1 where "listBounds K k t = (Inr (0, 0), t1)" "list_at K k 0 t1 []"
      using new run unfolding bg_lrpush_def by blast
    then show ?thesis using lrpush_list [of k 0 t1 "[]" v n t'] r run by simp
  qed
  show "list_at K k (- 1) t' [v]" if run: "bg_llpush K k v t = (Inr n, t')"
  proof -
    obtain t1 where "listBounds K k t = (Inr (0, 0), t1)" "list_at K k 0 t1 []"
      using new run unfolding bg_llpush_def by blast
    then show ?thesis using llpush_list [of k 0 t1 "[]" v n t'] l run by simp
  qed
qed

end

section \<open>Reading by index\<close>

lemma sint_plus_u64:
  "- (2 ^ 63) \<le> sint a + sint b \<Longrightarrow> sint a + sint b < 2 ^ 63 \<Longrightarrow> sint (a + b :: u64) = sint a + sint b"
  unfolding sint_word_ariths by (simp add: signed_take_bit_int_eq_self)

lemma sint_of_nat_u64: "i < 2 ^ 63 \<Longrightarrow> sint (word_of_nat i :: u64) = int i"
  by (simp add: signed_of_nat signed_take_bit_int_eq_self) 

lemma lindex_list:
  assumes "list_at K k s t xs" and "sint s + int (length xs) < 2 ^ 63" and "i < length xs" and "length xs < 2 ^ 63"
  shows "bg_lindex K t k (word_of_nat i) = Inr (xs ! i)"
proof -
  have i: "sint (word_of_nat i :: u64) = int i" and n: "sint (word_of_nat (length xs) :: u64) = int (length xs)"
    using assms(3,4) by (simp_all add: sint_of_nat_u64)
  have s: "- (2 ^ 63) \<le> sint s" using sint_greater_eq [of s] by simp
  have "sint (word_of_nat i + s) = int i + sint s" "sint (s + word_of_nat (length xs)) = sint s + int (length xs)"
    using sint_plus_u64 [of "word_of_nat i" s] sint_plus_u64 [of s "word_of_nat (length xs)"] i n s assms(2,3) by simp_all
  then show ?thesis
    using assms(1,3) i unfolding bg_lindex_def list_at_bounds [OF assms(1)]
    by (simp add: monad_simps absIndex_def outside_def list_at_def add.commute)
qed

section \<open>Scores\<close>

context badger
begin

lemma zscore_zadd:
  assumes "bg_zadd K k score v t = (Inr u, t')"
  shows "bg_zscore K t' k v = Inr score"
proof -
  obtain t1 u1 where t1: "bg_set K (eZetKey k v) (E32func score) t = (Inr u1, t1)" "bg_set K (eZetScore k v score) [] t1 = (Inr u, t')"
    using assms by (auto simp: bg_zadd_def monad_ok)
  have "eZetKey k v \<noteq> eZetScore k v score" by (simp add: eZetKey_def eZetScore_def zetPrefix_def str_def)
  then show ?thesis using plain.Set_ok [OF t1(1)] plain.Set_ok [OF t1(2)] by (simp add: bg_zscore_def monad_simps scoreOf_def)
qed

lemma zdel_removes:
  assumes "bg_zdel K k v t = (Inr u, t')"
  shows "bg_zscore K t' k v = Inl NotExist"
proof -
  obtain b t1 u1 where t1: "bg_del K (eZetKey k v) t = (Inr u1, t1)" "bg_del K (eZetScore k v (scoreOf b)) t1 = (Inr u, t')"
    using assms by (auto simp: bg_zdel_def monad_ok)
  then show ?thesis using plain.Del_ok [OF t1(1)] plain.Del_ok [OF t1(2)] by (simp add: bg_zscore_def monad_simps)
qed

end

section \<open>Properties\<close>

text \<open>
  C32. A list of the store is a double-ended queue. For a list that holds \<open>xs\<close>, a successful push at
  either end adds its value there and returns the new length, a successful pop removes and returns the
  value at its end and fails on the empty list, and \<open>Llen\<close> is the length; this holds for every length
  below two to the 64, through the wrap-around of the numbers of the cells.
\<close>

theorem list_refines_deque:
  assumes "badger K pending" and "list_at K k s t xs"
  shows "bg_llen K t k = Inr (word_of_nat (length xs)) \<and>
    (bg_lrpush K k v t = (Inr n, t1) \<longrightarrow> list_at K k s t1 (xs @ [v]) \<and> n = word_of_nat (length xs + 1)) \<and>
    (bg_llpush K k v t = (Inr n, t2) \<longrightarrow> list_at K k (s - 1) t2 (v # xs) \<and> n = word_of_nat (length xs + 1)) \<and>
    (bg_lrpop K k t = (Inr w, t3) \<longrightarrow> xs \<noteq> [] \<and> w = last xs \<and> list_at K k s t3 (butlast xs)) \<and>
    (bg_llpop K k t = (Inr w, t4) \<longrightarrow> xs \<noteq> [] \<and> w = hd xs \<and> list_at K k (s + 1) t4 (tl xs))"
  using llen_list [OF assms(2)] badger.lrpush_list [OF assms] badger.llpush_list [OF assms]
    badger.lrpop_list [OF assms] badger.llpop_list [OF assms] by blast

definition demo_list :: memtx where
  "demo_list = snd (bg_lrpush mem_kv (str ''q'') (str ''b'') (snd (bg_llpush mem_kv (str ''q'') (str ''a'') ([], []))))"

lemma demo_list_at: "list_at mem_kv (str ''q'') (- 1) demo_list [str ''a'', str ''b'']"
proof -
  have l: "bg_llpush mem_kv (str ''q'') (str ''a'') ([], []) = (Inr 1, snd (bg_llpush mem_kv (str ''q'') (str ''a'') ([], [])))"
    "bg_lrpush mem_kv (str ''q'') (str ''b'') (snd (bg_llpush mem_kv (str ''q'') (str ''a'') ([], []))) = (Inr 2, demo_list)"
    "listStartEnd mem_kv ([], []) (str ''q'') = Inl NotExist" "\<not> is_panic NotExist"
    unfolding demo_list_def by code_simp+
  show ?thesis using mem.lrpush_list [OF mem.push_fresh(2) [OF l(3,4,1)] l(2)] by simp
qed

theorem list_refines_deque_witness:
  "\<exists>t4. bg_llpop mem_kv (str ''q'') demo_list = (Inr (str ''a''), t4) \<and> list_at mem_kv (str ''q'') 0 t4 [str ''b'']"
proof -
  have "bg_llpop mem_kv (str ''q'') demo_list = (Inr (str ''a''), snd (bg_llpop mem_kv (str ''q'') demo_list))" by code_simp
  moreover from this list_refines_deque [OF mem.badger_axioms demo_list_at, where w = "str ''a''"]
  have "list_at mem_kv (str ''q'') (- 1 + 1) (snd (bg_llpop mem_kv (str ''q'') demo_list)) (tl [str ''a'', str ''b''])" by blast
  ultimately show ?thesis by (intro exI conjI) simp_all
qed

text \<open>After a push at the left, \<open>lset\<close> writes another cell than the one \<open>lindex\<close> reads.\<close>

lemma lset_writes_other_cell:
  "fst (bg_lset mem_kv (str ''q'') 0 (str ''x'') demo_list) = Inr () \<and>
   bg_lindex mem_kv (snd (bg_lset mem_kv (str ''q'') 0 (str ''x'') demo_list)) (str ''q'') 0 = Inr (str ''a'')"
  by code_simp

text \<open>\<open>lrange\<close> reads one cell past the end: a value that was popped is returned.\<close>

lemma lrange_returns_popped_value:
  "bg_llen mem_kv (snd (bg_lrpop mem_kv (str ''q'') demo_list)) (str ''q'') = Inr 1 \<and>
   bg_lrange mem_kv (snd (bg_lrpop mem_kv (str ''q'') demo_list)) (str ''q'') 0 1 = Inr [str ''a'', str ''b'']"
  by code_simp

text \<open>The ends of one list lie in a cell of another.\<close>

lemma list_names_collide: "eListMetaKey (k @ E64func i) = eListKey k i"
  by (simp add: eListMetaKey_def eListKey_def)

text \<open>A member that is added again keeps its old place beside the new one.\<close>

lemma zadd_keeps_old_score:
  "bg_zrange mem_kv (snd (bg_zadd mem_kv (str ''z'') 2 (str ''a'') (snd (bg_zadd mem_kv (str ''z'') 1 (str ''a'') ([], [])))))
     (str ''z'') 0 9 = Inr [str ''a'', str ''a'']"
  by code_simp

text \<open>Scores below zero come after all others in the order of the keys: a range that starts below zero holds no other.\<close>

lemma zrange_misses_positive_scores:
  "bg_zrange mem_kv (snd (bg_zadd mem_kv (str ''z'') (- 1) (str ''b'') (snd (bg_zadd mem_kv (str ''z'') 1 (str ''a'') ([], [])))))
     (str ''z'') (- 5) 5 = Inr [str ''b'']"
  by code_simp

end
