(* ===== verification/Ordered.thy ===== *)
theory Ordered
  imports Collections Complex_Main
begin

text \<open>
  The ordered types of \<open>pkg/storage/typeclass\<close>: an interface \<open>Ord\<close> with one implementation for each of
  \<open>int\<close>, \<open>uint64\<close>, \<open>float64\<close>, \<open>[]byte\<close> and \<open>string\<close>. The argument of a method is any value of the
  interface; the type assertion on it drops its flag, so that a value of another kind counts as zero.
\<close>

section \<open>Values\<close>

datatype Ordering = LT | EQ | GT

text \<open>The constants count from zero.\<close>

fun ordering_int :: "Ordering \<Rightarrow> int" where
  "ordering_int LT = 0" | "ordering_int EQ = 1" | "ordering_int GT = 2"

instantiation Ordering :: linorder
begin

definition less_eq_Ordering :: "Ordering \<Rightarrow> Ordering \<Rightarrow> bool" where "less_eq_Ordering a b \<longleftrightarrow> ordering_int a \<le> ordering_int b"
definition less_Ordering :: "Ordering \<Rightarrow> Ordering \<Rightarrow> bool" where "less_Ordering a b \<longleftrightarrow> ordering_int a < ordering_int b"

instance
proof
  fix x y z :: Ordering
  show "x < y \<longleftrightarrow> x \<le> y \<and> \<not> y \<le> x" "x \<le> x" "x \<le> y \<Longrightarrow> y \<le> z \<Longrightarrow> x \<le> z" "x \<le> y \<or> y \<le> x"
    by (auto simp: less_eq_Ordering_def less_Ordering_def)
  show "x \<le> y \<Longrightarrow> y \<le> x \<Longrightarrow> x = y"
    by (cases x; cases y) (simp_all add: less_eq_Ordering_def)
qed

end

text \<open>A floating-point number as far as comparisons see it; the two zeros are one.\<close>

datatype float64 = NaN | NegInf | Fin rat | PosInf

fun float_less :: "float64 \<Rightarrow> float64 \<Rightarrow> bool" where
  "float_less (Fin a) (Fin b) = (a < b)"
| "float_less NegInf (Fin b) = True"
| "float_less NegInf PosInf = True"
| "float_less (Fin a) PosInf = True"
| "float_less _ _ = False"

definition float_eq :: "float64 \<Rightarrow> float64 \<Rightarrow> bool" where "float_eq a b \<longleftrightarrow> a \<noteq> NaN \<and> a = b"

datatype ord = ordInt u64 | ordUint64 u64 | ordFloat float64 | ordBytes bytes | ordString bytes

text \<open>\<open>bytes.Compare\<close> and \<open>strings.Compare\<close>.\<close>

fun bytes_Compare :: "bytes \<Rightarrow> bytes \<Rightarrow> int" where
  "bytes_Compare [] [] = 0"
| "bytes_Compare [] (y # ys) = - 1"
| "bytes_Compare (x # xs) [] = 1"
| "bytes_Compare (x # xs) (y # ys) = (if x < y then - 1 else if y < x then 1 else bytes_Compare xs ys)"

text \<open>The interface \<open>Ord\<close> as the table of its methods for one receiver type.\<close>

record 'a ord_methods =
  m_Eq :: "'a \<Rightarrow> ord \<Rightarrow> bool"
  m_NotEq :: "'a \<Rightarrow> ord \<Rightarrow> bool"
  m_Lt :: "'a \<Rightarrow> ord \<Rightarrow> bool"
  m_Le :: "'a \<Rightarrow> ord \<Rightarrow> bool"
  m_Gt :: "'a \<Rightarrow> ord \<Rightarrow> bool"
  m_Ge :: "'a \<Rightarrow> ord \<Rightarrow> bool"
  m_Compare :: "'a \<Rightarrow> ord \<Rightarrow> Ordering"

section \<open>Integers\<close>

definition asInt :: "ord \<Rightarrow> u64" where "asInt b = (case b of ordInt v \<Rightarrow> v | _ \<Rightarrow> 0)"

definition ordInt_methods :: "u64 ord_methods" where
  "ordInt_methods =
     (let eq = (\<lambda>a b. a = asInt b); lt = (\<lambda>a b. sint a < sint (asInt b))
      in \<lparr>m_Eq = eq, m_NotEq = (\<lambda>a b. \<not> eq a b),
      m_Lt = lt, m_Le = (\<lambda>a b. sint a \<le> sint (asInt b)),
      m_Gt = (\<lambda>a b. sint (asInt b) < sint a), m_Ge = (\<lambda>a b. sint (asInt b) \<le> sint a),
      m_Compare = (\<lambda>a b. if lt a b then LT else if eq a b then EQ else GT)\<rparr>)"

definition MaxInt :: "u64 \<Rightarrow> u64 \<Rightarrow> u64" where "MaxInt a b = (if m_Lt ordInt_methods a (ordInt b) then b else a)"
definition MinInt :: "u64 \<Rightarrow> u64 \<Rightarrow> u64" where "MinInt a b = (if m_Lt ordInt_methods a (ordInt b) then a else b)"

definition asUint64 :: "ord \<Rightarrow> u64" where "asUint64 b = (case b of ordUint64 v \<Rightarrow> v | _ \<Rightarrow> 0)"

definition ordUint64_methods :: "u64 ord_methods" where
  "ordUint64_methods =
     (let eq = (\<lambda>a b. a = asUint64 b); lt = (\<lambda>a b. a < asUint64 b)
      in \<lparr>m_Eq = eq, m_NotEq = (\<lambda>a b. \<not> eq a b),
      m_Lt = lt, m_Le = (\<lambda>a b. a \<le> asUint64 b),
      m_Gt = (\<lambda>a b. asUint64 b < a), m_Ge = (\<lambda>a b. asUint64 b \<le> a),
      m_Compare = (\<lambda>a b. if lt a b then LT else if eq a b then EQ else GT)\<rparr>)"

definition MaxUint64 :: "u64 \<Rightarrow> u64 \<Rightarrow> u64" where "MaxUint64 a b = (if m_Lt ordUint64_methods a (ordUint64 b) then b else a)"
definition MinUint64 :: "u64 \<Rightarrow> u64 \<Rightarrow> u64" where "MinUint64 a b = (if m_Lt ordUint64_methods a (ordUint64 b) then a else b)"

section \<open>Floating-point numbers\<close>

definition asFloat :: "ord \<Rightarrow> float64" where "asFloat b = (case b of ordFloat v \<Rightarrow> v | _ \<Rightarrow> Fin 0)"

definition float_le :: "float64 \<Rightarrow> float64 \<Rightarrow> bool" where "float_le a b \<longleftrightarrow> float_less a b \<or> float_eq a b"

definition ordFloat_methods :: "float64 ord_methods" where
  "ordFloat_methods =
     (let eq = (\<lambda>a b. float_eq a (asFloat b)); lt = (\<lambda>a b. float_less a (asFloat b))
      in \<lparr>m_Eq = eq, m_NotEq = (\<lambda>a b. \<not> eq a b),
      m_Lt = lt, m_Le = (\<lambda>a b. float_le a (asFloat b)),
      m_Gt = (\<lambda>a b. float_less (asFloat b) a), m_Ge = (\<lambda>a b. float_le (asFloat b) a),
      m_Compare = (\<lambda>a b. if lt a b then LT else if eq a b then EQ else GT)\<rparr>)"

definition MaxFloat :: "float64 \<Rightarrow> float64 \<Rightarrow> float64" where "MaxFloat a b = (if m_Lt ordFloat_methods a (ordFloat b) then b else a)"
definition MinFloat :: "float64 \<Rightarrow> float64 \<Rightarrow> float64" where "MinFloat a b = (if m_Lt ordFloat_methods a (ordFloat b) then a else b)"

section \<open>Byte slices and strings\<close>

definition asBytes :: "ord \<Rightarrow> bytes" where "asBytes b = (case b of ordBytes v \<Rightarrow> v | _ \<Rightarrow> [])"

definition ordBytes_methods :: "bytes ord_methods" where
  "ordBytes_methods =
     (let eq = (\<lambda>a b. bytes_Compare a (asBytes b) = 0); lt = (\<lambda>a b. bytes_Compare a (asBytes b) < 0)
      in \<lparr>m_Eq = eq, m_NotEq = (\<lambda>a b. \<not> eq a b),
      m_Lt = lt, m_Le = (\<lambda>a b. bytes_Compare a (asBytes b) \<le> 0),
      m_Gt = (\<lambda>a b. bytes_Compare a (asBytes b) > 0), m_Ge = (\<lambda>a b. bytes_Compare a (asBytes b) \<ge> 0),
      m_Compare = (\<lambda>a b. if lt a b then LT else if eq a b then EQ else GT)\<rparr>)"

definition MaxBytes :: "bytes \<Rightarrow> bytes \<Rightarrow> bytes" where "MaxBytes a b = (if m_Lt ordBytes_methods a (ordBytes b) then b else a)"
definition MinBytes :: "bytes \<Rightarrow> bytes \<Rightarrow> bytes" where "MinBytes a b = (if m_Lt ordBytes_methods a (ordBytes b) then b else a)"

definition asString :: "ord \<Rightarrow> bytes" where "asString b = (case b of ordString v \<Rightarrow> v | _ \<Rightarrow> [])"

definition ordString_methods :: "bytes ord_methods" where
  "ordString_methods =
     (let eq = (\<lambda>a b. bytes_Compare a (asString b) = 0); lt = (\<lambda>a b. bytes_Compare a (asString b) < 0)
      in \<lparr>m_Eq = eq, m_NotEq = (\<lambda>a b. \<not> eq a b),
      m_Lt = lt, m_Le = (\<lambda>a b. bytes_Compare a (asString b) \<le> 0),
      m_Gt = (\<lambda>a b. bytes_Compare a (asString b) > 0), m_Ge = (\<lambda>a b. bytes_Compare a (asString b) \<ge> 0),
      m_Compare = (\<lambda>a b. if lt a b then LT else if eq a b then EQ else GT)\<rparr>)"

definition MaxString :: "bytes \<Rightarrow> bytes \<Rightarrow> bytes" where "MaxString a b = (if m_Lt ordString_methods a (ordString b) then b else a)"
definition MinString :: "bytes \<Rightarrow> bytes \<Rightarrow> bytes" where "MinString a b = (if m_Lt ordString_methods a (ordString b) then b else a)"

section \<open>Dispatch\<close>

fun ord_Lt :: "ord \<Rightarrow> ord \<Rightarrow> bool" where
  "ord_Lt (ordInt a) b = m_Lt ordInt_methods a b"
| "ord_Lt (ordUint64 a) b = m_Lt ordUint64_methods a b"
| "ord_Lt (ordFloat a) b = m_Lt ordFloat_methods a b"
| "ord_Lt (ordBytes a) b = m_Lt ordBytes_methods a b"
| "ord_Lt (ordString a) b = m_Lt ordString_methods a b"

definition ord_Min :: "ord \<Rightarrow> ord \<Rightarrow> ord" where "ord_Min a b = (if ord_Lt a b then a else b)"
definition ord_Max :: "ord \<Rightarrow> ord \<Rightarrow> ord" where "ord_Max a b = (if ord_Lt a b then b else a)"

section \<open>The laws of the interface\<close>

text \<open>\<open>inj\<close> makes an interface value of a receiver.\<close>

locale ord_laws =
  fixes inj :: "'a \<Rightarrow> ord"
    and M :: "'a ord_methods"
  assumes Eq_iff: "m_Eq M a (inj b) \<longleftrightarrow> a = b"
    and NotEq_iff: "m_NotEq M a (inj b) \<longleftrightarrow> a \<noteq> b"
    and Lt_irrefl: "\<not> m_Lt M a (inj a)"
    and Lt_trans: "m_Lt M a (inj b) \<Longrightarrow> m_Lt M b (inj c) \<Longrightarrow> m_Lt M a (inj c)"
    and Lt_total: "a \<noteq> b \<Longrightarrow> m_Lt M a (inj b) \<or> m_Lt M b (inj a)"
    and Le_iff: "m_Le M a (inj b) \<longleftrightarrow> m_Lt M a (inj b) \<or> a = b"
    and Gt_iff: "m_Gt M a (inj b) \<longleftrightarrow> m_Lt M b (inj a)"
    and Ge_iff: "m_Ge M a (inj b) \<longleftrightarrow> m_Lt M b (inj a) \<or> a = b"
    and Compare_iff: "m_Compare M a (inj b) = (if m_Lt M a (inj b) then LT else if a = b then EQ else GT)"
begin

lemma Lt_asym: "m_Lt M a (inj b) \<Longrightarrow> \<not> m_Lt M b (inj a)"
  using Lt_irrefl Lt_trans by blast

lemma Compare_swap: "ordering_int (m_Compare M b (inj a)) = 2 - ordering_int (m_Compare M a (inj b))"
  using Lt_asym [of a b] Lt_asym [of b a] Lt_total [of a b] by (auto simp: Compare_iff)

lemma Compare_LT: "m_Compare M a (inj b) = LT \<longleftrightarrow> m_Lt M a (inj b)"
  by (simp add: Compare_iff)

lemma Compare_trans: "m_Compare M a (inj b) = LT \<Longrightarrow> m_Compare M b (inj c) = LT \<Longrightarrow> m_Compare M a (inj c) = LT"
  using Lt_trans by (auto simp: Compare_LT)

text \<open>The larger of two values, and of a list.\<close>

lemma larger:
  assumes "\<And>a b. mx a b = (if m_Lt M a (inj b) then b else a)"
  shows "\<not> m_Lt M (mx a b) (inj a) \<and> \<not> m_Lt M (mx a b) (inj b)"
  using Lt_irrefl Lt_asym by (auto simp: assms)

lemma largest:
  assumes mx: "\<And>a b. mx a b = (if m_Lt M a (inj b) then b else a)"
  shows "\<forall>x \<in> set (a # as). \<not> m_Lt M (foldl mx a as) (inj x)"
proof (induction as arbitrary: a)
  case (Cons b bs)
  have "\<not> m_Lt M (foldl mx (mx a b) bs) (inj x)" if "x \<in> {a, b}" for x
  proof
    assume l: "m_Lt M (foldl mx (mx a b) bs) (inj x)"
    have "\<not> m_Lt M (mx a b) (inj x)" using larger [OF mx, of a b] that by blast
    then have "m_Lt M x (inj (mx a b)) \<or> x = mx a b" using Lt_total by blast
    then have "m_Lt M (foldl mx (mx a b) bs) (inj (mx a b))" using l Lt_trans by blast
    then show False using Cons [of "mx a b"] by simp
  qed
  then show ?case using Cons [of "mx a b"] by auto
qed (use Lt_irrefl in simp)

end

lemma bytes_Compare_lexord:
  "(bytes_Compare a b < 0 \<longleftrightarrow> (a, b) \<in> lexord {(x, y). x < y}) \<and> (bytes_Compare a b = 0 \<longleftrightarrow> a = b) \<and>
   (bytes_Compare a b > 0 \<longleftrightarrow> (b, a) \<in> lexord {(x, y). x < y})"
  by (induction a b rule: bytes_Compare.induct) auto

lemma bytes_less_Compare: "bytes_less a b \<longleftrightarrow> bytes_Compare a b < 0"
  by (induction a b rule: bytes_Compare.induct) auto

lemma lexord_byte_trans: "(a, b) \<in> lexord {(x :: byte, y). x < y} \<Longrightarrow> (b, c) \<in> lexord {(x, y). x < y} \<Longrightarrow> (a, c) \<in> lexord {(x, y). x < y}"
  by (erule lexord_trans) (auto simp: trans_def)

lemma lexord_byte_irrefl: "(a, a) \<notin> lexord {(x :: byte, y). x < y}"
  by (rule lexord_irreflexive) auto

lemma lexord_byte_total: "a \<noteq> b \<Longrightarrow> (a, b) \<in> lexord {(x :: byte, y). x < y} \<or> (b, a) \<in> lexord {(x, y). x < y}"
proof -
  have "\<forall>x y :: byte. (x, y) \<in> {(x, y). x < y} \<or> x = y \<or> (y, x) \<in> {(x, y). x < y}" by (auto simp: not_less le_less)
  from lexord_linear [OF this, of a b] show "a \<noteq> b \<Longrightarrow> (a, b) \<in> lexord {(x :: byte, y). x < y} \<or> (b, a) \<in> lexord {(x, y). x < y}" by blast
qed

lemmas bytes_order =
  bytes_Compare_lexord lexord_byte_trans lexord_byte_irrefl lexord_byte_total

lemma bytes_Compare_le: "bytes_Compare a b \<le> 0 \<longleftrightarrow> (a, b) \<in> lexord {(x, y). x < y} \<or> a = b"
  "0 \<le> bytes_Compare a b \<longleftrightarrow> (b, a) \<in> lexord {(x, y). x < y} \<or> a = b"
  using bytes_Compare_lexord [of a b] by linarith+

lemma signed_eq_iff_u64: "sint (a :: u64) = sint b \<longleftrightarrow> a = b"
  by (metis word_eq_iff_signed)

interpretation ord_int: ord_laws ordInt ordInt_methods
  by unfold_locales (auto simp: Let_def ordInt_methods_def asInt_def le_less signed_eq_iff_u64 not_less)

interpretation ord_uint64: ord_laws ordUint64 ordUint64_methods
  by unfold_locales (auto simp: Let_def ordUint64_methods_def asUint64_def)

interpretation ord_bytes: ord_laws ordBytes ordBytes_methods
  by unfold_locales (use bytes_order in \<open>auto simp: Let_def ordBytes_methods_def asBytes_def bytes_Compare_lexord bytes_Compare_le\<close>)

interpretation ord_string: ord_laws ordString ordString_methods
  by unfold_locales (use bytes_order in \<open>auto simp: Let_def ordString_methods_def asString_def bytes_Compare_lexord bytes_Compare_le\<close>)

lemma ord_bytes_Lt: "m_Lt ordBytes_methods a (ordBytes b) \<longleftrightarrow> bytes_less a b"
  by (simp add: ordBytes_methods_def Let_def asBytes_def bytes_less_Compare)

lemma ord_string_Lt: "m_Lt ordString_methods a (ordString b) \<longleftrightarrow> bytes_less a b"
  by (simp add: ordString_methods_def Let_def asString_def bytes_less_Compare)

section \<open>Properties\<close>

text \<open>
  C33. Byte slices and strings are ordered like words in a dictionary. On two byte slices, and on two
  strings, each of the seven methods agrees with the lexicographic order of the bytes, and this is the
  order in which an iterator of the store seeks its keys.
\<close>

theorem byte_order_is_lexicographic:
  "(bytes_less a b \<longleftrightarrow> (a, b) \<in> lexord {(x, y). x < y}) \<and>
   (m_Lt ordBytes_methods a (ordBytes b) \<longleftrightarrow> bytes_less a b) \<and> (m_Le ordBytes_methods a (ordBytes b) \<longleftrightarrow> bytes_less a b \<or> a = b) \<and>
   (m_Gt ordBytes_methods a (ordBytes b) \<longleftrightarrow> bytes_less b a) \<and> (m_Ge ordBytes_methods a (ordBytes b) \<longleftrightarrow> bytes_less b a \<or> a = b) \<and>
   (m_Eq ordBytes_methods a (ordBytes b) \<longleftrightarrow> a = b) \<and> (m_NotEq ordBytes_methods a (ordBytes b) \<longleftrightarrow> a \<noteq> b) \<and>
   m_Compare ordBytes_methods a (ordBytes b) = (if bytes_less a b then LT else if a = b then EQ else GT) \<and>
   (m_Lt ordString_methods a (ordString b) \<longleftrightarrow> bytes_less a b) \<and> (m_Le ordString_methods a (ordString b) \<longleftrightarrow> bytes_less a b \<or> a = b) \<and>
   (m_Gt ordString_methods a (ordString b) \<longleftrightarrow> bytes_less b a) \<and> (m_Ge ordString_methods a (ordString b) \<longleftrightarrow> bytes_less b a \<or> a = b) \<and>
   (m_Eq ordString_methods a (ordString b) \<longleftrightarrow> a = b) \<and> (m_NotEq ordString_methods a (ordString b) \<longleftrightarrow> a \<noteq> b) \<and>
   m_Compare ordString_methods a (ordString b) = (if bytes_less a b then LT else if a = b then EQ else GT)"
  using bytes_less_Compare [of a b] bytes_Compare_lexord [of a b] ord_bytes_Lt ord_string_Lt
  by (simp add: ord_bytes.Compare_iff ord_bytes.Le_iff ord_bytes.Gt_iff ord_bytes.Ge_iff ord_bytes.Eq_iff ord_bytes.NotEq_iff
      ord_string.Compare_iff ord_string.Le_iff ord_string.Gt_iff ord_string.Ge_iff ord_string.Eq_iff ord_string.NotEq_iff)

text \<open>The largest of a list of integers, byte slices or strings is found by taking the larger of two in turn.\<close>

lemma MaxInt_largest: "\<forall>x \<in> set (a # as). \<not> m_Lt ordInt_methods (foldl MaxInt a as) (ordInt x)"
  by (rule ord_int.largest) (rule MaxInt_def)

lemma MaxUint64_largest: "\<forall>x \<in> set (a # as). \<not> m_Lt ordUint64_methods (foldl MaxUint64 a as) (ordUint64 x)"
  by (rule ord_uint64.largest) (rule MaxUint64_def)

lemma MaxBytes_largest: "\<forall>x \<in> set (a # as). \<not> m_Lt ordBytes_methods (foldl MaxBytes a as) (ordBytes x)"
  by (rule ord_bytes.largest) (rule MaxBytes_def)

lemma MaxString_largest: "\<forall>x \<in> set (a # as). \<not> m_Lt ordString_methods (foldl MaxString a as) (ordString x)"
  by (rule ord_string.largest) (rule MaxString_def)

text \<open>\<open>MinBytes\<close> and \<open>MinString\<close> return the larger value.\<close>

lemma MinBytes_is_MaxBytes: "MinBytes = MaxBytes \<and> MinString = MaxString \<and> MinBytes [1] [2] = [2]"
  by (simp add: fun_eq_iff MinBytes_def MaxBytes_def MinString_def MaxString_def Let_def ordBytes_methods_def asBytes_def)

text \<open>Between kinds \<open>Eq\<close> is not symmetric, and between values that are no numbers \<open>Compare\<close> says greater both ways.\<close>

lemma mixed_kinds_not_symmetric:
  "m_Eq ordInt_methods 0 (ordBytes [1]) \<and> \<not> m_Eq ordBytes_methods [1] (ordInt 0) \<and>
   ord_Lt (ordInt 0) (ordUint64 1) = ord_Lt (ordInt 0) (ordInt 0)"
  by (simp add: Let_def ordInt_methods_def ordBytes_methods_def asInt_def asBytes_def)

lemma nan_greater_than_itself: "m_Compare ordFloat_methods NaN (ordFloat NaN) = GT"
  by (simp add: Let_def ordFloat_methods_def asFloat_def float_eq_def)

end
