(* ===== verification/Spec2Isabelle.thy ===== *)
theory Spec2Isabelle
  imports Ledger Reward Difficulty Vdf Merkle Consensus Miner Sync Pool Tokens Ordered
begin

text \<open>
  A verification development of korthochain, a proof-of-work blockchain node with accounts, frozen
  quotas and Ethereum contracts (\<open>src/pkg\<close>).

  \<^bold>\<open>The program.\<close> A node keeps two stores. The database (\<open>pkg/storage/store\<close>, an adapter of the
  badger key-value store) holds the index of the chain: height to hash, hash to serialised block,
  transaction hash to position, address to transaction hashes, and the root of the state at every
  height. The state database of go-ethereum holds balances, nonces, contract code and, under derived
  addresses, the frozen quotas. \<open>Blockchain.AddBlock\<close> executes the transactions of a block on the
  state, compares state roots and writes the index in one database transaction; on failure it
  reloads the state from the old root. Blocks and transactions travel in CBOR, addresses as base-58
  text. Mining works against targets in compact form that are adjusted to the elapsed time; the hash
  of a mined block goes through a verifiable delay function over class groups. Received
  transactions wait in a pool that orders them; received blocks go through the consensus layer, which
  keeps orphans and branches and reorganises the chain. Scripts in a small language of their own
  handle tokens inside transactions.

  \<^bold>\<open>How the code is modelled.\<close> A byte slice or string is a list of bytes, a \<open>uint64\<close> a 64-bit word
  whose arithmetic wraps, a \<open>*big.Int\<close> an integer, a struct a record, an \<open>error\<close> result the left
  injection of a sum, a run-time panic an error value \<open>Panic\<close>. A function that changes a state is a
  computation \<open>('st, 'a) M\<close> (theory \<open>Prelude\<close>): it returns the result and the state it leaves, on the
  error path too, so that partial writes are visible. Code outside the repository is a field of a
  record of functions that the definitions take as argument: badger is \<open>kv\<close> (theory \<open>Store\<close>), hashing,
  CBOR primitives and the network setting are \<open>env\<close> (theory \<open>Env\<close>), go-ethereum's state database and
  virtual machine are part of \<open>sys\<close> (theory \<open>State\<close>). What the code relies on is stated in the locales
  \<open>badger\<close>, \<open>cbor\<close>, \<open>statedb\<close>, \<open>chain_sys\<close> (badger and the state database together) and
  \<open>curves_ok\<close> (the signature schemes); each is interpreted on a concrete instance (a memory store, an
  RFC 7049 codec, an association-list state). The contracts of the code's own interfaces are the
  locales \<open>store_tx\<close>, \<open>store_map\<close> and \<open>deque\<close>, which the adapter's plain keys, named maps and lists
  meet over every \<open>badger\<close>, and \<open>ord_laws\<close>, met by four of the ordered types.

  \<^bold>\<open>Theories.\<close>

  \<^item> \<open>Prelude\<close>: Go types, errors, computations with their simplification and frame rules.
  \<^item> \<open>Codec\<close>: \<open>storage/miscellaneous\<close> (fixed-width integers, slices, map keys) and \<open>util/math\<close>
    (checked sums). Round trips, bijections, exactness of the overflow checks.
  \<^item> \<open>Store\<close>: \<open>storage/store/bg/bg.go\<close>, keys, named maps and sets over badger. Named maps behave as
    maps and clearing one touches no other key.
  \<^item> \<open>Bigint\<close>, \<open>Floats\<close>: \<open>big.Int.Bytes\<close>, hexadecimal text, and \<open>big.Float\<close> arithmetic.
  \<^item> \<open>Env\<close>: the third-party primitives and the contract of the CBOR library.
  \<^item> \<open>Address\<close>: \<open>address\<close> and \<open>util/addrcodec\<close>. Round trips of the textual forms.
  \<^item> \<open>Txn\<close>: \<open>transaction\<close> and \<open>crypto/signature.go\<close>. Round trips of the codecs; what the hash of a
    transaction binds and what it does not.
  \<^item> \<open>Blocks\<close>: \<open>block/types.go\<close>. Round trip of the codec; what the miner hash covers.
  \<^item> \<open>State\<close>: \<open>blockchain/state.go\<close> and \<open>freeze.go\<close>. Exact effects of transfers, nonces and quotas, and
    ways in which the code creates money or crashes.
  \<^item> \<open>Chain\<close>: the index and the execution of blocks, \<open>blockchain.go\<close>, \<open>addAndDel.go\<close>,
    \<open>syncblock.go\<close>, \<open>contract.go\<close>, \<open>contract/evm/evm.go\<close>. An accepted block extends the index exactly,
    a refused one leaves it as it was.
  \<^item> \<open>Ledger\<close>: executing payments conserves money up to what coinbase transactions create.
  \<^item> \<open>Reward\<close>: block rewards and the reported supply. The total emission is bounded.
  \<^item> \<open>Difficulty\<close>: \<open>util/difficulty/difficulty.go\<close>. Bounds on retargeting, exactness of the target of a
    miner.
  \<^item> \<open>Collections\<close>: the lists and sorted sets of \<open>bg.go\<close>. Pushing and popping refine a double-ended
    queue; five ways in which the other operations go wrong.
  \<^item> \<open>Ordered\<close>: \<open>storage/typeclass\<close>. The order of byte slices is the lexicographic one.
  \<^item> \<open>Classgroup\<close>: \<open>util/difficulty/hash\<close>, binary quadratic forms. Reduction returns, composition
    stays inside the group.
  \<^item> \<open>Vdf\<close>: the sieve, the discriminant, the delay function and its proof. The hash returns under a
    primality test that accepts the primes it must.
  \<^item> \<open>Merkle\<close>: \<open>storage/merkle\<close>. For a collision-free hash the root binds lists of equal length.
  \<^item> \<open>Reorg\<close>: checks of a block, new blocks, removal and \<open>ReorganizeChain\<close> (\<open>checkblock.go\<close>,
    \<open>blockchain.go\<close>, \<open>addAndDel.go\<close>). Removal undoes addition, a failed reorganisation changes nothing.
  \<^item> \<open>Consensus\<close>: \<open>pkg/consensus\<close>. The branch point is the first common block, the two maps of the
    orphan pool agree, the processing of orphans returns.
  \<^item> \<open>Miner\<close>: \<open>pkg/miner/miner.go\<close> and \<open>pool.go\<close>. What the miner aims at is what a node checks; the
    pool of connections does not keep its limit.
  \<^item> \<open>Sync\<close>: \<open>pkg/server/rpcserver/rpcserver.go\<close> and \<open>pkg/miner/insideclient.go\<close>, a node that answers
    about its chain and a client that catches up, and \<open>pkg/controller\<close>, announced blocks. Near the tip the
    client ends with the index of an honest node; a dishonest peer can make it delete its blocks; the
    branch point is the highest common block.
  \<^item> \<open>Queue\<close>: \<open>txpool/queue.go\<close>, the heap of the pool. It refines a finite map, its index is exact.
  \<^item> \<open>Sign\<close>: \<open>crypto/sigs\<close> and \<open>transaction/sign.go\<close>. What verifies was signed, and where it was not.
  \<^item> \<open>Pool\<close>: \<open>txpool/pool.go\<close>. The selection for a block has consecutive nonces per sender.
  \<^item> \<open>Scripts\<close>: \<open>contract/parser\<close>. Parsed scripts are well typed; printing and parsing are inverse.
  \<^item> \<open>Tokens\<close>: \<open>contract/exec\<close> and \<open>blockchain/token.go\<close>. Exact token transfers, frozen tokens stay
    covered.

  \<^bold>\<open>Loops, bounds and fuel.\<close> Loops over data are structural recursions; the lexer, the parser, the
  heap, the sieve, the integer logarithms and the tree loops have measures. Loops that the code does
  not bound are partial functions whose value is \<open>None\<close> when they do not return: \<open>reduce_loop\<close> (returns
  on every positive definite form), \<open>search_discriminant\<close> and \<open>hashPrime_loop\<close> (return when the
  primality test accepts a number on their way), \<open>hashs_from\<close> (returns at the first height without a
  hash), \<open>head_loop\<close> (returns when the ancestors of the block reach a known one, and does not for a block
  that is its own parent), \<open>FindBranchPoint_loop\<close> (returns when parents lie below their children),
  \<open>ProcessOrphan_loop\<close> (returns in every reachable state of the orphan pool). Only \<open>FindChainBranch\<close>,
  which follows hashes through the database and may run forever on a cyclic index, takes fuel: one unit
  per block visited. Where a run that does not return is part of a larger
  step (\<open>workHash\<close>, \<open>runE\<close>), it is represented by an error value of its own, as nothing after it runs.

  \<^bold>\<open>Not modelled.\<close> Locks (every exported method takes the mutex of its object, so its body runs
  alone), logging, metrics and the clock, whose readings are arguments. The other servers, the
  peer-to-peer layer and the clients of contracts, which move data between the network and the parts
  above; the event loop of the miner and the loops that repeat the synchronisation, which pass messages
  between goroutines. The adapter through which go-ethereum stores its trie, the virtual machine, the
  trie and the curve packages, which are third-party code or only call it. The files \<open>pledge.go\<close> and \<open>distribute.go\<close>, which nothing calls, and
  \<open>contracttransaction.go\<close>, which declares names of its package a second time. \<open>miner/hash\<close> is a copy
  of \<open>util/difficulty/hash\<close>.
\<close>

end
